(* ===== verification/Prelude.thy ===== *)
theory Prelude
  imports Main "HOL-Library.Word" "HOL-Library.AList" "HOL-Library.Char_ord"
    "HOL-Library.List_Lexorder" "HOL-Library.Sublist"
begin

text \<open>
  Shared vocabulary of the development: machine integers, text, paths and the generic lemmas on
  strings and association lists.

  A Rust \<open>String\<close> or \<open>str\<close> is its UTF-8 byte sequence, a \<open>string\<close> here, so \<open>length\<close> is Rust's
  \<open>len()\<close> and the byte-wise order of the library is Rust's order of strings.  A Unix path is a
  \<open>string\<close> as well.  A \<open>HashMap\<close> is an association list with distinct keys whose order stands for
  the unspecified iteration order; a \<open>HashSet\<close> is a set.
\<close>

named_theorems alist_simps \<open>lookups after updates of association lists\<close>
named_theorems text_simps \<open>equations that evaluate string routines\<close>

type_synonym u32 = "32 word"
type_synonym i32 = "32 word"
type_synonym u64 = "64 word"
type_synonym i64 = "64 word"
type_synonym path = string

section \<open>Saturating arithmetic of u64\<close>

definition saturating_sub :: "u64 \<Rightarrow> u64 \<Rightarrow> u64" where
  "saturating_sub a b = (if b \<le> a then a - b else 0)"

definition saturating_mul :: "u64 \<Rightarrow> u64 \<Rightarrow> u64" where
  "saturating_mul a b = (if unat a * unat b < 2 ^ 64 then a * b else - 1)"

lemma unat_saturating_sub: "unat (saturating_sub a b) = unat a - unat b"
  by (auto simp: saturating_sub_def unat_sub word_le_nat_alt)

lemma unat_saturating_mul: "unat (saturating_mul a b) = min (unat a * unat b) (2 ^ 64 - 1)"
proof (cases "unat a * unat b < 2 ^ 64")
  case True
  then have "unat (a * b) = unat a * unat b"
    by (simp add: unat_word_ariths)
  with True show ?thesis by (simp add: saturating_mul_def)
next
  case False
  then have "min (unat a * unat b) (2 ^ 64 - 1) = 2 ^ 64 - 1" by simp
  moreover have "unat (- 1 :: u64) = 2 ^ 64 - 1"
    by (simp add: unsigned_minus_1_eq_mask mask_eq_exp_minus_1)
  ultimately show ?thesis using False by (simp add: saturating_mul_def)
qed

section \<open>Splitting and joining text\<close>

text \<open>\<open>str::split(c)\<close>: the pieces between occurrences of \<open>c\<close>; the empty text has one piece.\<close>

fun split_on :: "char \<Rightarrow> string \<Rightarrow> string list" where
  "split_on c [] = [[]]"
| "split_on c (x # xs) =
     (if x = c then [] # split_on c xs
      else (case split_on c xs of [] \<Rightarrow> [[x]] | t # ts \<Rightarrow> (x # t) # ts))"

fun join_with :: "char \<Rightarrow> string list \<Rightarrow> string" where
  "join_with c [] = []"
| "join_with c [t] = t"
| "join_with c (t # ts) = t @ c # join_with c ts"

lemma split_on_ne [simp]: "split_on c s \<noteq> []"
  by (induction s) (auto split: list.splits)

lemma join_with_Cons: "ts \<noteq> [] \<Longrightarrow> join_with c (t # ts) = t @ c # join_with c ts"
  by (cases ts) auto

lemma join_split: "join_with c (split_on c s) = s"
proof (induction s)
  case (Cons x xs)
  then show ?case
    by (cases "split_on c xs"; cases "tl (split_on c xs)") (auto simp: join_with_Cons)
qed simp

lemma split_on_parts: "t \<in> set (split_on c s) \<Longrightarrow> c \<notin> set t"
proof (induction s arbitrary: t)
  case (Cons x xs)
  then show ?case by (cases "split_on c xs") (auto split: if_splits)
qed simp

lemma split_on_no_sep: "c \<notin> set s \<Longrightarrow> split_on c s = [s]"
  by (induction s) auto

lemma split_on_append:
  "c \<notin> set t \<Longrightarrow> split_on c (t @ c # s) = t # split_on c s"
  by (induction t) auto

lemma split_join:
  assumes "ts \<noteq> []" and "\<forall>t \<in> set ts. c \<notin> set t"
  shows "split_on c (join_with c ts) = ts"
  using assms
proof (induction ts)
  case (Cons t ts)
  then show ?case
    by (cases "ts = []") (auto simp: join_with_Cons split_on_append split_on_no_sep)
qed simp

section \<open>Searching text\<close>

text \<open>\<open>str::find\<close> of a text and of a character, and \<open>str::rfind\<close> of a character: byte offsets.\<close>

fun find_sub :: "string \<Rightarrow> string \<Rightarrow> nat option" where
  "find_sub p [] = (if p = [] then Some 0 else None)"
| "find_sub p (x # xs) =
     (if take (length p) (x # xs) = p then Some 0 else map_option Suc (find_sub p xs))"

fun find_char :: "char \<Rightarrow> string \<Rightarrow> nat option" where
  "find_char c [] = None"
| "find_char c (x # xs) = (if x = c then Some 0 else map_option Suc (find_char c xs))"

fun rfind_char :: "char \<Rightarrow> string \<Rightarrow> nat option" where
  "rfind_char c [] = None"
| "rfind_char c (x # xs) =
     (case rfind_char c xs of Some i \<Rightarrow> Some (Suc i) | None \<Rightarrow> if x = c then Some 0 else None)"

lemma find_char_None: "find_char c s = None \<longleftrightarrow> c \<notin> set s"
  by (induction s) auto

lemma rfind_char_None: "rfind_char c s = None \<longleftrightarrow> c \<notin> set s"
  by (induction s) (auto split: option.splits)

lemma find_char_append: "c \<notin> set a \<Longrightarrow> find_char c (a @ c # b) = Some (length a)"
  by (induction a) auto

lemma rfind_char_append: "c \<notin> set b \<Longrightarrow> rfind_char c (a @ c # b) = Some (length a)"
proof (induction a)
  case Nil
  then have "rfind_char c b = None" by (simp add: rfind_char_None)
  then show ?case by simp
qed auto

text \<open>The offset of the first \<open>c\<close>, or of the end, as the code cuts at a delimiter.\<close>

lemma find_char_or_end:
  assumes "c \<notin> set a" and "r = [] \<or> hd r = c"
  shows "(case find_char c (a @ r) of None \<Rightarrow> n + length (a @ r) | Some i \<Rightarrow> n + i) = n + length a"
proof (cases r)
  case Nil
  from assms(1) have "find_char c a = None" by (rule iffD2[OF find_char_None])
  then show ?thesis by (simp only: Nil append_Nil2 option.case)
next
  case (Cons d r')
  with assms(2) have "r = c # r'" by simp
  with find_char_append[OF assms(1), of r'] show ?thesis by simp
qed

lemma find_char_SomeD:
  "find_char c s = Some i \<Longrightarrow> i < length s \<and> s ! i = c \<and> c \<notin> set (take i s)"
  by (induction s arbitrary: i) (auto split: if_splits)

lemma rfind_char_SomeD:
  "rfind_char c s = Some i \<Longrightarrow> i < length s \<and> s ! i = c \<and> c \<notin> set (drop (Suc i) s)"
  by (induction s arbitrary: i) (auto simp: rfind_char_None split: if_splits option.splits)

lemma find_sub_SomeD:
  "find_sub p s = Some i \<Longrightarrow> take (length p) (drop i s) = p \<and> i + length p \<le> length s"
proof (induction s arbitrary: i)
  case (Cons x xs)
  show ?case
  proof (cases "take (length p) (x # xs) = p")
    case True
    then have "length p \<le> length (x # xs)" by (metis length_take min.cobounded2 min.commute)
    with True Cons.prems show ?thesis by simp
  next
    case False
    with Cons show ?thesis by auto
  qed
qed (auto split: if_splits)

lemma find_sub_here: "find_sub p (p @ t) = Some 0"
proof (cases "p @ t")
  case (Cons x xs)
  then have "take (length p) (x # xs) = p" by (metis append_eq_conv_conj)
  with Cons show ?thesis by simp
qed simp

lemma find_sub_take:
  "find_sub p s = Some i \<Longrightarrow> find_sub p (take (i + length p) s @ t) = Some i"
proof (induction s arbitrary: i)
  case Nil
  then show ?case by (cases t) (auto split: if_splits)
next
  case (Cons x xs)
  show ?case
  proof (cases "take (length p) (x # xs) = p")
    case True
    with Cons.prems have "i = 0" by simp
    with True find_sub_here[of p t] show ?thesis by simp
  next
    case False
    with Cons.prems obtain j where j: "i = Suc j" "find_sub p xs = Some j" by auto
    have "j + length p \<le> length xs" using find_sub_SomeD[OF j(2)] by simp
    then have "take (length p) (x # take (j + length p) xs @ t) = take (length p) (x # xs)"
      by (cases "length p") (simp_all add: min_absorb1)
    with False Cons.IH[OF j(2)] j(1) show ?thesis by simp
  qed
qed

section \<open>Trimming white space\<close>

text \<open>
  The UTF-8 encodings of the characters with the Unicode property \<open>White_Space\<close>, which \<open>str::trim\<close>
  removes at both ends.  UTF-8 is self-synchronising, so matching encodings from the left (or, on
  the reversed text, from the right) is matching characters.
\<close>

definition ws_chars :: "string list" where
  "ws_chars =
     [[CHR 0x09], [CHR 0x0A], [CHR 0x0B], [CHR 0x0C], [CHR 0x0D], [CHR 0x20],
      [CHR 0xC2, CHR 0x85], [CHR 0xC2, CHR 0xA0], [CHR 0xE1, CHR 0x9A, CHR 0x80],
      [CHR 0xE2, CHR 0x80, CHR 0x80], [CHR 0xE2, CHR 0x80, CHR 0x81],
      [CHR 0xE2, CHR 0x80, CHR 0x82], [CHR 0xE2, CHR 0x80, CHR 0x83],
      [CHR 0xE2, CHR 0x80, CHR 0x84], [CHR 0xE2, CHR 0x80, CHR 0x85],
      [CHR 0xE2, CHR 0x80, CHR 0x86], [CHR 0xE2, CHR 0x80, CHR 0x87],
      [CHR 0xE2, CHR 0x80, CHR 0x88], [CHR 0xE2, CHR 0x80, CHR 0x89],
      [CHR 0xE2, CHR 0x80, CHR 0x8A], [CHR 0xE2, CHR 0x80, CHR 0xA8],
      [CHR 0xE2, CHR 0x80, CHR 0xA9], [CHR 0xE2, CHR 0x80, CHR 0xAF],
      [CHR 0xE2, CHR 0x81, CHR 0x9F], [CHR 0xE3, CHR 0x80, CHR 0x80]]"

fun strip_one :: "string list \<Rightarrow> string \<Rightarrow> string option" where
  "strip_one [] s = None"
| "strip_one (p # ps) s =
     (if p \<noteq> [] \<and> take (length p) s = p then Some (drop (length p) s) else strip_one ps s)"

lemma strip_one_SomeD:
  "strip_one ps s = Some r \<Longrightarrow> \<exists>p \<in> set ps. p \<noteq> [] \<and> s = p @ r"
proof (induction ps)
  case (Cons p ps)
  show ?case
  proof (cases "p \<noteq> [] \<and> take (length p) s = p")
    case True
    with Cons.prems have "s = p @ r" by (metis append_take_drop_id option.inject strip_one.simps(2))
    with True show ?thesis by auto
  next
    case False
    with Cons show ?thesis by auto
  qed
qed simp

lemma strip_one_shorter: "strip_one ps s = Some r \<Longrightarrow> length r < length s"
  by (auto dest: strip_one_SomeD)

function strip_all :: "string list \<Rightarrow> string \<Rightarrow> string" where
  "strip_all ps s = (case strip_one ps s of None \<Rightarrow> s | Some r \<Rightarrow> strip_all ps r)"
  by pat_completeness auto
termination
  by (relation "measure (\<lambda>(ps, s). length s)") (auto dest: strip_one_shorter)

declare strip_all.simps [simp del]

definition trim_start :: "string \<Rightarrow> string" where
  "trim_start s = strip_all ws_chars s"

definition trim_end :: "string \<Rightarrow> string" where
  "trim_end s = rev (strip_all (map rev ws_chars) (rev s))"

definition trim :: "string \<Rightarrow> string" where
  "trim s = trim_end (trim_start s)"

lemma strip_one_prefix: "p \<in> set ps \<Longrightarrow> p \<noteq> [] \<Longrightarrow> strip_one ps (p @ r) \<noteq> None"
  by (induction ps) auto

lemma strip_all_stuck: "strip_one ps (strip_all ps s) = None"
  by (induction ps s rule: strip_all.induct)
    (subst strip_all.simps, auto split: option.splits)

lemma strip_all_suffix: "\<exists>ws. set ws \<subseteq> set ps \<and> s = concat ws @ strip_all ps s"
proof (induction ps s rule: strip_all.induct)
  case (1 ps s)
  show ?case
  proof (cases "strip_one ps s")
    case None
    then show ?thesis by (intro exI[of _ "[]"]) (simp add: strip_all.simps[of ps s])
  next
    case (Some r)
    then obtain p where p: "p \<in> set ps" "s = p @ r" by (auto dest: strip_one_SomeD)
    from "1"[OF Some] obtain ws where "set ws \<subseteq> set ps" "r = concat ws @ strip_all ps r" by blast
    moreover from Some have "strip_all ps s = strip_all ps r"
      by (simp add: strip_all.simps[of ps s])
    ultimately have "set (p # ws) \<subseteq> set ps \<and> s = concat (p # ws) @ strip_all ps s"
      using p by simp
    then show ?thesis by blast
  qed
qed

text \<open>A text that trims to nothing is a sequence of white-space characters, and nothing else is.\<close>

lemma ws_chars_ne: "p \<in> set ws_chars \<Longrightarrow> p \<noteq> []"
  by (auto simp: ws_chars_def)

lemma trim_empty_blank:
  assumes "trim s = []" shows "\<exists>ws. set ws \<subseteq> set ws_chars \<and> s = concat ws"
proof -
  let ?r = "trim_start s"
  from assms have "strip_all (map rev ws_chars) (rev ?r) = []"
    by (simp add: trim_def trim_end_def)
  then obtain ws where ws: "set ws \<subseteq> set (map rev ws_chars)" "rev ?r = concat ws"
    using strip_all_suffix[of "map rev ws_chars" "rev ?r"] by auto
  have "?r = []"
  proof (rule ccontr)
    assume "?r \<noteq> []"
    with ws obtain vs v where "ws = vs @ [v]" by (metis concat.simps(1) rev_exhaust rev_is_Nil_conv)
    with ws have "rev (rev ?r) = rev v @ rev (concat vs)" "rev v \<in> set ws_chars"
      by (auto simp only: rev_append concat_append concat.simps) auto
    then have "?r = rev v @ rev (concat vs)" "rev v \<in> set ws_chars" by simp_all
    with strip_one_prefix[of "rev v" ws_chars "rev (concat vs)"] ws_chars_ne[of "rev v"]
    have "strip_one ws_chars ?r \<noteq> None" by simp
    then show False by (simp add: trim_start_def strip_all_stuck)
  qed
  then show ?thesis using strip_all_suffix[of ws_chars s] by (auto simp: trim_start_def)
qed

section \<open>Decimal numerals\<close>

text \<open>\<open>to_string()\<close> of an unsigned integer.\<close>

definition digit :: "nat \<Rightarrow> char" where
  "digit d = char_of (48 + d)"

fun show_nat :: "nat \<Rightarrow> string" where
  "show_nat n = (if n < 10 then [digit n] else show_nat (n div 10) @ [digit (n mod 10)])"

declare show_nat.simps [simp del]

definition read_nat :: "string \<Rightarrow> nat" where
  "read_nat s = foldl (\<lambda>n c. 10 * n + (of_char c - 48)) 0 s"

lemma of_char_digit: "d < 10 \<Longrightarrow> of_char (digit d) = 48 + d"
  by (simp add: digit_def)

lemma read_show_nat [simp]: "read_nat (show_nat n) = n"
proof (induction n rule: show_nat.induct)
  case (1 n)
  then show ?case
    by (cases "n < 10") (simp_all add: show_nat.simps[of n] read_nat_def of_char_digit)
qed

lemma show_nat_inject [simp]: "show_nat m = show_nat n \<longleftrightarrow> m = n"
  by (metis read_show_nat)

lemma show_nat_digits: "c \<in> set (show_nat n) \<Longrightarrow> \<exists>d < 10. c = digit d"
proof (induction n rule: show_nat.induct)
  case (1 n)
  then show ?case
    by (cases "n < 10") (auto simp: show_nat.simps[of n] intro: exI[of _ "n mod 10"])
qed

lemma show_nat_ne [simp]: "show_nat n \<noteq> []"
  by (subst show_nat.simps) simp

section \<open>Paths\<close>

text \<open>\<open>Path::is_absolute\<close> and \<open>Path::join\<close> on Unix.\<close>

definition is_absolute :: "path \<Rightarrow> bool" where
  "is_absolute p = (case p of [] \<Rightarrow> False | c # _ \<Rightarrow> c = CHR ''/'')"

definition path_join :: "path \<Rightarrow> path \<Rightarrow> path" where
  "path_join base p =
     (if is_absolute p then p
      else if base = [] \<or> last base = CHR ''/'' then base @ p
      else base @ CHR ''/'' # p)"

lemma path_join_inject:
  "\<not> is_absolute p \<Longrightarrow> \<not> is_absolute q \<Longrightarrow> path_join d p = path_join d q \<longleftrightarrow> p = q"
  by (simp add: path_join_def)

text \<open>
  \<open>Path::file_stem\<close> and \<open>Path::extension\<close> of a file name: both sides of its last dot; a name whose
  only dot is the leading one, and \<open>..\<close>, is all stem.
\<close>

definition split_at_dot :: "string \<Rightarrow> string \<times> string option" where
  "split_at_dot name =
     (if name = ''..'' then (name, None)
      else (case rfind_char (CHR ''.'') name of
          None \<Rightarrow> (name, None)
        | Some 0 \<Rightarrow> (name, None)
        | Some i \<Rightarrow> (take i name, Some (drop (Suc i) name))))"

definition file_stem :: "string \<Rightarrow> string" where
  "file_stem name = fst (split_at_dot name)"

definition extension :: "string \<Rightarrow> string option" where
  "extension name = snd (split_at_dot name)"

lemma split_at_dot_append:
  assumes "stem \<noteq> []" and "ext \<noteq> []" and "CHR ''.'' \<notin> set ext"
  shows "split_at_dot (stem @ CHR ''.'' # ext) = (stem, Some ext)"
proof -
  from assms(1) obtain n where "length stem = Suc n" by (cases stem) auto
  moreover have "stem @ CHR ''.'' # ext \<noteq> ''..''"
    using assms(1,2) by (cases stem; cases "tl stem") auto
  ultimately show ?thesis
    using rfind_char_append[OF assms(3), of stem] by (simp add: split_at_dot_def)
qed

lemma split_at_dot_SomeD:
  assumes "split_at_dot name = (stem, Some ext)"
  shows "name = stem @ CHR ''.'' # ext"
proof -
  from assms obtain i where i: "rfind_char (CHR ''.'') name = Some (Suc i)"
      "stem = take (Suc i) name" "ext = drop (Suc (Suc i)) name"
    by (auto simp: split_at_dot_def split: if_splits option.splits nat.splits)
  then have "Suc i < length name" "name ! Suc i = CHR ''.''"
    by (auto dest: rfind_char_SomeD)
  with i show ?thesis using id_take_nth_drop by metis
qed

section \<open>Hash maps as association lists\<close>

definition keys :: "('k \<times> 'v) list \<Rightarrow> 'k list" where
  "keys m = map fst m"

definition wf_map :: "('k \<times> 'v) list \<Rightarrow> bool" where
  "wf_map m = distinct (map fst m)"

definition values_of :: "('k \<times> 'v) list \<Rightarrow> 'v list" where
  "values_of m = map snd m"

lemma alist_update [alist_simps, simp]:
  "map_of (AList.update k v m) = (map_of m)(k \<mapsto> v)"
  by (rule update_conv')

lemma alist_delete [alist_simps, simp]:
  "map_of (AList.delete k m) = (map_of m)(k := None)"
  by (rule delete_conv')

lemma wf_map_empty [simp]: "wf_map []"
  by (simp add: wf_map_def)

lemma wf_map_update [simp]: "wf_map m \<Longrightarrow> wf_map (AList.update k v m)"
  by (simp add: wf_map_def distinct_update)

lemma wf_map_delete [simp]: "wf_map m \<Longrightarrow> wf_map (AList.delete k m)"
  by (simp add: wf_map_def distinct_delete)

lemma set_keys: "set (keys m) = dom (map_of m)"
  by (simp add: keys_def dom_map_of_conv_image_fst)

lemma wf_map_mem: "wf_map m \<Longrightarrow> (k, v) \<in> set m \<longleftrightarrow> map_of m k = Some v"
  by (simp add: wf_map_def)

section \<open>Counting in updated lists\<close>

definition count_where :: "('a \<Rightarrow> bool) \<Rightarrow> 'a list \<Rightarrow> nat" where
  "count_where P xs = length (filter P xs)"

lemma count_where_simps [simp]:
  "count_where P [] = 0" "count_where P (xs @ ys) = count_where P xs + count_where P ys"
  "count_where P (x # xs) = (if P x then 1 else 0) + count_where P xs"
  by (simp_all add: count_where_def)

lemma count_where_update:
  "i < length xs \<Longrightarrow>
     count_where P (xs[i := y]) + (if P (xs ! i) then 1 else 0) =
     count_where P xs + (if P y then 1 else 0)"
proof (induction xs arbitrary: i)
  case (Cons x xs)
  then show ?case by (cases i) auto
qed simp

lemma count_where_zero: "count_where P xs = 0 \<longleftrightarrow> (\<forall>x \<in> set xs. \<not> P x)"
  by (simp add: count_where_def filter_empty_conv)

lemma count_where_mono: "(\<And>x. x \<in> set xs \<Longrightarrow> P x \<Longrightarrow> Q x) \<Longrightarrow> count_where P xs \<le> count_where Q xs"
  by (induction xs) auto

lemma count_where_two:
  "i < j \<Longrightarrow> j < length xs \<Longrightarrow> P (xs ! i) \<Longrightarrow> P (xs ! j) \<Longrightarrow> 2 \<le> count_where P xs"
proof (induction xs arbitrary: i j)
  case (Cons x xs)
  from Cons.prems obtain j' where j: "j = Suc j'" by (cases j) auto
  show ?case
  proof (cases i)
    case 0
    have "xs ! j' \<in> set xs" using Cons.prems j by simp
    then have "count_where P xs \<noteq> 0" using Cons.prems j by (auto simp: count_where_zero)
    with 0 Cons.prems show ?thesis by simp
  next
    case (Suc i')
    with Cons.IH[of i' j'] Cons.prems j show ?thesis by simp
  qed
qed simp

end
