(* ===== verification/Errors.thy ===== *)
theory Errors
  imports Prelude
begin

text \<open>
  The error taxonomy (\<open>src/error.rs\<close>).  Each constructor of \<open>AgentdError\<close> carries a formatted
  message; the model carries the message as a value, one constructor per message template of the
  code with the interpolated values (ids and paths as text), so that every error return of the code
  stays distinguishable.  The text of operating-system, serde, SQLite and NATS errors that the code
  appends is left out.
\<close>

datatype id_reason =
    TooManyTokens nat
  | EmptyToken
  | BadFirstChar string
  | TokenTooLong string nat
  | CharNotAllowed string char

datatype envelope_reason =
    UnparseableJson
  | UnsupportedVersion u32
  | MissingEventId

text \<open>The failing file operation of a \<open>cannot ... {path}\<close> message.\<close>

datatype file_op =
    Read_Op
  | Read_Dir_Op
  | Dir_Entry_Op
  | Remove_Op
  | Create_Op
  | Write_Op
  | Fsync_Op
  | Rename_Op
  | Bind_Op
  | Chmod_Op
  | Read_Creds_Op

datatype config_reason =
    Cannot file_op path
  | HandlerNotAbsolute string path
  | ConcurrencyZero string
  | CwdNotAbsolute string path
  | InvalidAgentConfig path
  | FileNameMismatch path string string
  | AlreadyRegistered string
  | NotRegistered string
  | CannotSerialize string
  | InvalidConfig path
  | DedupTtlZero
  | MaxEventBytesZero
  | MaxEventBytesLimit
  | ProgressIntervalTooLong
  | InvalidLogLevel string
  | SubscriberFailed

datatype dedup_reason =
    CannotCreateDir path
  | CannotOpen path
  | CannotOpenInMemory
  | CannotSetPragma string
  | CannotCreateSchema
  | LookupFailed
  | InsertFailed
  | PurgeFailed
  | CountFailed

datatype relay_reason =
    CannotConnect string
  | CannotCreateStream string
  | StreamUnavailable string
  | CannotBindConsumer string

datatype agentd_error =
    InvalidAgentId id_reason
  | InvalidEnvelope envelope_reason
  | Config config_reason
  | DedupStore dedup_reason
  | Relay relay_reason

text \<open>\<open>Result<T>\<close>: \<open>Inl\<close> is \<open>Err\<close>, \<open>Inr\<close> is \<open>Ok\<close>.\<close>

type_synonym 'a result = "agentd_error + 'a"

definition is_ok :: "('e + 'a) \<Rightarrow> bool" where
  "is_ok r = (case r of Inl _ \<Rightarrow> False | Inr _ \<Rightarrow> True)"

lemma is_ok_simps [simp]: "is_ok (Inr x)" "\<not> is_ok (Inl e)"
  by (simp_all add: is_ok_def)

lemma is_ok_iff: "is_ok r \<longleftrightarrow> (\<exists>x. r = Inr x)"
  by (cases r) auto

end
