(* ===== verification/AgentIds.thy ===== *)
theory AgentIds
  imports Errors
begin

text \<open>
  Agent identity (\<open>src/agent_id.rs\<close>): the v0 grammar, its parser, the derived names, and the
  order of ids the registry sorts by.
\<close>

section \<open>Constants and the type\<close>

definition SUBJECT_PREFIX :: string where
  "SUBJECT_PREFIX = ''agent.events''"

definition MAX_TOKENS :: nat where
  "MAX_TOKENS = 16"

definition MAX_TOKEN_LEN :: nat where
  "MAX_TOKEN_LEN = 63"

datatype agent_id = AgentId (raw_id: string)

definition is_ascii_lowercase :: "char \<Rightarrow> bool" where
  "is_ascii_lowercase c = (CHR ''a'' \<le> c \<and> c \<le> CHR ''z'')"

definition is_ascii_digit :: "char \<Rightarrow> bool" where
  "is_ascii_digit c = (CHR ''0'' \<le> c \<and> c \<le> CHR ''9'')"

section \<open>The parser\<close>

text \<open>The loop over the remaining characters of a token.\<close>

fun check_chars :: "string \<Rightarrow> string \<Rightarrow> unit result" where
  "check_chars token [] = Inr ()"
| "check_chars token (c # chars) =
     (if \<not> (is_ascii_lowercase c \<or> is_ascii_digit c \<or> c = CHR ''-'')
      then Inl (InvalidAgentId (CharNotAllowed token c))
      else check_chars token chars)"

text \<open>
  The first character has passed the ASCII test when the length is taken, so its UTF-8 length is 1.
\<close>

definition validate_token :: "string \<Rightarrow> unit result" where
  "validate_token token =
     (case token of
        [] \<Rightarrow> Inl (InvalidAgentId EmptyToken)
      | first # chars \<Rightarrow>
          if \<not> (is_ascii_lowercase first \<or> is_ascii_digit first)
          then Inl (InvalidAgentId (BadFirstChar token))
          else if 1 + length chars > MAX_TOKEN_LEN
          then Inl (InvalidAgentId (TokenTooLong token (1 + length chars)))
          else check_chars token chars)"

fun validate_tokens :: "string list \<Rightarrow> unit result" where
  "validate_tokens [] = Inr ()"
| "validate_tokens (t # ts) =
     (case validate_token t of Inl e \<Rightarrow> Inl e | Inr _ \<Rightarrow> validate_tokens ts)"

definition parse_agent_id :: "string \<Rightarrow> agent_id result" where
  "parse_agent_id input =
     (let tokens = split_on (CHR ''_'') input
      in if length tokens > MAX_TOKENS
         then Inl (InvalidAgentId (TooManyTokens (length tokens)))
         else (case validate_tokens tokens of
             Inl e \<Rightarrow> Inl e
           | Inr _ \<Rightarrow> Inr (AgentId input)))"

definition as_str :: "agent_id \<Rightarrow> string" where
  "as_str a = raw_id a"

definition subject :: "agent_id \<Rightarrow> string" where
  "subject a = SUBJECT_PREFIX @ ''.'' @ raw_id a"

text \<open>
  \<open>AgentId\<close> has a private field: outside this module every id comes from \<open>parse\<close>.
\<close>

definition valid_id :: "agent_id \<Rightarrow> bool" where
  "valid_id a = (parse_agent_id (raw_id a) = Inr a)"

section \<open>The grammar\<close>

text \<open>
  \<open>agent_id := token ("_" token)*\<close> and \<open>token := [a-z0-9][a-z0-9-]{0,62}\<close> (ADR-0006), with at
  most 16 tokens.
\<close>

definition token_char :: "char \<Rightarrow> bool" where
  "token_char c = (is_ascii_lowercase c \<or> is_ascii_digit c \<or> c = CHR ''-'')"

definition is_token :: "string \<Rightarrow> bool" where
  "is_token t =
     (t \<noteq> [] \<and> (is_ascii_lowercase (hd t) \<or> is_ascii_digit (hd t)) \<and>
      (\<forall>c \<in> set (tl t). token_char c) \<and> length t \<le> 63)"

definition is_agent_id :: "string \<Rightarrow> bool" where
  "is_agent_id s =
     (\<exists>ts. ts \<noteq> [] \<and> length ts \<le> 16 \<and> list_all is_token ts \<and> s = join_with (CHR ''_'') ts)"

lemma check_chars_ok: "check_chars t cs = Inr () \<longleftrightarrow> (\<forall>c \<in> set cs. token_char c)"
  by (induction cs) (auto simp: token_char_def)

lemma validate_token_ok: "validate_token t = Inr () \<longleftrightarrow> is_token t"
  by (cases t) (auto simp: validate_token_def is_token_def check_chars_ok MAX_TOKEN_LEN_def)

lemma validate_tokens_ok: "validate_tokens ts = Inr () \<longleftrightarrow> list_all is_token ts"
proof (induction ts)
  case (Cons t ts)
  then show ?case
    using validate_token_ok[of t] by (cases "validate_token t") auto
qed simp

lemma parse_agent_id_ok:
  "parse_agent_id s = Inr a \<longleftrightarrow>
     a = AgentId s \<and> length (split_on (CHR ''_'') s) \<le> 16 \<and>
     list_all is_token (split_on (CHR ''_'') s)"
  using validate_tokens_ok[of "split_on (CHR ''_'') s"]
  by (auto simp: parse_agent_id_def Let_def MAX_TOKENS_def split: sum.splits)

lemma token_char_sep [simp]: "\<not> token_char (CHR ''_'')" "\<not> token_char (CHR ''.'')"
    "\<not> token_char (CHR ''/'')" "\<not> token_char (CHR ''*'')" "\<not> token_char (CHR ''>'')"
    "\<not> token_char (CHR '' '')"
  by (simp_all add: token_char_def is_ascii_lowercase_def is_ascii_digit_def less_eq_char_def)

lemma is_token_chars: "is_token t \<Longrightarrow> c \<in> set t \<Longrightarrow> token_char c"
  by (cases t) (auto simp: is_token_def token_char_def)

lemma is_token_no_sep: "is_token t \<Longrightarrow> CHR ''_'' \<notin> set t"
  using is_token_chars by fastforce

lemma split_agent_id:
  "ts \<noteq> [] \<Longrightarrow> list_all is_token ts \<Longrightarrow> split_on (CHR ''_'') (join_with (CHR ''_'') ts) = ts"
  by (rule split_join) (auto simp: list_all_iff is_token_no_sep)

lemma parse_iff_grammar: "parse_agent_id s = Inr (AgentId s) \<longleftrightarrow> is_agent_id s"
proof
  assume "parse_agent_id s = Inr (AgentId s)"
  then show "is_agent_id s"
    unfolding is_agent_id_def parse_agent_id_ok
    by (intro exI[of _ "split_on (CHR ''_'') s"]) (simp add: join_split)
next
  assume "is_agent_id s"
  then show "parse_agent_id s = Inr (AgentId s)"
    by (auto simp: is_agent_id_def parse_agent_id_ok split_agent_id)
qed

lemma valid_id_iff: "valid_id a \<longleftrightarrow> is_agent_id (raw_id a)"
  using parse_iff_grammar[of "raw_id a"] by (simp add: valid_id_def)

lemma parse_valid: "parse_agent_id s = Inr a \<Longrightarrow> valid_id a \<and> raw_id a = s"
  by (auto simp: valid_id_def parse_agent_id_ok)

section \<open>Derived names\<close>

lemma join_chars:
  "c \<in> set (join_with d ts) \<Longrightarrow> c = d \<or> (\<exists>t \<in> set ts. c \<in> set t)"
  by (induction d ts rule: join_with.induct) auto

text \<open>Every character of a valid id is one of \<open>[a-z0-9_-]\<close>, and an id is not empty.\<close>

lemma valid_id_chars:
  assumes "valid_id a" and "c \<in> set (raw_id a)"
  shows "token_char c \<or> c = CHR ''_''"
proof -
  from assms obtain ts where "list_all is_token ts" "raw_id a = join_with (CHR ''_'') ts"
    by (auto simp: valid_id_iff is_agent_id_def)
  with assms(2) show ?thesis
    using join_chars[of c "CHR ''_''" ts] by (auto simp: list_all_iff dest: is_token_chars)
qed

lemma valid_id_not_in:
  assumes "valid_id a"
  shows "CHR ''.'' \<notin> set (raw_id a)" "CHR ''/'' \<notin> set (raw_id a)" "CHR ''*'' \<notin> set (raw_id a)"
    "CHR ''>'' \<notin> set (raw_id a)" "CHR '' '' \<notin> set (raw_id a)"
  using valid_id_chars[OF assms] by fastforce+

lemma valid_id_ne:
  assumes "valid_id a" shows "raw_id a \<noteq> []"
proof -
  from assms obtain ts where "ts \<noteq> []" "list_all is_token ts" "raw_id a = join_with (CHR ''_'') ts"
    by (auto simp: valid_id_iff is_agent_id_def)
  then show ?thesis
    by (cases ts; cases "tl ts") (auto simp: is_token_def join_with_Cons)
qed

lemma subject_tokens:
  "valid_id a \<Longrightarrow> split_on (CHR ''.'') (subject a) = [''agent'', ''events'', raw_id a]"
  by (simp add: subject_def SUBJECT_PREFIX_def split_on_no_sep valid_id_not_in(1))

lemma as_str_inject [simp]: "as_str a = as_str b \<longleftrightarrow> a = b"
  by (auto simp: as_str_def agent_id.expand)

section \<open>Order\<close>

text \<open>The derived \<open>Ord\<close> compares the raw text, byte by byte.\<close>

instantiation agent_id :: linorder
begin

definition less_eq_agent_id :: "agent_id \<Rightarrow> agent_id \<Rightarrow> bool" where
  "less_eq_agent_id a b = (raw_id a \<le> raw_id b)"

definition less_agent_id :: "agent_id \<Rightarrow> agent_id \<Rightarrow> bool" where
  "less_agent_id a b = (raw_id a < raw_id b)"

instance
  by standard (auto simp: less_eq_agent_id_def less_agent_id_def agent_id.expand)

end

section \<open>Properties\<close>

text \<open>
  C28. \<open>parse\<close> accepts exactly the texts of the grammar, keeps them as they are, and the subject of an accepted
  id has exactly three NATS tokens, the last of which is the id.
\<close>

theorem parse_accepts_grammar:
  "(parse_agent_id s = Inr a) = (is_agent_id s \<and> a = AgentId s \<and>
     split_on (CHR ''.'') (subject a) = [''agent'', ''events'', s])"
  using parse_iff_grammar[of s] parse_valid[of s a] subject_tokens[of a] agent_id.expand[of a "AgentId s"]
  by auto

text \<open>
  On every branch: what the first failing test of a token is, for the token that stops the parse.
\<close>

lemma token_errors:
  "validate_token t =
     (if t = [] then Inl (InvalidAgentId EmptyToken)
      else if \<not> (is_ascii_lowercase (hd t) \<or> is_ascii_digit (hd t)) then Inl (InvalidAgentId (BadFirstChar t))
      else if 63 < length t then Inl (InvalidAgentId (TokenTooLong t (length t)))
      else case find (\<lambda>c. \<not> token_char c) (tl t) of
             Some c \<Rightarrow> Inl (InvalidAgentId (CharNotAllowed t c))
           | None \<Rightarrow> Inr ())"
proof -
  have "check_chars t cs = (case find (\<lambda>c. \<not> token_char c) cs of
      Some c \<Rightarrow> Inl (InvalidAgentId (CharNotAllowed t c)) | None \<Rightarrow> Inr ())" for cs
    by (induction cs) (auto simp: token_char_def)
  then show ?thesis by (cases t) (auto simp: validate_token_def MAX_TOKEN_LEN_def)
qed

end
