(* ===== verification/Serde.thy ===== *)
theory Serde
  imports AgentIds
begin

text \<open>
  Documents and the derived serde implementations.  The parsers and printers of JSON and TOML text
  (\<open>serde_json\<close>, \<open>toml\<close>) are parameters of the development; what they produce and consume is the
  tree \<open>sval\<close> below, whose objects keep the order and the duplicates of the text.  The functions of
  this theory are what \<open>#[derive(Deserialize)]\<close> does with a tree for a struct with named fields:
  an object gives the fields by name (a repeated field is an error, an unknown one is skipped, or
  an error under \<open>deny_unknown_fields\<close>), an array gives them by position.
\<close>

datatype sval =
    VNull
  | VBool bool
  | VInt int
  | VFloat string
  | VStr string
  | VArr "sval list"
  | VObj "(string \<times> sval) list"

section \<open>Scalars\<close>

fun as_string :: "sval \<Rightarrow> string option" where
  "as_string (VStr s) = Some s"
| "as_string _ = None"

fun as_bool :: "sval \<Rightarrow> bool option" where
  "as_bool (VBool b) = Some b"
| "as_bool _ = None"

fun as_u32 :: "sval \<Rightarrow> u32 option" where
  "as_u32 (VInt n) = (if 0 \<le> n \<and> n < 2 ^ 32 then Some (word_of_int n) else None)"
| "as_u32 _ = None"

fun as_u64 :: "sval \<Rightarrow> u64 option" where
  "as_u64 (VInt n) = (if 0 \<le> n \<and> n < 2 ^ 64 then Some (word_of_int n) else None)"
| "as_u64 _ = None"

definition as_value :: "sval \<Rightarrow> sval option" where
  "as_value v = Some v"

text \<open>\<open>Option<T>\<close>: null is \<open>None\<close>.\<close>

definition as_option :: "(sval \<Rightarrow> 'a option) \<Rightarrow> sval \<Rightarrow> 'a option option" where
  "as_option dec v = (if v = VNull then Some None else map_option Some (dec v))"

fun map_opt :: "('a \<Rightarrow> 'b option) \<Rightarrow> 'a list \<Rightarrow> 'b list option" where
  "map_opt f [] = Some []"
| "map_opt f (x # xs) =
     (case f x of None \<Rightarrow> None | Some y \<Rightarrow> map_option ((#) y) (map_opt f xs))"

fun as_vec :: "(sval \<Rightarrow> 'a option) \<Rightarrow> sval \<Rightarrow> 'a list option" where
  "as_vec dec (VArr vs) = map_opt dec vs"
| "as_vec dec _ = None"

text \<open>\<open>impl Deserialize for AgentId\<close> (\<open>agent_id.rs\<close>): a string that parses; and \<open>Serialize\<close>.\<close>

definition deserialize_agent_id :: "sval \<Rightarrow> agent_id option" where
  "deserialize_agent_id v =
     (case as_string v of
        None \<Rightarrow> None
      | Some s \<Rightarrow> (case parse_agent_id s of Inl _ \<Rightarrow> None | Inr a \<Rightarrow> Some a))"

definition serialize_agent_id :: "agent_id \<Rightarrow> sval" where
  "serialize_agent_id a = VStr (as_str a)"

lemma agent_id_serde: "valid_id a \<Longrightarrow> deserialize_agent_id (serialize_agent_id a) = Some a"
  by (simp add: deserialize_agent_id_def serialize_agent_id_def as_str_def valid_id_def)

lemma deserialize_agent_id_valid: "deserialize_agent_id v = Some a \<Longrightarrow> valid_id a \<and> v = VStr (raw_id a)"
  by (cases v) (auto simp: deserialize_agent_id_def dest: parse_valid split: sum.splits)

section \<open>Structs\<close>

fun collect_fields ::
    "bool \<Rightarrow> string list \<Rightarrow> (string \<times> sval) list \<Rightarrow> (string \<times> sval) list \<Rightarrow> (string \<times> sval) list option" where
  "collect_fields deny names [] acc = Some acc"
| "collect_fields deny names ((k, v) # kvs) acc =
     (if k \<in> set names
      then (if map_of acc k = None then collect_fields deny names kvs ((k, v) # acc) else None)
      else if deny then None
      else collect_fields deny names kvs acc)"

fun struct_fields :: "bool \<Rightarrow> string list \<Rightarrow> sval \<Rightarrow> (string \<Rightarrow> sval option) option" where
  "struct_fields deny names (VObj kvs) = map_option map_of (collect_fields deny names kvs [])"
| "struct_fields deny names (VArr vs) =
     (if length vs \<le> length names then Some (map_of (zip names vs)) else None)"
| "struct_fields deny names _ = None"

text \<open>A required field, and one with \<open>#[serde(default)]\<close>.\<close>

definition req :: "(string \<Rightarrow> sval option) \<Rightarrow> string \<Rightarrow> (sval \<Rightarrow> 'a option) \<Rightarrow> 'a option" where
  "req fs name dec = (case fs name of None \<Rightarrow> None | Some v \<Rightarrow> dec v)"

definition dflt :: "(string \<Rightarrow> sval option) \<Rightarrow> string \<Rightarrow> (sval \<Rightarrow> 'a option) \<Rightarrow> 'a \<Rightarrow> 'a option" where
  "dflt fs name dec d = (case fs name of None \<Rightarrow> Some d | Some v \<Rightarrow> dec v)"

lemma req_Some: "req fs name dec = Some x \<longleftrightarrow> (\<exists>v. fs name = Some v \<and> dec v = Some x)"
  by (auto simp: req_def split: option.splits)

lemma as_option_None [simp]: "as_option dec VNull = Some None"
  by (simp add: as_option_def)

lemma collect_fields_skip:
  assumes "k \<notin> set names"
  shows "collect_fields False names (xs @ (k, v) # ys) acc = collect_fields False names (xs @ ys) acc"
  using assms by (induction xs arbitrary: acc) auto

lemma collect_fields_filter:
  "collect_fields False names kvs acc = collect_fields False names (filter (\<lambda>(k, v). k \<in> set names) kvs) acc"
  by (induction kvs arbitrary: acc) auto

lemma struct_fields_skip:
  "k \<notin> set names \<Longrightarrow>
     struct_fields False names (VObj (xs @ (k, v) # ys)) = struct_fields False names (VObj (xs @ ys))"
  by (simp add: collect_fields_skip)

lemma collect_fields_deny:
  "k \<notin> set names \<Longrightarrow> collect_fields True names (xs @ (k, v) # ys) acc = None"
  by (induction xs arbitrary: acc) auto

section \<open>Internally tagged enums\<close>

text \<open>
  \<open>#[serde(tag = "op")]\<close>: the tag is taken out of the object (an error when it is missing or
  repeated), or is the first element of an array; the rest is the variant's content.  A unit
  variant takes any object, or the empty array.
\<close>

fun take_tag ::
    "string \<Rightarrow> (string \<times> sval) list \<Rightarrow> string option \<Rightarrow> (string \<times> sval) list \<Rightarrow> (string \<times> sval) option" where
  "take_tag tag [] None rest = None"
| "take_tag tag [] (Some t) rest = Some (t, VObj (rev rest))"
| "take_tag tag ((k, v) # kvs) t rest =
     (if k = tag
      then (if t \<noteq> None then None
            else (case as_string v of None \<Rightarrow> None | Some s \<Rightarrow> take_tag tag kvs (Some s) rest))
      else take_tag tag kvs t ((k, v) # rest))"

fun tagged :: "string \<Rightarrow> sval \<Rightarrow> (string \<times> sval) option" where
  "tagged tag (VObj kvs) = take_tag tag kvs None []"
| "tagged tag (VArr (v # vs)) = map_option (\<lambda>s. (s, VArr vs)) (as_string v)"
| "tagged tag _ = None"

fun unit_variant :: "sval \<Rightarrow> bool" where
  "unit_variant (VObj _) = True"
| "unit_variant (VArr vs) = (vs = [])"
| "unit_variant _ = False"

section \<open>Serialization helpers\<close>

definition of_u32 :: "u32 \<Rightarrow> sval" where
  "of_u32 n = VInt (uint n)"

definition of_u64 :: "u64 \<Rightarrow> sval" where
  "of_u64 n = VInt (uint n)"

definition of_option :: "('a \<Rightarrow> sval) \<Rightarrow> 'a option \<Rightarrow> sval" where
  "of_option enc v = (case v of None \<Rightarrow> VNull | Some x \<Rightarrow> enc x)"

text \<open>TOML has no null: the \<open>toml\<close> crate omits a field that is \<open>None\<close>.\<close>

fun omit_none :: "sval \<Rightarrow> sval" where
  "omit_none (VObj kvs) = VObj (filter (\<lambda>(k, v). v \<noteq> VNull) kvs)"
| "omit_none v = v"

lemma as_of_u32 [simp]: "as_u32 (of_u32 n) = Some n"
  by (simp add: of_u32_def) (use uint_lt2p[of n] in simp)

lemma as_of_u64 [simp]: "as_u64 (of_u64 n) = Some n"
  by (simp add: of_u64_def) (use uint_lt2p[of n] in simp)

lemma of_u32_ne [simp]: "of_u32 n \<noteq> VNull" "VNull \<noteq> of_u32 n"
  by (simp_all add: of_u32_def)

lemma of_u64_ne [simp]: "of_u64 n \<noteq> VNull" "VNull \<noteq> of_u64 n"
  by (simp_all add: of_u64_def)

lemma as_of_option:
  "(\<And>x. v = Some x \<Longrightarrow> dec (enc x) = Some x \<and> enc x \<noteq> VNull) \<Longrightarrow> as_option dec (of_option enc v) = Some v"
  by (cases v) (auto simp: as_option_def of_option_def)

lemma map_opt_map:
  "(\<And>x. x \<in> set xs \<Longrightarrow> dec (enc x) = Some x) \<Longrightarrow> map_opt dec (map enc xs) = Some xs"
  by (induction xs) auto

end
