(* ===== verification/AgentConfigs.thy ===== *)
theory AgentConfigs
  imports Serde
begin

unbundle bit_operations_syntax

text \<open>
  Agent registrations and their changes (\<open>src/registry.rs\<close>, the types): the per-agent record with
  its serde form, structural validation, liveness warnings, and the \<open>Change\<close> values a reload is
  expressed in.
\<close>

definition DEFAULT_CONCURRENCY :: u32 where
  "DEFAULT_CONCURRENCY = 1"

record agent_config =
  agent_id :: agent_id
  handler :: path
  max_concurrency :: u32
  working_directory :: "path option"
  enabled :: bool

section \<open>Serde\<close>

definition agent_config_fields :: "string list" where
  "agent_config_fields =
     [''agent_id'', ''handler'', ''max_concurrency'', ''working_directory'', ''enabled'']"

text \<open>\<open>#[serde(deny_unknown_fields)]\<close>, with defaults for the last three fields.\<close>

definition deserialize_agent_config :: "sval \<Rightarrow> agent_config option" where
  "deserialize_agent_config v =
     (case struct_fields True agent_config_fields v of
        None \<Rightarrow> None
      | Some fs \<Rightarrow>
          (case (req fs ''agent_id'' deserialize_agent_id,
                 req fs ''handler'' as_string,
                 dflt fs ''max_concurrency'' as_u32 DEFAULT_CONCURRENCY,
                 dflt fs ''working_directory'' (as_option as_string) None,
                 dflt fs ''enabled'' as_bool True) of
             (Some a, Some h, Some mc, Some wd, Some en) \<Rightarrow>
               Some \<lparr>agent_id = a, handler = h, max_concurrency = mc, working_directory = wd,
                     enabled = en\<rparr>
           | _ \<Rightarrow> None))"

definition serialize_agent_config :: "agent_config \<Rightarrow> sval" where
  "serialize_agent_config c =
     VObj [(''agent_id'', serialize_agent_id (agent_id c)),
           (''handler'', VStr (handler c)),
           (''max_concurrency'', of_u32 (max_concurrency c)),
           (''working_directory'', of_option VStr (working_directory c)),
           (''enabled'', VBool (enabled c))]"

section \<open>Validation\<close>

definition agent_config_validate :: "agent_config \<Rightarrow> unit result" where
  "agent_config_validate c =
     (if \<not> is_absolute (handler c)
      then Inl (Config (HandlerNotAbsolute (as_str (agent_id c)) (handler c)))
      else if max_concurrency c = 0
      then Inl (Config (ConcurrencyZero (as_str (agent_id c))))
      else (case working_directory c of
              Some cwd \<Rightarrow>
                if \<not> is_absolute cwd
                then Inl (Config (CwdNotAbsolute (as_str (agent_id c)) cwd))
                else Inr ()
            | None \<Rightarrow> Inr ()))"

text \<open>
  Liveness: \<open>mode_of p\<close> is the permission bits of \<open>p\<close>, or \<open>None\<close> where its metadata cannot be read;
  \<open>73\<close> is octal 111, the execute bits.
\<close>

datatype liveness_warning = Handler_Missing path | Handler_Not_Executable path

definition is_executable :: "(path \<Rightarrow> u32 option) \<Rightarrow> path \<Rightarrow> bool" where
  "is_executable mode_of p = (case mode_of p of Some mode \<Rightarrow> mode AND 73 \<noteq> 0 | None \<Rightarrow> False)"

definition liveness_warnings :: "(path \<Rightarrow> u32 option) \<Rightarrow> agent_config \<Rightarrow> liveness_warning list" where
  "liveness_warnings mode_of c =
     (if mode_of (handler c) = None then [Handler_Missing (handler c)]
      else if \<not> is_executable mode_of (handler c) then [Handler_Not_Executable (handler c)]
      else [])"

section \<open>Changes\<close>

datatype change =
    Added agent_config
  | Updated agent_config
  | Enabled agent_config
  | Disabled agent_config
  | Removed agent_id

fun change_agent_id :: "change \<Rightarrow> agent_id" where
  "change_agent_id (Added c) = agent_id c"
| "change_agent_id (Updated c) = agent_id c"
| "change_agent_id (Enabled c) = agent_id c"
| "change_agent_id (Disabled c) = agent_id c"
| "change_agent_id (Removed a) = a"

section \<open>Lemmas\<close>

definition valid_config :: "agent_config \<Rightarrow> bool" where
  "valid_config c = (valid_id (agent_id c) \<and> agent_config_validate c = Inr ())"

lemma agent_config_validate_ok:
  "agent_config_validate c = Inr () \<longleftrightarrow>
     is_absolute (handler c) \<and> max_concurrency c \<noteq> 0 \<and>
     (\<forall>cwd. working_directory c = Some cwd \<longrightarrow> is_absolute cwd)"
  by (auto simp: agent_config_validate_def split: option.splits)

text \<open>Both serialized forms, with and without nulls, read back as the record.\<close>

lemma agent_config_json:
  "valid_id (agent_id c) \<Longrightarrow> deserialize_agent_config (serialize_agent_config c) = Some c"
  by (simp add: deserialize_agent_config_def serialize_agent_config_def agent_config_fields_def
      req_def dflt_def agent_id_serde as_of_option)

lemma serialize_agent_id_ne [simp]: "serialize_agent_id a \<noteq> VNull"
  by (simp add: serialize_agent_id_def)

lemma agent_config_toml:
  "valid_id (agent_id c) \<Longrightarrow> deserialize_agent_config (omit_none (serialize_agent_config c)) = Some c"
  by (cases "working_directory c")
    (simp_all add: deserialize_agent_config_def serialize_agent_config_def agent_config_fields_def
      req_def dflt_def agent_id_serde of_option_def as_option_def)

lemma deserialize_agent_config_id: "deserialize_agent_config v = Some c \<Longrightarrow> valid_id (agent_id c)"
  by (auto simp: deserialize_agent_config_def req_Some dest: deserialize_agent_id_valid
      split: option.splits)

lemma deserialize_agent_config_unknown:
  "k \<notin> set agent_config_fields \<Longrightarrow> deserialize_agent_config (VObj (xs @ (k, v) # ys)) = None"
  by (simp add: deserialize_agent_config_def collect_fields_deny)

section \<open>A sample\<close>

text \<open>One registration, for the concrete instances of the theorems.\<close>

definition demo_id :: agent_id where
  "demo_id = AgentId ''a''"

definition demo_config :: agent_config where
  "demo_config = \<lparr>agent_id = demo_id, handler = ''/h'', max_concurrency = 1, working_directory = None,
                  enabled = True\<rparr>"

lemma demo_valid: "valid_config demo_config" "valid_id demo_id" "agent_id demo_config = demo_id"
  by code_simp+

end
