(* ===== verification/Disk.thy ===== *)
theory Disk
  imports AgentConfigs
begin

text \<open>
  The directory \<open>agents.d\<close> and the persistence of one registration (\<open>src/registry.rs\<close>): a directory
  is its listing, in the order \<open>read_dir\<close> enumerates it.  What the operating system answers to each
  call is the record \<open>io_env\<close>, so every failing call is a branch.  The code returns at the first
  failing call without cleaning up, so the directory after a failed \<open>persist\<close> is also what a crash
  at that call leaves behind.  Permissions, links and concurrent writers of the directory are not
  modelled.
\<close>

datatype dentry = Readable string | Unreadable

record disk =
  dir_exists :: bool
  files :: "(string \<times> dentry) list"

record io_env =
  io_pid :: nat
  io_mkdir :: bool
  io_create :: bool
  io_write :: "string option"   \<comment> \<open>\<open>None\<close>: written; \<open>Some t\<close>: failed after \<open>t\<close> was written\<close>
  io_sync :: bool
  io_rename :: bool
  io_remove :: bool
  io_readdir :: bool
  io_entry :: "string \<Rightarrow> bool"
  io_sweep :: "string \<Rightarrow> bool"

definition io_good :: io_env where
  "io_good = \<lparr>io_pid = 1, io_mkdir = True, io_create = True, io_write = None, io_sync = True,
              io_rename = True, io_remove = True, io_readdir = True, io_entry = (\<lambda>_. True),
              io_sweep = (\<lambda>_. True)\<rparr>"

text \<open>The \<open>toml\<close> crate: text to document and back.\<close>

record toml_codec =
  toml_parse :: "string \<Rightarrow> sval option"
  toml_print :: "sval \<Rightarrow> string option"

text \<open>
  Documented behaviour of the crate that persistence relies on: printing a registration and parsing
  the text gives the same table, without the fields that are \<open>None\<close>.
\<close>

definition toml_roundtrip :: "toml_codec \<Rightarrow> bool" where
  "toml_roundtrip tc =
     (\<forall>c t. toml_print tc (serialize_agent_config c) = Some t \<longrightarrow>
            toml_parse tc t = Some (omit_none (serialize_agent_config c)))"

section \<open>File names\<close>

definition file_name :: "agent_id \<Rightarrow> string" where
  "file_name a = as_str a @ ''.toml''"

definition tmp_name :: "agent_id \<Rightarrow> nat \<Rightarrow> string" where
  "tmp_name a pid = ''.'' @ as_str a @ ''.'' @ show_nat pid @ ''.tmp''"

definition starts_with_dot :: "string \<Rightarrow> bool" where
  "starts_with_dot name = (take 1 name = ''.'')"

definition ends_with :: "string \<Rightarrow> string \<Rightarrow> bool" where
  "ends_with name suf = suffix suf name"

definition is_tmp :: "string \<Rightarrow> bool" where
  "is_tmp name = (starts_with_dot name \<and> ends_with name ''.tmp'')"

section \<open>Reading and writing one registration\<close>

definition read_agent_file :: "toml_codec \<Rightarrow> path \<Rightarrow> dentry \<Rightarrow> agent_config result" where
  "read_agent_file tc p ent =
     (case ent of
        Unreadable \<Rightarrow> Inl (Config (Cannot Read_Op p))
      | Readable text \<Rightarrow>
          (case (case toml_parse tc text of None \<Rightarrow> None | Some v \<Rightarrow> deserialize_agent_config v) of
             None \<Rightarrow> Inl (Config (InvalidAgentConfig p))
           | Some c \<Rightarrow> (case agent_config_validate c of Inl e \<Rightarrow> Inl e | Inr _ \<Rightarrow> Inr c)))"

definition file_path :: "path \<Rightarrow> agent_id \<Rightarrow> path" where
  "file_path dir a = path_join dir (file_name a)"

definition persist ::
    "toml_codec \<Rightarrow> io_env \<Rightarrow> path \<Rightarrow> agent_config \<Rightarrow> disk \<Rightarrow> unit result \<times> disk" where
  "persist tc io dir c d =
     (if \<not> dir_exists d \<and> \<not> io_mkdir io then (Inl (Config (Cannot Create_Op dir)), d)
      else
        let d1 = d\<lparr>dir_exists := True\<rparr> in
        case toml_print tc (serialize_agent_config c) of
          None \<Rightarrow> (Inl (Config (CannotSerialize (as_str (agent_id c)))), d1)
        | Some content \<Rightarrow>
            let final = file_name (agent_id c);
                tmp = tmp_name (agent_id c) (io_pid io);
                tmp_path = path_join dir tmp
            in if \<not> io_create io then (Inl (Config (Cannot Create_Op tmp_path)), d1)
               else case io_write io of
                 Some partial \<Rightarrow>
                   (Inl (Config (Cannot Write_Op tmp_path)),
                    d1\<lparr>files := AList.update tmp (Readable partial) (files d1)\<rparr>)
               | None \<Rightarrow>
                   let d2 = d1\<lparr>files := AList.update tmp (Readable content) (files d1)\<rparr> in
                   if \<not> io_sync io then (Inl (Config (Cannot Fsync_Op tmp_path)), d2)
                   else if \<not> io_rename io
                   then (Inl (Config (Cannot Rename_Op tmp_path)), d2)
                   else (Inr (), d2\<lparr>files := AList.update final (Readable content)
                                              (AList.delete tmp (files d2))\<rparr>))"

section \<open>Facts about the names\<close>

lemma file_name_split: "as_str a \<noteq> [] \<Longrightarrow> split_at_dot (file_name a) = (as_str a, Some ''toml'')"
  using split_at_dot_append[of "as_str a" "''toml''"] by (simp add: file_name_def)

lemma file_name_stem:
  assumes "valid_id a"
  shows "file_stem (file_name a) = as_str a" "extension (file_name a) = Some ''toml''"
  using file_name_split[of a] valid_id_ne[OF assms]
  by (simp_all add: file_stem_def extension_def as_str_def)

lemma file_name_of_stem:
  assumes "extension name = Some ''toml''" "file_stem name = as_str a"
  shows "name = file_name a"
  using assms split_at_dot_SomeD[of name "file_stem name" "''toml''"]
  by (auto simp: file_stem_def extension_def file_name_def prod_eq_iff)

lemma file_name_inject [simp]: "file_name a = file_name b \<longleftrightarrow> a = b"
  by (auto simp: file_name_def as_str_def agent_id.expand)

lemma file_name_not_tmp:
  assumes "valid_id a" shows "\<not> is_tmp (file_name a)"
proof -
  obtain c cs where "raw_id a = c # cs" using valid_id_ne[OF assms] by (cases "raw_id a") auto
  moreover have "c \<noteq> CHR ''.''" using valid_id_not_in(1)[OF assms] calculation by auto
  ultimately show ?thesis by (simp add: is_tmp_def starts_with_dot_def file_name_def as_str_def)
qed

lemma tmp_name_is_tmp: "is_tmp (tmp_name a pid)"
  by (auto simp: is_tmp_def starts_with_dot_def ends_with_def tmp_name_def suffix_def)

lemma file_name_ne_tmp: "valid_id a \<Longrightarrow> file_name a \<noteq> tmp_name b pid"
  using file_name_not_tmp tmp_name_is_tmp by metis

section \<open>Atomicity of persist\<close>

text \<open>What a reader that ignores temporary files sees of a directory.\<close>

definition visible :: "disk \<Rightarrow> string \<Rightarrow> dentry option" where
  "visible d name = (if is_tmp name then None else map_of (files d) name)"

lemma persist_fail_visible:
  "persist tc io dir c d = (Inl e, d') \<Longrightarrow> visible d' = visible d"
  by (auto simp: persist_def Let_def visible_def tmp_name_is_tmp fun_eq_iff
      split: if_splits option.splits)

lemma persist_ok_visible:
  assumes "persist tc io dir c d = (Inr u, d')" and "valid_id (agent_id c)"
  shows "\<exists>t. toml_print tc (serialize_agent_config c) = Some t \<and>
     visible d' = (visible d)(file_name (agent_id c) \<mapsto> Readable t) \<and> dir_exists d'"
  using assms
  by (auto simp: persist_def Let_def visible_def tmp_name_is_tmp fun_eq_iff file_name_not_tmp
      split: if_splits option.splits)

lemma persist_wf:
  "wf_map (files d) \<Longrightarrow> persist tc io dir c d = (r, d') \<Longrightarrow> wf_map (files d')"
  by (auto simp: persist_def Let_def split: if_splits option.splits)

lemma persist_dir: "persist tc io dir c d = (r, d') \<Longrightarrow> dir_exists d \<Longrightarrow> dir_exists d'"
  by (auto simp: persist_def Let_def split: if_splits option.splits)

lemma read_agent_file_written:
  assumes "toml_roundtrip tc" and "valid_config c"
    and "toml_print tc (serialize_agent_config c) = Some t"
  shows "read_agent_file tc p (Readable t) = Inr c"
  using assms
  by (simp add: read_agent_file_def toml_roundtrip_def agent_config_toml valid_config_def)

lemma read_agent_file_valid: "read_agent_file tc p ent = Inr c \<Longrightarrow> valid_config c"
  by (auto simp: read_agent_file_def valid_config_def dest: deserialize_agent_config_id
      split: dentry.splits option.splits sum.splits)

section \<open>A sample\<close>

text \<open>A codec that knows the text of one registration.\<close>

definition demo_codec :: toml_codec where
  "demo_codec =
     \<lparr>toml_parse = (\<lambda>t. if t = ''t'' then Some (omit_none (serialize_agent_config demo_config)) else None),
      toml_print = (\<lambda>v. if v = serialize_agent_config demo_config then Some ''t'' else None)\<rparr>"

lemma demo_codec_roundtrip: "toml_roundtrip demo_codec"
  by (auto simp: toml_roundtrip_def demo_codec_def)

definition demo_disk :: "(string \<times> dentry) list \<Rightarrow> disk" where
  "demo_disk fs = \<lparr>dir_exists = True, files = fs\<rparr>"

section \<open>Properties\<close>

text \<open>
  C25. \<open>persist\<close> is atomic for a reader that ignores temporary files: when it fails, at any of its calls, the
  reader sees what it saw before; when it succeeds, the reader sees the one file replaced by a text that
  reads back as the registration.
\<close>

theorem persist_atomic:
  assumes "toml_roundtrip tc" and "valid_config c" and "persist tc io dir c d = (res, d')"
  shows "if res = Inr ()
     then \<exists>t. visible d' = (visible d)(file_name (agent_id c) \<mapsto> Readable t) \<and>
       read_agent_file tc (file_path dir (agent_id c)) (Readable t) = Inr c
     else visible d' = visible d"
proof (cases "res = Inr ()")
  case True
  have "valid_id (agent_id c)" using assms(2) by (simp add: valid_config_def)
  from persist_ok_visible[OF assms(3)[unfolded True] this] obtain t where
    "toml_print tc (serialize_agent_config c) = Some t"
    "visible d' = (visible d)(file_name (agent_id c) \<mapsto> Readable t)" by blast
  with read_agent_file_written[OF assms(1,2)] True show ?thesis by auto
next
  case False
  then obtain x where "res = Inl x" by (cases res) auto
  with assms(3) persist_fail_visible show ?thesis by auto
qed

theorem persist_atomic_witness:
  "\<exists>d'. persist demo_codec io_good ''/d'' demo_config (demo_disk []) = (Inr (), d') \<and>
     visible (snd (persist demo_codec (io_good\<lparr>io_rename := False\<rparr>) ''/d'' demo_config (demo_disk []))) =
       visible (demo_disk []) \<and>
     (\<exists>t. visible d' = (visible (demo_disk []))(''a.toml'' \<mapsto> Readable t) \<and>
        read_agent_file demo_codec ''/d/a.toml'' (Readable t) = Inr demo_config)"
proof -
  let ?p = "persist demo_codec io_good ''/d'' demo_config (demo_disk [])"
  let ?f = "persist demo_codec (io_good\<lparr>io_rename := False\<rparr>) ''/d'' demo_config (demo_disk [])"
  have "fst ?p = Inr ()" by code_simp
  then have p: "?p = (Inr (), snd ?p)" by (metis prod.collapse)
  have f: "fst ?f \<noteq> Inr ()" by code_simp
  have n: "file_name (agent_id demo_config) = ''a.toml''" "file_path ''/d'' (agent_id demo_config) = ''/d/a.toml''"
    by code_simp+
  have "\<exists>t. visible (snd ?p) = (visible (demo_disk []))(''a.toml'' \<mapsto> Readable t) \<and>
        read_agent_file demo_codec ''/d/a.toml'' (Readable t) = Inr demo_config"
    using persist_atomic[OF demo_codec_roundtrip demo_valid(1) p] by (simp only: n simp_thms if_True)
  moreover have "visible (snd ?f) = visible (demo_disk [])"
    using persist_atomic[OF demo_codec_roundtrip demo_valid(1), of "io_good\<lparr>io_rename := False\<rparr>" "''/d''"
        "demo_disk []" "fst ?f" "snd ?f"] f by simp
  ultimately show ?thesis using p by blast
qed

end
