(* ===== verification/Registry.thy ===== *)
theory Registry
  imports Disk "HOL-Library.Multiset"
begin

text \<open>
  The registry (\<open>src/registry.rs\<close>): the in-memory map of registrations, the operations that persist
  before they mutate, loading, and the reload diff.  Mutations are serialized by the registry's
  mutex and each operation takes it for its whole body, so an operation is one function on the
  state; \<open>reg_disk\<close> is the directory as the process sees it.
\<close>

record registry =
  reg_dir :: path
  reg_agents :: "(agent_id \<times> agent_config) list"
  reg_disk :: disk

section \<open>Loading\<close>

fun load_entries ::
    "toml_codec \<Rightarrow> io_env \<Rightarrow> path \<Rightarrow> (string \<times> dentry) list \<Rightarrow> (string \<times> dentry) list \<Rightarrow>
     (agent_id \<times> agent_config) list \<Rightarrow>
     (agent_id \<times> agent_config) list result \<times> (string \<times> dentry) list" where
  "load_entries tc io dir [] fs m = (Inr m, fs)"
| "load_entries tc io dir ((name, ent) # es) fs m =
     (if \<not> io_entry io name then (Inl (Config (Cannot Dir_Entry_Op [])), fs)
      else if is_tmp name
      then load_entries tc io dir es (if io_sweep io name then AList.delete name fs else fs) m
      else if extension name \<noteq> Some ''toml'' then load_entries tc io dir es fs m
      else case read_agent_file tc (path_join dir name) ent of
             Inl e \<Rightarrow> (Inl e, fs)
           | Inr c \<Rightarrow>
               if file_stem name \<noteq> as_str (agent_id c)
               then (Inl (Config (FileNameMismatch (path_join dir name) (as_str (agent_id c))
                                    (file_stem name))), fs)
               else (case agent_config_validate c of
                       Inl e \<Rightarrow> (Inl e, fs)
                     | Inr _ \<Rightarrow> load_entries tc io dir es fs (AList.update (agent_id c) c m)))"

definition load ::
    "toml_codec \<Rightarrow> io_env \<Rightarrow> path \<Rightarrow> disk \<Rightarrow> (agent_id \<times> agent_config) list result \<times> disk" where
  "load tc io dir d =
     (if \<not> dir_exists d then (Inr [], d)
      else if \<not> io_readdir io then (Inl (Config (Cannot Read_Dir_Op dir)), d)
      else (case load_entries tc io dir (files d) (files d) [] of
              (r, fs) \<Rightarrow> (r, d\<lparr>files := fs\<rparr>)))"

definition registry_load :: "toml_codec \<Rightarrow> io_env \<Rightarrow> path \<Rightarrow> disk \<Rightarrow> registry result \<times> disk" where
  "registry_load tc io dir d =
     (case load tc io dir d of
        (Inl e, d') \<Rightarrow> (Inl e, d')
      | (Inr m, d') \<Rightarrow> (Inr \<lparr>reg_dir = dir, reg_agents = m, reg_disk = d'\<rparr>, d'))"

section \<open>Reading\<close>

definition get :: "registry \<Rightarrow> agent_id \<Rightarrow> agent_config option" where
  "get r a = map_of (reg_agents r) a"

definition snapshot :: "registry \<Rightarrow> agent_config list" where
  "snapshot r = sort_key agent_id (values_of (reg_agents r))"

section \<open>Mutations\<close>

definition register ::
    "toml_codec \<Rightarrow> io_env \<Rightarrow> agent_config \<Rightarrow> registry \<Rightarrow> unit result \<times> registry" where
  "register tc io c r =
     (case agent_config_validate c of
        Inl e \<Rightarrow> (Inl e, r)
      | Inr _ \<Rightarrow>
          if get r (agent_id c) \<noteq> None
          then (Inl (Config (AlreadyRegistered (as_str (agent_id c)))), r)
          else (case persist tc io (reg_dir r) c (reg_disk r) of
                  (Inl e, d) \<Rightarrow> (Inl e, r\<lparr>reg_disk := d\<rparr>)
                | (Inr _, d) \<Rightarrow>
                    (Inr (), r\<lparr>reg_disk := d,
                               reg_agents := AList.update (agent_id c) c (reg_agents r)\<rparr>)))"

definition update ::
    "toml_codec \<Rightarrow> io_env \<Rightarrow> agent_config \<Rightarrow> registry \<Rightarrow> unit result \<times> registry" where
  "update tc io c r =
     (case agent_config_validate c of
        Inl e \<Rightarrow> (Inl e, r)
      | Inr _ \<Rightarrow>
          if get r (agent_id c) = None
          then (Inl (Config (NotRegistered (as_str (agent_id c)))), r)
          else (case persist tc io (reg_dir r) c (reg_disk r) of
                  (Inl e, d) \<Rightarrow> (Inl e, r\<lparr>reg_disk := d\<rparr>)
                | (Inr _, d) \<Rightarrow>
                    (Inr (), r\<lparr>reg_disk := d,
                               reg_agents := AList.update (agent_id c) c (reg_agents r)\<rparr>)))"

definition set_enabled ::
    "toml_codec \<Rightarrow> io_env \<Rightarrow> agent_id \<Rightarrow> bool \<Rightarrow> registry \<Rightarrow> unit result \<times> registry" where
  "set_enabled tc io a en r =
     (case get r a of
        None \<Rightarrow> (Inl (Config (NotRegistered (as_str a))), r)
      | Some existing \<Rightarrow>
          if enabled existing = en then (Inr (), r)
          else
            let updated = existing\<lparr>enabled := en\<rparr> in
            (case persist tc io (reg_dir r) updated (reg_disk r) of
               (Inl e, d) \<Rightarrow> (Inl e, r\<lparr>reg_disk := d\<rparr>)
             | (Inr _, d) \<Rightarrow>
                 (Inr (), r\<lparr>reg_disk := d, reg_agents := AList.update a updated (reg_agents r)\<rparr>)))"

text \<open>\<open>remove_file\<close> also fails when the file is not there.\<close>

definition unregister :: "io_env \<Rightarrow> agent_id \<Rightarrow> registry \<Rightarrow> unit result \<times> registry" where
  "unregister io a r =
     (if get r a = None then (Inl (Config (NotRegistered (as_str a))), r)
      else if \<not> io_remove io \<or> map_of (files (reg_disk r)) (file_name a) = None
      then (Inl (Config (Cannot Remove_Op (file_path (reg_dir r) a))), r)
      else (Inr (), r\<lparr>reg_disk := (reg_disk r)\<lparr>files := AList.delete (file_name a)
                                                    (files (reg_disk r))\<rparr>,
                      reg_agents := AList.delete a (reg_agents r)\<rparr>))"

section \<open>Reload\<close>

text \<open>One arm of the diff; both absent is \<open>unreachable!()\<close>, as the ids come from the two maps.\<close>

fun id_change :: "agent_id \<Rightarrow> agent_config option \<Rightarrow> agent_config option \<Rightarrow> change list" where
  "id_change a None (Some c) = [Added c]"
| "id_change a (Some _) None = [Removed a]"
| "id_change a (Some was) (Some is) =
     (if enabled was \<noteq> enabled is
      then (if enabled is then [Enabled is] else [Disabled is])
      else if was \<noteq> is then [Updated is] else [])"
| "id_change a None None = []"

definition reload_changes ::
    "(agent_id \<times> agent_config) list \<Rightarrow> (agent_id \<times> agent_config) list \<Rightarrow> change list" where
  "reload_changes old new =
     sort_key change_agent_id
       (concat (map (\<lambda>a. id_change a (map_of old a) (map_of new a)) (remdups (keys new @ keys old))))"

definition reload :: "toml_codec \<Rightarrow> io_env \<Rightarrow> registry \<Rightarrow> change list result \<times> registry" where
  "reload tc io r =
     (case load tc io (reg_dir r) (reg_disk r) of
        (Inl e, d) \<Rightarrow> (Inl e, r\<lparr>reg_disk := d\<rparr>)
      | (Inr new, d) \<Rightarrow>
          (Inr (reload_changes (reg_agents r) new), r\<lparr>reg_disk := d, reg_agents := new\<rparr>))"

section \<open>What a directory declares\<close>

text \<open>An entry the loader accepts, and the registration it declares.\<close>

definition entry_config :: "toml_codec \<Rightarrow> path \<Rightarrow> string \<Rightarrow> dentry \<Rightarrow> agent_config option" where
  "entry_config tc dir name ent =
     (if is_tmp name \<or> extension name \<noteq> Some ''toml'' then None
      else (case read_agent_file tc (path_join dir name) ent of
              Inl _ \<Rightarrow> None
            | Inr c \<Rightarrow> if file_stem name = as_str (agent_id c) then Some c else None))"

definition entry_ok :: "toml_codec \<Rightarrow> path \<Rightarrow> string \<Rightarrow> dentry \<Rightarrow> bool" where
  "entry_ok tc dir name ent =
     (is_tmp name \<or> extension name \<noteq> Some ''toml'' \<or> entry_config tc dir name ent \<noteq> None)"

definition disk_config :: "toml_codec \<Rightarrow> path \<Rightarrow> (string \<Rightarrow> dentry option) \<Rightarrow> agent_id \<Rightarrow> agent_config option" where
  "disk_config tc dir v a =
     (case v (file_name a) of None \<Rightarrow> None | Some ent \<Rightarrow> entry_config tc dir (file_name a) ent)"

lemma entry_config_SomeD:
  assumes "entry_config tc dir name ent = Some c"
  shows "valid_config c" "name = file_name (agent_id c)" "\<not> is_tmp name"
    "extension name = Some ''toml''" "read_agent_file tc (path_join dir name) ent = Inr c"
    "file_stem name = as_str (agent_id c)"
  using assms
  by (auto simp: entry_config_def dest: read_agent_file_valid intro: file_name_of_stem
      split: if_splits sum.splits)

lemma disk_config_id: "disk_config tc dir v a = Some c \<Longrightarrow> agent_id c = a \<and> valid_config c"
  by (auto simp: disk_config_def dest: entry_config_SomeD(1,2) split: option.splits)

text \<open>Loading succeeds exactly when every entry can be read and accepted.\<close>

lemma load_entries_ok_iff:
  "is_ok (fst (load_entries tc io dir es fs m)) \<longleftrightarrow>
     (\<forall>(name, ent) \<in> set es. io_entry io name \<and> entry_ok tc dir name ent)"
proof (induction tc io dir es fs m rule: load_entries.induct)
  case (2 tc io dir name ent es fs m)
  show ?case
  proof (cases "read_agent_file tc (path_join dir name) ent")
    case (Inl e)
    with 2 show ?thesis by (auto simp: entry_ok_def entry_config_def)
  next
    case (Inr c)
    then have "agent_config_validate c = Inr ()"
      by (auto dest: read_agent_file_valid simp: valid_config_def)
    with 2 Inr show ?thesis by (auto simp: entry_ok_def entry_config_def)
  qed
qed auto

lemma load_entries_map:
  assumes "load_entries tc io dir es fs m = (Inr m', fs')" and "distinct (map fst es)"
    and "\<And>a. map_of m a \<noteq> None \<Longrightarrow> file_name a \<notin> fst ` set es"
  shows "map_of m' = (\<lambda>a. case disk_config tc dir (map_of es) a of Some c \<Rightarrow> Some c | None \<Rightarrow> map_of m a)"
  using assms
proof (induction tc io dir es fs m rule: load_entries.induct)
  case (1 tc io dir fs m)
  then show ?case by (auto simp: disk_config_def fun_eq_iff)
next
  case (2 tc io dir name ent es fs m)
  have d: "name \<notin> fst ` set es" "distinct (map fst es)" using "2.prems"(2) by auto
  show ?case
  proof (cases "entry_config tc dir name ent")
    case None
    have "is_ok (fst (load_entries tc io dir ((name, ent) # es) fs m))"
      unfolding "2.prems"(1) by simp
    then have "entry_ok tc dir name ent" unfolding load_entries_ok_iff by simp
    with None have skip: "is_tmp name \<or> extension name \<noteq> Some ''toml''"
      by (auto simp: entry_ok_def)
    have same: "disk_config tc dir (map_of ((name, ent) # es)) a = disk_config tc dir (map_of es) a" for a
      using d(1) None by (auto simp: disk_config_def map_of_eq_None_iff[THEN iffD2] split: option.splits)
    from 2 skip d show ?thesis unfolding same by (auto split: if_splits)
  next
    case (Some c)
    note ec = entry_config_SomeD[OF Some]
    from ec "2.prems"(1) have rest:
      "load_entries tc io dir es fs (AList.update (agent_id c) c m) = (Inr m', fs')"
      by (auto simp: valid_config_def split: if_splits)
    have notin: "file_name a \<notin> fst ` set es"
      if "map_of (AList.update (agent_id c) c m) a \<noteq> None" for a
      using that "2.prems"(3) d(1) ec(2) by (auto split: if_splits)
    have "map_of m' = (\<lambda>a. case disk_config tc dir (map_of es) a of
        Some c \<Rightarrow> Some c | None \<Rightarrow> map_of (AList.update (agent_id c) c m) a)"
      using 2(3)[OF _ _ _ ec(5)] rest ec d(2) notin "2.prems"(1) by (auto simp: valid_config_def split: if_splits)
    also have "\<dots> = (\<lambda>a. case disk_config tc dir (map_of ((name, ent) # es)) a of
        Some c \<Rightarrow> Some c | None \<Rightarrow> map_of m a)"
      using Some d(1) ec(2)
      by (auto simp: fun_eq_iff disk_config_def map_of_eq_None_iff[THEN iffD2] split: option.splits)
    finally show ?thesis .
  qed
qed

section \<open>Memory and disk in step\<close>

text \<open>
  The registry invariant: every entry of the directory that is not a temporary file is acceptable,
  and the map in memory is what the directory declares.
\<close>

definition synced :: "toml_codec \<Rightarrow> registry \<Rightarrow> bool" where
  "synced tc r =
     ((\<forall>name ent. visible (reg_disk r) name = Some ent \<longrightarrow> entry_ok tc (reg_dir r) name ent) \<and>
      map_of (reg_agents r) = disk_config tc (reg_dir r) (visible (reg_disk r)))"

definition disk_ok :: "disk \<Rightarrow> bool" where
  "disk_ok d = (wf_map (files d) \<and> (dir_exists d \<or> files d = []))"

definition registry_ok :: "toml_codec \<Rightarrow> registry \<Rightarrow> bool" where
  "registry_ok tc r = (wf_map (reg_agents r) \<and> disk_ok (reg_disk r) \<and> synced tc r)"

lemma disk_config_visible: "disk_config tc dir (visible d) = disk_config tc dir (map_of (files d))"
  by (auto simp: fun_eq_iff disk_config_def visible_def entry_config_def split: option.splits)

lemma get_id: "synced tc r \<Longrightarrow> get r a = Some c \<Longrightarrow> agent_id c = a \<and> valid_config c"
  by (simp add: synced_def get_def disk_config_id)

lemma load_entries_files:
  assumes "load_entries tc io dir es fs m = (res, fs')"
  shows "wf_map fs \<Longrightarrow> wf_map fs'" "\<And>name. \<not> is_tmp name \<Longrightarrow> map_of fs' name = map_of fs name"
    "fs = [] \<Longrightarrow> fs' = []" "wf_map m \<Longrightarrow> res = Inr m' \<Longrightarrow> wf_map m'"
  using assms
  by (induction tc io dir es fs m rule: load_entries.induct)
    (auto split: if_splits sum.splits)

lemma load_visible: "load tc io dir d = (res, d') \<Longrightarrow> visible d' = visible d"
  by (auto simp: load_def visible_def fun_eq_iff load_entries_files(2)
      split: if_splits prod.splits)

lemma load_disk_ok: "load tc io dir d = (res, d') \<Longrightarrow> disk_ok d \<Longrightarrow> disk_ok d' \<and> dir_exists d' = dir_exists d"
  by (auto simp: load_def disk_ok_def load_entries_files(1) split: if_splits prod.splits)

lemma load_map:
  assumes "load tc io dir d = (Inr m, d')" and "disk_ok d"
  shows "map_of m = disk_config tc dir (visible d)" and "wf_map m"
    and "visible d name = Some ent \<Longrightarrow> entry_ok tc dir name ent"
proof -
  show "map_of m = disk_config tc dir (visible d)"
  proof (cases "dir_exists d")
    case True
    with assms obtain fs where "load_entries tc io dir (files d) (files d) [] = (Inr m, fs)"
      by (auto simp: load_def split: if_splits prod.splits)
    from load_entries_map[OF this] assms(2) show ?thesis
      by (auto simp: disk_ok_def wf_map_def disk_config_visible fun_eq_iff split: option.splits)
  next
    case False
    with assms show ?thesis
      by (auto simp: load_def disk_ok_def disk_config_def visible_def fun_eq_iff)
  qed
  show "wf_map m"
    using assms load_entries_files(4)[of tc io dir "files d" "files d" "[]" "Inr m" _ m]
    by (auto simp: load_def split: if_splits prod.splits)
  assume v: "visible d name = Some ent"
  then have e: "(name, ent) \<in> set (files d)"
    by (auto simp: visible_def dest: map_of_SomeD split: if_splits)
  with assms(2) have "dir_exists d" by (auto simp: disk_ok_def)
  with assms(1) have "is_ok (fst (load_entries tc io dir (files d) (files d) []))"
    by (auto simp: load_def split: if_splits prod.splits)
  with e show "entry_ok tc dir name ent" unfolding load_entries_ok_iff by auto
qed

lemma load_registry_ok:
  assumes "load tc io dir d = (Inr m, d')" and "disk_ok d"
  shows "registry_ok tc \<lparr>reg_dir = dir, reg_agents = m, reg_disk = d'\<rparr>"
  using load_map[OF assms] load_visible[OF assms(1)] load_disk_ok[OF assms]
  by (simp add: registry_ok_def synced_def)

text \<open>
  Loading a directory that shows the same files, in any order of enumeration and with any leftover
  temporary files, finds the map again.
\<close>

lemma load_again:
  assumes "synced tc r" and "visible d = visible (reg_disk r)" and "disk_ok d"
    and "io_readdir io" and "\<And>name. io_entry io name"
  shows "\<exists>m d'. load tc io (reg_dir r) d = (Inr m, d') \<and> map_of m = map_of (reg_agents r)"
proof -
  have entries: "entry_ok tc (reg_dir r) name ent" if "(name, ent) \<in> set (files d)" for name ent
  proof (cases "is_tmp name")
    case True
    then show ?thesis by (simp add: entry_ok_def)
  next
    case False
    with that assms(3) have "visible d name = Some ent"
      by (simp add: visible_def disk_ok_def wf_map_mem)
    with assms(1,2) show ?thesis by (simp add: synced_def)
  qed
  have "is_ok (fst (load_entries tc io (reg_dir r) (files d) (files d) []))"
    unfolding load_entries_ok_iff using entries assms(5) by auto
  then have "is_ok (fst (load tc io (reg_dir r) d))"
    using assms(4) by (auto simp: load_def split: prod.splits)
  then obtain m d' where l: "load tc io (reg_dir r) d = (Inr m, d')"
    by (cases "load tc io (reg_dir r) d") (auto simp: is_ok_iff)
  from load_map(1)[OF l assms(3)] assms(1,2) have "map_of m = map_of (reg_agents r)"
    by (simp add: synced_def)
  with l show ?thesis by blast
qed

section \<open>Every operation keeps memory and disk in step\<close>

lemma synced_visible:
  "synced tc r \<Longrightarrow> visible d = visible (reg_disk r) \<Longrightarrow> synced tc (r\<lparr>reg_disk := d\<rparr>)"
  by (simp add: synced_def)

lemma persist_disk_ok:
  assumes "disk_ok d" and p: "persist tc io dir c d = (res, d')"
  shows "disk_ok d'"
proof -
  have "wf_map (files d')" using assms(1) persist_wf[OF _ p] by (simp add: disk_ok_def)
  moreover have "dir_exists d' \<or> files d' = []"
    using assms by (auto simp: disk_ok_def persist_def Let_def split: if_splits option.splits)
  ultimately show ?thesis by (simp add: disk_ok_def)
qed

lemma persist_fail_ok:
  assumes "registry_ok tc r" and "persist tc io (reg_dir r) c (reg_disk r) = (Inl e, d)"
  shows "registry_ok tc (r\<lparr>reg_disk := d\<rparr>)"
  using assms persist_fail_visible[OF assms(2)] persist_disk_ok[OF _ assms(2)]
  by (simp add: registry_ok_def synced_visible)

lemma persist_ok_ok:
  assumes "toml_roundtrip tc" "valid_config c" "registry_ok tc r"
    and p: "persist tc io (reg_dir r) c (reg_disk r) = (Inr u, d)"
  shows "registry_ok tc (r\<lparr>reg_disk := d, reg_agents := AList.update (agent_id c) c (reg_agents r)\<rparr>)"
proof -
  let ?n = "file_name (agent_id c)" and ?v = "visible (reg_disk r)"
  have vid: "valid_id (agent_id c)" using assms(2) by (simp add: valid_config_def)
  from persist_ok_visible[OF p vid] obtain t where
    t: "toml_print tc (serialize_agent_config c) = Some t" "visible d = ?v(?n \<mapsto> Readable t)" by blast
  have "entry_config tc (reg_dir r) ?n (Readable t) = Some c"
    using read_agent_file_written[OF assms(1,2) t(1)] vid
    by (simp add: entry_config_def file_name_not_tmp file_name_stem)
  then have "disk_config tc (reg_dir r) (visible d) =
      (disk_config tc (reg_dir r) ?v)(agent_id c \<mapsto> c)"
    and "entry_ok tc (reg_dir r) ?n (Readable t)"
    by (auto simp: disk_config_def t(2) fun_eq_iff entry_ok_def)
  with assms(3) persist_disk_ok[OF _ p] show ?thesis
    by (auto simp: registry_ok_def synced_def t(2) split: if_splits)
qed

lemma register_ok:
  assumes "toml_roundtrip tc" "valid_id (agent_id c)" "registry_ok tc r" "register tc io c r = (res, r')"
  shows "registry_ok tc r'"
  using assms
  by (auto simp: register_def valid_config_def persist_fail_ok persist_ok_ok
      split: sum.splits if_splits prod.splits)

lemma update_ok:
  assumes "toml_roundtrip tc" "valid_id (agent_id c)" "registry_ok tc r" "update tc io c r = (res, r')"
  shows "registry_ok tc r'"
  using assms
  by (auto simp: update_def valid_config_def persist_fail_ok persist_ok_ok
      split: sum.splits if_splits prod.splits)

lemma valid_config_enabled: "valid_config c \<Longrightarrow> valid_config (c\<lparr>enabled := b\<rparr>)"
  by (simp add: valid_config_def agent_config_validate_ok)

lemma set_enabled_ok:
  assumes "toml_roundtrip tc" "registry_ok tc r" "set_enabled tc io a en r = (res, r')"
  shows "registry_ok tc r'"
proof (cases "get r a")
  case None
  with assms show ?thesis by (simp add: set_enabled_def)
next
  case (Some c)
  with assms(2) have c: "agent_id c = a" "valid_config (c\<lparr>enabled := en\<rparr>)"
    by (auto simp: registry_ok_def valid_config_enabled dest: get_id)
  with persist_ok_ok[OF assms(1) c(2) assms(2)] Some assms show ?thesis
    by (auto simp: set_enabled_def Let_def persist_fail_ok split: if_splits sum.splits prod.splits)
qed

lemma unregister_ok:
  assumes "registry_ok tc r" "unregister io a r = (res, r')"
  shows "registry_ok tc r'"
proof (cases "is_ok res")
  case False
  with assms show ?thesis by (auto simp: unregister_def split: if_splits)
next
  case True
  let ?d = "(reg_disk r)\<lparr>files := AList.delete (file_name a) (files (reg_disk r))\<rparr>"
  from True assms(2) have r': "r' = r\<lparr>reg_disk := ?d, reg_agents := AList.delete a (reg_agents r)\<rparr>"
    by (auto simp: unregister_def split: if_splits)
  have v: "visible ?d = (visible (reg_disk r))(file_name a := None)"
    by (auto simp: visible_def fun_eq_iff)
  have "disk_ok ?d" using assms(1) by (auto simp: disk_ok_def registry_ok_def)
  moreover have "disk_config tc (reg_dir r) (visible ?d) = (disk_config tc (reg_dir r) (visible (reg_disk r)))(a := None)"
    by (auto simp: disk_config_def v fun_eq_iff)
  ultimately show ?thesis
    using assms(1) by (auto simp: registry_ok_def synced_def r' v split: if_splits)
qed

lemma reload_ok:
  assumes "registry_ok tc r" "reload tc io r = (res, r')"
  shows "registry_ok tc r'"
proof (cases "load tc io (reg_dir r) (reg_disk r)")
  case (Pair lres d)
  show ?thesis
  proof (cases lres)
    case (Inl e)
    with Pair assms load_visible[OF Pair] load_disk_ok[OF Pair] show ?thesis
      by (auto simp: reload_def registry_ok_def synced_visible)
  next
    case (Inr m)
    with Pair load_registry_ok[of tc io "reg_dir r" "reg_disk r" m d] assms show ?thesis
      by (auto simp: reload_def registry_ok_def synced_def)
  qed
qed

section \<open>The reload diff\<close>

text \<open>What a subscriber that applies the changes to its own map ends with.\<close>

fun patch :: "change \<Rightarrow> (agent_id \<Rightarrow> agent_config option) \<Rightarrow> (agent_id \<Rightarrow> agent_config option)" where
  "patch (Added c) m = m(agent_id c \<mapsto> c)"
| "patch (Updated c) m = m(agent_id c \<mapsto> c)"
| "patch (Enabled c) m = m(agent_id c \<mapsto> c)"
| "patch (Disabled c) m = m(agent_id c \<mapsto> c)"
| "patch (Removed a) m = m(a := None)"

definition keyed :: "(agent_id \<times> agent_config) list \<Rightarrow> bool" where
  "keyed m = (\<forall>a c. map_of m a = Some c \<longrightarrow> agent_id c = a)"

lemma registry_ok_keyed: "registry_ok tc r \<Longrightarrow> keyed (reg_agents r)"
  by (auto simp: registry_ok_def keyed_def get_def dest: get_id)

lemma id_change_id:
  assumes "\<And>c. old = Some c \<Longrightarrow> agent_id c = a" "\<And>c. new = Some c \<Longrightarrow> agent_id c = a"
  shows "x \<in> set (id_change a old new) \<Longrightarrow> change_agent_id x = a"
  using assms by (cases "(a, old, new)" rule: id_change.cases) (auto split: if_splits)

lemma id_change_patch:
  assumes "\<And>c. old = Some c \<Longrightarrow> agent_id c = a" "\<And>c. new = Some c \<Longrightarrow> agent_id c = a"
  shows "id_change a old new = [] \<and> old = new \<or>
     (\<exists>x. id_change a old new = [x] \<and> (\<forall>m. patch x m = m(a := new)))"
  using assms by (cases "(a, old, new)" rule: id_change.cases) auto

lemma id_change_Nil_iff: "id_change a old new = [] \<longleftrightarrow> old = new"
  by (cases "(a, old, new)" rule: id_change.cases) auto

lemma patch_other: "a \<noteq> change_agent_id x \<Longrightarrow> patch x m a = m a"
  by (cases x) auto

lemma fold_patch_other: "a \<notin> change_agent_id ` set xs \<Longrightarrow> fold patch xs m a = m a"
  by (induction xs arbitrary: m) (auto simp: patch_other)

lemma fold_patch_in:
  assumes "x \<in> set xs" "distinct (map change_agent_id xs)" "\<And>m. patch x m a = v" "change_agent_id x = a"
  shows "fold patch xs m a = v"
  using assms
proof (induction xs arbitrary: m)
  case (Cons y ys)
  show ?case
  proof (cases "x = y")
    case True
    with Cons.prems show ?thesis by (auto simp: fold_patch_other)
  next
    case False
    with Cons show ?thesis by auto
  qed
qed simp

lemma distinct_id_changes:
  assumes "distinct as" "keyed old" "keyed new"
  shows "distinct (map change_agent_id (concat (map (\<lambda>a. id_change a (map_of old a) (map_of new a)) as)))"
  using assms(1)
proof (induction as)
  case (Cons a as)
  let ?f = "\<lambda>a. id_change a (map_of old a) (map_of new a)"
  have ids: "change_agent_id x = b" if "x \<in> set (?f b)" for x b
    using that assms(2,3) by (intro id_change_id[of "map_of old b" b "map_of new b"]) (auto simp: keyed_def)
  have "distinct (map change_agent_id (?f a))"
    using id_change_patch[of "map_of old a" a "map_of new a"] assms(2,3) by (auto simp: keyed_def)
  with Cons ids show ?case by fastforce
qed simp

lemma reload_changes_distinct:
  assumes "keyed old" "keyed new"
  shows "distinct (map change_agent_id (reload_changes old new))"
proof -
  let ?as = "remdups (keys new @ keys old)"
  let ?cs = "concat (map (\<lambda>a. id_change a (map_of old a) (map_of new a)) ?as)"
  have "distinct (map change_agent_id ?cs)"
    by (rule distinct_id_changes) (simp_all add: assms)
  moreover have "mset (map change_agent_id (reload_changes old new)) = mset (map change_agent_id ?cs)"
    by (simp add: reload_changes_def)
  ultimately show ?thesis by (metis mset_eq_imp_distinct_iff)
qed

lemma reload_changes_sorted: "sorted (map change_agent_id (reload_changes old new))"
  by (simp add: reload_changes_def)

lemma reload_changes_mem:
  assumes "keyed old" "keyed new"
  shows "x \<in> set (reload_changes old new) \<longleftrightarrow>
     x \<in> set (id_change (change_agent_id x) (map_of old (change_agent_id x)) (map_of new (change_agent_id x)))"
    (is "_ \<longleftrightarrow> x \<in> set (?f (change_agent_id x))")
proof -
  have ids: "change_agent_id x = b" if "x \<in> set (?f b)" for b
    using that assms by (intro id_change_id[of "map_of old b" b "map_of new b"]) (auto simp: keyed_def)
  have "b \<in> set (keys new @ keys old)" if "x \<in> set (?f b)" for b
    using that by (cases "map_of old b"; cases "map_of new b") (auto simp: set_keys)
  with ids show ?thesis unfolding reload_changes_def set_sort set_concat set_map set_remdups by blast
qed

lemma reload_changes_patch:
  assumes "keyed old" "keyed new"
  shows "fold patch (reload_changes old new) (map_of old) = map_of new"
proof
  fix a
  let ?xs = "reload_changes old new"
  have step: "id_change a (map_of old a) (map_of new a) = [] \<and> map_of old a = map_of new a \<or>
     (\<exists>x. id_change a (map_of old a) (map_of new a) = [x] \<and> (\<forall>m. patch x m = m(a := map_of new a)))"
    using assms by (intro id_change_patch) (auto simp: keyed_def)
  have ids: "change_agent_id x = a" if "x \<in> set (id_change a (map_of old a) (map_of new a))" for x
    using that assms by (intro id_change_id[of "map_of old a" a "map_of new a"]) (auto simp: keyed_def)
  from step show "fold patch ?xs (map_of old) a = map_of new a"
  proof (elim disjE exE conjE)
    assume no: "id_change a (map_of old a) (map_of new a) = []" "map_of old a = map_of new a"
    have "a \<notin> change_agent_id ` set ?xs"
      using no(1) reload_changes_mem[OF assms] by fastforce
    with no(2) show ?thesis by (simp add: fold_patch_other)
  next
    fix x assume x: "id_change a (map_of old a) (map_of new a) = [x]" "\<forall>m. patch x m = m(a := map_of new a)"
    with ids have i: "change_agent_id x = a" by simp
    with x have "x \<in> set ?xs" using reload_changes_mem[OF assms] by simp
    from fold_patch_in[OF this reload_changes_distinct[OF assms] _ i] x(2) show ?thesis by simp
  qed
qed

lemma reload_changes_Nil_iff:
  assumes "keyed old" "keyed new"
  shows "reload_changes old new = [] \<longleftrightarrow> map_of old = map_of new"
proof
  assume "reload_changes old new = []"
  with reload_changes_patch[OF assms] show "map_of old = map_of new" by simp
next
  assume "map_of old = map_of new"
  then have e: "(\<lambda>a. id_change a (map_of old a) (map_of new a)) = (\<lambda>a. [])"
    by (simp add: fun_eq_iff id_change_Nil_iff)
  have c: "concat (map (\<lambda>a. []) as) = ([] :: change list)" for as :: "agent_id list"
    by (induction as) auto
  show "reload_changes old new = []" unfolding reload_changes_def e c by simp
qed

section \<open>Snapshot\<close>

lemma snapshot_sorted: "sorted (map agent_id (snapshot r))"
  by (simp add: snapshot_def)

lemma snapshot_set:
  assumes "wf_map (reg_agents r)"
  shows "set (snapshot r) = {c. \<exists>a. get r a = Some c}"
  using assms wf_map_mem[of "reg_agents r"] by (force simp: snapshot_def values_of_def get_def)

lemma snapshot_distinct:
  assumes "wf_map (reg_agents r)" "keyed (reg_agents r)"
  shows "distinct (map agent_id (snapshot r))"
proof -
  have "map agent_id (values_of (reg_agents r)) = keys (reg_agents r)"
    using assms wf_map_mem[of "reg_agents r"] by (auto simp: values_of_def keys_def keyed_def)
  then have "distinct (map agent_id (values_of (reg_agents r)))"
    using assms(1) by (simp add: wf_map_def keys_def)
  moreover have "mset (map agent_id (snapshot r)) = mset (map agent_id (values_of (reg_agents r)))"
    by (simp add: snapshot_def)
  ultimately show ?thesis by (metis mset_eq_imp_distinct_iff)
qed

section \<open>Functional behaviour of the operations\<close>

lemma register_get:
  "register tc io c r = (res, r') \<Longrightarrow>
     get r' = (if res = Inr () then (get r)(agent_id c \<mapsto> c) else get r) \<and>
     (res = Inr () \<longrightarrow> get r (agent_id c) = None \<and> agent_config_validate c = Inr ()) \<and>
     reg_dir r' = reg_dir r"
  by (auto simp: register_def get_def fun_eq_iff split: sum.splits if_splits prod.splits)

lemma update_get:
  "update tc io c r = (res, r') \<Longrightarrow>
     get r' = (if res = Inr () then (get r)(agent_id c \<mapsto> c) else get r) \<and>
     (res = Inr () \<longrightarrow> get r (agent_id c) \<noteq> None \<and> agent_config_validate c = Inr ()) \<and>
     reg_dir r' = reg_dir r"
  by (auto simp: update_def get_def fun_eq_iff split: sum.splits if_splits prod.splits)

lemma unregister_get:
  "unregister io a r = (res, r') \<Longrightarrow>
     get r' = (if res = Inr () then (get r)(a := None) else get r) \<and>
     (res = Inr () \<longrightarrow> get r a \<noteq> None) \<and> reg_dir r' = reg_dir r"
  by (auto simp: unregister_def get_def fun_eq_iff split: if_splits)

lemma set_enabled_get:
  "set_enabled tc io a en r = (res, r') \<Longrightarrow>
     get r' = (if res = Inr () then (get r)(a := map_option (\<lambda>c. c\<lparr>enabled := en\<rparr>) (get r a)) else get r) \<and>
     (res = Inr () \<longrightarrow> get r a \<noteq> None) \<and> reg_dir r' = reg_dir r"
  by (auto simp: set_enabled_def get_def fun_eq_iff Let_def split: option.splits sum.splits if_splits prod.splits)

lemma reload_get:
  assumes "registry_ok tc r" "reload tc io r = (res, r')"
  shows "(\<forall>cs. res = Inr cs \<longrightarrow> fold patch cs (get r) = get r') \<and> (\<forall>e. res = Inl e \<longrightarrow> get r' = get r)"
proof -
  have k: "keyed (reg_agents r)" "keyed (reg_agents r')"
    using registry_ok_keyed assms reload_ok by blast+
  have g: "get x = map_of (reg_agents x)" for x by (simp add: get_def fun_eq_iff)
  have cs: "cs = reload_changes (reg_agents r) (reg_agents r')" if "res = Inr cs" for cs
    using that assms(2) by (auto simp: reload_def split: sum.splits prod.splits)
  have "get r' = get r" if "res = Inl e" for e
    using that assms(2) by (auto simp: reload_def g split: sum.splits prod.splits)
  with cs reload_changes_patch[OF k] show ?thesis unfolding g by auto
qed

section \<open>The contract\<close>

text \<open>
  What the control plane relies on: a store of registrations keyed by id, whose mutations change the
  lookup of one id when they succeed and nothing when they fail, and keep the invariant under the
  assumption \<open>good\<close> on the environment.  \<open>'x\<close> is the codec and \<open>'i\<close> the answers of the system.
\<close>

locale registration_store =
  fixes good :: "'x \<Rightarrow> bool"
    and inv :: "'x \<Rightarrow> 'r \<Rightarrow> bool"
    and admissible :: "'c \<Rightarrow> bool"
    and key :: "'c \<Rightarrow> 'k"
    and look :: "'r \<Rightarrow> 'k \<Rightarrow> 'c option"
    and add :: "'x \<Rightarrow> 'i \<Rightarrow> 'c \<Rightarrow> 'r \<Rightarrow> ('e + unit) \<times> 'r"
    and replace :: "'x \<Rightarrow> 'i \<Rightarrow> 'c \<Rightarrow> 'r \<Rightarrow> ('e + unit) \<times> 'r"
    and drop_key :: "'i \<Rightarrow> 'k \<Rightarrow> 'r \<Rightarrow> ('e + unit) \<times> 'r"
  assumes add_look: "add x i c r = (res, r') \<Longrightarrow>
        look r' = (if res = Inr () then (look r)(key c \<mapsto> c) else look r)"
    and add_fresh: "add x i c r = (Inr (), r') \<Longrightarrow> look r (key c) = None"
    and replace_look: "replace x i c r = (res, r') \<Longrightarrow>
        look r' = (if res = Inr () then (look r)(key c \<mapsto> c) else look r)"
    and replace_present: "replace x i c r = (Inr (), r') \<Longrightarrow> look r (key c) \<noteq> None"
    and drop_look: "drop_key i k r = (res, r') \<Longrightarrow>
        look r' = (if res = Inr () then (look r)(k := None) else look r)"
    and drop_present: "drop_key i k r = (Inr (), r') \<Longrightarrow> look r k \<noteq> None"
    and add_inv: "good x \<Longrightarrow> admissible c \<Longrightarrow> inv x r \<Longrightarrow> add x i c r = (res, r') \<Longrightarrow> inv x r'"
    and replace_inv: "good x \<Longrightarrow> admissible c \<Longrightarrow> inv x r \<Longrightarrow> replace x i c r = (res, r') \<Longrightarrow> inv x r'"
    and drop_inv: "inv x r \<Longrightarrow> drop_key i k r = (res, r') \<Longrightarrow> inv x r'"
begin

text \<open>Of two adds of one key at most one succeeds, whatever the system answers.\<close>

lemma add_add:
  assumes "add x i c r = (Inr (), r1)" "key c' = key c"
  shows "fst (add x i' c' r1) \<noteq> Inr ()"
proof
  assume "fst (add x i' c' r1) = Inr ()"
  then have "look r1 (key c') = None" by (metis add_fresh prod.collapse)
  with add_look[OF assms(1)] assms(2) show False by simp
qed

lemma drop_then_replace:
  "drop_key i (key c) r = (Inr (), r1) \<Longrightarrow> fst (replace x i' c r1) \<noteq> Inr ()"
  by (metis drop_look fun_upd_same prod.collapse replace_present)

lemma drop_drop: "drop_key i k r = (Inr (), r1) \<Longrightarrow> fst (drop_key i' k r1) \<noteq> Inr ()"
  by (metis drop_look fun_upd_same prod.collapse drop_present)

lemma add_then_drop:
  assumes "add x i c r = (Inr (), r1)" "drop_key i' (key c) r1 = (Inr (), r2)"
  shows "look r2 = look r"
  using add_look[OF assms(1)] drop_look[OF assms(2)] add_fresh[OF assms(1)] by (auto simp: fun_eq_iff)

text \<open>Other keys are never touched.\<close>

lemma add_frame: "add x i c r = (res, r') \<Longrightarrow> k \<noteq> key c \<Longrightarrow> look r' k = look r k"
  by (simp add: add_look)

lemma replace_frame: "replace x i c r = (res, r') \<Longrightarrow> k \<noteq> key c \<Longrightarrow> look r' k = look r k"
  by (simp add: replace_look)

lemma drop_frame: "drop_key i k' r = (res, r') \<Longrightarrow> k \<noteq> k' \<Longrightarrow> look r' k = look r k"
  by (simp add: drop_look)

end

interpretation reg: registration_store toml_roundtrip registry_ok "\<lambda>c. valid_id (agent_id c)"
    agent_id get register update unregister
  by unfold_locales
    (auto dest: register_get update_get unregister_get intro: register_ok update_ok unregister_ok)

end
