(* ===== verification/Dedup.thy ===== *)
theory Dedup
  imports AgentIds
begin

text \<open>
  The completed-event store (\<open>src/dedup.rs\<close>): the SQLite table \<open>completed_events\<close> as its rows, the
  statements the code runs on it, and the contract the dispatcher relies on as a locale.  The
  connection is serialized by a mutex, so every operation is atomic.  \<open>db\<close> says whether the SQLite
  call succeeds, \<open>now\<close> is what \<open>unix_now()\<close> returns; SQLite integers are i64, so timestamps are
  compared as signed words.
\<close>

section \<open>The table and its operations\<close>

type_synonym dedup_key = "string \<times> string"
type_synonym dedup_store = "(dedup_key \<times> i64) list"

definition wf_dedup :: "dedup_store \<Rightarrow> bool" where
  "wf_dedup s = wf_map s"

text \<open>\<open>SELECT EXISTS(...)\<close> on the composite primary key.\<close>

definition is_completed :: "bool \<Rightarrow> dedup_store \<Rightarrow> agent_id \<Rightarrow> string \<Rightarrow> bool result" where
  "is_completed db s a e =
     (if \<not> db then Inl (DedupStore LookupFailed)
      else Inr (map_of s (as_str a, e) \<noteq> None))"

text \<open>\<open>INSERT OR IGNORE\<close>: a row that is already there keeps its timestamp.\<close>

definition mark_completed ::
    "bool \<Rightarrow> u64 \<Rightarrow> dedup_store \<Rightarrow> agent_id \<Rightarrow> string \<Rightarrow> unit result \<times> dedup_store" where
  "mark_completed db now s a e =
     (if \<not> db then (Inl (DedupStore InsertFailed), s)
      else (Inr (), if map_of s (as_str a, e) = None then s @ [((as_str a, e), now)] else s))"

text \<open>\<open>DELETE ... WHERE completed_at < cutoff\<close>, and the number of deleted rows.\<close>

definition purge_expired ::
    "bool \<Rightarrow> u64 \<Rightarrow> u64 \<Rightarrow> dedup_store \<Rightarrow> u64 result \<times> dedup_store" where
  "purge_expired db now ttl s =
     (let cutoff = saturating_sub now ttl in
      if \<not> db then (Inl (DedupStore PurgeFailed), s)
      else (Inr (of_nat (length (filter (\<lambda>(k, t). t <s cutoff) s))),
            filter (\<lambda>(k, t). \<not> t <s cutoff) s))"

definition dedup_len :: "bool \<Rightarrow> dedup_store \<Rightarrow> u64 result" where
  "dedup_len db s = (if \<not> db then Inl (DedupStore CountFailed) else Inr (of_nat (length s)))"

definition dedup_is_empty :: "bool \<Rightarrow> dedup_store \<Rightarrow> bool result" where
  "dedup_is_empty db s = (case dedup_len db s of Inl e \<Rightarrow> Inl e | Inr n \<Rightarrow> Inr (n = 0))"

section \<open>Opening\<close>

text \<open>
  What the environment answers when the store is opened: the parent directory, the rows of the
  database file (\<open>None\<close> when it cannot be opened), the three pragmas, the schema.
\<close>

record dedup_env =
  de_parent :: "path option"
  de_mkdir :: bool
  de_rows :: "dedup_store option"
  de_journal :: bool
  de_sync :: bool
  de_busy :: bool
  de_schema :: bool
  de_purge :: bool

definition with_connection :: "dedup_env \<Rightarrow> dedup_store \<Rightarrow> dedup_store result" where
  "with_connection env rows =
     (if \<not> de_journal env then Inl (DedupStore (CannotSetPragma ''journal_mode=WAL''))
      else if \<not> de_sync env then Inl (DedupStore (CannotSetPragma ''synchronous=FULL''))
      else if \<not> de_busy env then Inl (DedupStore (CannotSetPragma ''busy_timeout''))
      else if \<not> de_schema env then Inl (DedupStore CannotCreateSchema)
      else Inr rows)"

definition dedup_open :: "dedup_env \<Rightarrow> path \<Rightarrow> u64 \<Rightarrow> u64 \<Rightarrow> dedup_store result" where
  "dedup_open env p now ttl =
     (case (case de_parent env of
              Some parent \<Rightarrow> if de_mkdir env then Inr () else Inl (DedupStore (CannotCreateDir parent))
            | None \<Rightarrow> Inr ()) of
        Inl e \<Rightarrow> Inl e
      | Inr _ \<Rightarrow>
          (case de_rows env of
             None \<Rightarrow> Inl (DedupStore (CannotOpen p))
           | Some rows \<Rightarrow>
               (case with_connection env rows of
                  Inl e \<Rightarrow> Inl e
                | Inr s \<Rightarrow>
                    (case purge_expired (de_purge env) now ttl s of
                       (Inl e, _) \<Rightarrow> Inl e
                     | (Inr _, s') \<Rightarrow> Inr s'))))"

text \<open>\<open>open_in_memory\<close>: an empty database of its own.\<close>

definition open_in_memory :: "bool \<Rightarrow> dedup_env \<Rightarrow> dedup_store result" where
  "open_in_memory opened env =
     (if \<not> opened then Inl (DedupStore CannotOpenInMemory) else with_connection env [])"

text \<open>\<open>unix_now\<close> from the system clock, in nanoseconds since the epoch; a clock before the epoch reads 0.\<close>

definition unix_now :: "int \<Rightarrow> u64" where
  "unix_now ns = (if ns < 0 then 0 else word_of_int (ns div 1000000000))"

section \<open>The contract\<close>

text \<open>
  \<open>trait DedupCheck\<close> as the dispatcher uses it: a set of completed pairs, a lookup that answers
  membership when it answers, and a mark that adds one pair or, when it fails, nothing.
\<close>

locale completion_log =
  fixes wf :: "'s \<Rightarrow> bool"
    and lookup :: "bool \<Rightarrow> 's \<Rightarrow> 'a \<Rightarrow> 'e \<Rightarrow> 'err + bool"
    and mark :: "bool \<Rightarrow> 'n \<Rightarrow> 's \<Rightarrow> 'a \<Rightarrow> 'e \<Rightarrow> ('err + unit) \<times> 's"
    and completed :: "'s \<Rightarrow> ('a \<times> 'e) set"
  assumes lookup_ok: "lookup True s a e = Inr ((a, e) \<in> completed s)"
    and lookup_fail: "\<exists>x. lookup False s a e = Inl x"
    and mark_ok: "fst (mark True n s a e) = Inr ()"
    and mark_completes: "completed (snd (mark True n s a e)) = insert (a, e) (completed s)"
    and mark_fail: "\<exists>x. mark False n s a e = (Inl x, s)"
    and mark_wf: "wf s \<Longrightarrow> wf (snd (mark db n s a e))"
begin

lemma lookup_Inr: "lookup db s a e = Inr b \<longleftrightarrow> db \<and> b = ((a, e) \<in> completed s)"
  using lookup_ok lookup_fail[of s a e] by (cases db) auto

lemma mark_then_hit: "lookup True (snd (mark True n s a e)) a e = Inr True"
  by (simp add: lookup_ok mark_completes)


lemma mark_mono: "completed s \<subseteq> completed (snd (mark db n s a e))"
  using mark_fail[of n s a e] by (cases db) (auto simp: mark_completes)

lemma mark_completed_iff:
  "completed (snd (mark db n s a e)) = (if db then insert (a, e) (completed s) else completed s)"
  using mark_fail[of n s a e] by (cases db) (auto simp: mark_completes)

lemma mark_result: "fst (mark db n s a e) = Inr () \<longleftrightarrow> db"
  using mark_fail[of n s a e] by (cases db) (auto simp: mark_ok)

end

text \<open>With timestamps and a purge: what a purge keeps.\<close>

locale expiring_log = completion_log wf lookup mark completed
  for wf :: "'s \<Rightarrow> bool"
    and lookup :: "bool \<Rightarrow> 's \<Rightarrow> 'a \<Rightarrow> 'e \<Rightarrow> 'err + bool"
    and mark :: "bool \<Rightarrow> u64 \<Rightarrow> 's \<Rightarrow> 'a \<Rightarrow> 'e \<Rightarrow> ('err + unit) \<times> 's"
    and completed :: "'s \<Rightarrow> ('a \<times> 'e) set" +
  fixes purge :: "bool \<Rightarrow> u64 \<Rightarrow> u64 \<Rightarrow> 's \<Rightarrow> ('err + u64) \<times> 's"
    and stamp :: "'s \<Rightarrow> 'a \<Rightarrow> 'e \<Rightarrow> i64 option"
  assumes completed_stamp: "(a, e) \<in> completed s \<longleftrightarrow> stamp s a e \<noteq> None"
    and mark_stamp: "stamp (snd (mark True n s a e)) a e =
          (case stamp s a e of None \<Rightarrow> Some n | Some t \<Rightarrow> Some t)"
    and purge_stamp: "wf s \<Longrightarrow> stamp (snd (purge True now ttl s)) a e =
          (case stamp s a e of
             None \<Rightarrow> None
           | Some t \<Rightarrow> if t <s saturating_sub now ttl then None else Some t)"
begin

lemma purge_subset: "wf s \<Longrightarrow> completed (snd (purge True now ttl s)) \<subseteq> completed s"
  by (auto simp: completed_stamp purge_stamp split: option.splits if_splits)

lemma purge_lookup:
  "wf s \<Longrightarrow> lookup True (snd (purge True now ttl s)) a e =
     Inr (\<exists>t. stamp s a e = Some t \<and> \<not> t <s saturating_sub now ttl)"
  by (auto simp: lookup_ok completed_stamp purge_stamp split: option.splits)

lemma fresh_mark_purged:
  assumes "wf s" and "stamp s a e = None"
  shows "lookup True (snd (purge True now ttl (snd (mark True t s a e)))) a e =
     Inr (\<not> t <s saturating_sub now ttl)"
  using assms by (simp add: purge_lookup mark_wf mark_stamp)

end

section \<open>The table meets the contract\<close>

definition completed_set :: "dedup_store \<Rightarrow> (agent_id \<times> string) set" where
  "completed_set s = {(a, e). map_of s (as_str a, e) \<noteq> None}"

definition completed_at :: "dedup_store \<Rightarrow> agent_id \<Rightarrow> string \<Rightarrow> i64 option" where
  "completed_at s a e = map_of s (as_str a, e)"

lemma map_of_filter_wf:
  "wf_map m \<Longrightarrow> map_of (filter (\<lambda>(k, v). P v) m) k =
     (case map_of m k of None \<Rightarrow> None | Some v \<Rightarrow> if P v then Some v else None)"
proof (induction m)
  case (Cons kv m)
  then show ?case
    by (cases kv) (auto simp: wf_map_def split: option.splits dest: map_of_SomeD intro: rev_image_eqI)
qed (simp add: wf_map_def)

lemma wf_mark: "wf_dedup s \<Longrightarrow> wf_dedup (snd (mark_completed db now s a e))"
  by (auto simp: mark_completed_def wf_dedup_def wf_map_def map_of_eq_None_iff)

lemma wf_purge: "wf_dedup s \<Longrightarrow> wf_dedup (snd (purge_expired db now ttl s))"
  by (auto simp: purge_expired_def Let_def wf_dedup_def wf_map_def distinct_map inj_on_def)

lemma completed_mark:
  "completed_set (snd (mark_completed True now s a e)) = insert (a, e) (completed_set s)"
  by (auto simp: completed_set_def mark_completed_def map_add_def as_str_def agent_id.expand
      split: option.splits if_splits)

lemma stamp_mark:
  "completed_at (snd (mark_completed True now s a e)) a e =
     (case completed_at s a e of None \<Rightarrow> Some now | Some t \<Rightarrow> Some t)"
  by (auto simp: completed_at_def mark_completed_def map_add_def split: option.splits)

lemma stamp_purge:
  "wf_dedup s \<Longrightarrow> completed_at (snd (purge_expired True now ttl s)) a e =
     (case completed_at s a e of
        None \<Rightarrow> None
      | Some t \<Rightarrow> if t <s saturating_sub now ttl then None else Some t)"
  by (auto simp: completed_at_def purge_expired_def Let_def wf_dedup_def map_of_filter_wf
      split: option.splits)

interpretation dedup: expiring_log wf_dedup is_completed mark_completed completed_set
    purge_expired completed_at
proof unfold_locales
  show "fst (mark_completed True n s a e) = Inr ()" for n s a e
    by (simp add: mark_completed_def)
  show "completed_set (snd (mark_completed True n s a e)) = insert (a, e) (completed_set s)" for n s a e
    by (rule completed_mark)
  show "wf_dedup s \<Longrightarrow> wf_dedup (snd (mark_completed db n s a e))" for s db n a e
    by (rule wf_mark)
  show "completed_at (snd (mark_completed True n s a e)) a e =
      (case completed_at s a e of None \<Rightarrow> Some n | Some t \<Rightarrow> Some t)" for n s a e
    by (rule stamp_mark)
  show "wf_dedup s \<Longrightarrow> completed_at (snd (purge_expired True now ttl s)) a e =
      (case completed_at s a e of None \<Rightarrow> None
       | Some t \<Rightarrow> if t <s saturating_sub now ttl then None else Some t)" for s now ttl a e
    by (rule stamp_purge)
qed (auto simp: is_completed_def mark_completed_def completed_set_def completed_at_def)

section \<open>Retention\<close>

lemma sint_small:
  assumes "unat (w :: i64) < 2 ^ 63" shows "sint w = int (unat w)"
proof -
  have u: "uint w = int (unat w)" by simp
  have "uint w < 2 ^ 63" unfolding u using assms by (simp only: of_nat_less_numeral_power_cancel_iff)
  moreover have "- (2 ^ 63) \<le> uint w"
    by (rule order_trans[OF _ uint_ge_0]) simp
  ultimately have "signed_take_bit 63 (uint w) = uint w"
    by (rule signed_take_bit_int_eq_self[rotated])
  then show ?thesis by (simp add: sint_uint)
qed

text \<open>Before the year 292277026596 (seconds below \<open>2 ^ 63\<close>) the cutoff is plain arithmetic.\<close>

lemma expired_iff:
  assumes "unat now < 2 ^ 63" and "unat t < 2 ^ 63"
  shows "t <s saturating_sub now ttl \<longleftrightarrow> unat t + unat ttl < unat now"
proof -
  have "unat (saturating_sub now ttl) < 2 ^ 63"
    using assms(1) by (simp add: unat_saturating_sub)
  then have "sint (saturating_sub now ttl) = int (unat now - unat ttl)"
    using sint_small unat_saturating_sub by metis
  with sint_small[OF assms(2)] have "t <s saturating_sub now ttl \<longleftrightarrow> unat t < unat now - unat ttl"
    unfolding word_sless_alt by linarith
  then show ?thesis by linarith
qed

text \<open>Until that year the clock reads the seconds, and never goes back when the system clock does not.\<close>

lemma unix_now_seconds:
  assumes "ns < 2 ^ 63 * 1000000000"
  shows "unat (unix_now ns) = nat (ns div 1000000000)" "unat (unix_now ns) < 2 ^ 63"
proof -
  have b: "ns div 1000000000 < 2 ^ 63" using assms by (simp add: div_less_iff_less_mult)
  show u: "unat (unix_now ns) = nat (ns div 1000000000)"
  proof (cases "ns < 0")
    case False
    then have "0 \<le> ns div 1000000000" by (simp add: pos_imp_zdiv_nonneg_iff)
    with b have "uint (word_of_int (ns div 1000000000) :: u64) = ns div 1000000000"
      by (subst uint_word_of_int) (rule mod_pos_pos_trivial; simp)
    with False show ?thesis by (simp add: unix_now_def flip: nat_uint_eq)
  qed (simp add: unix_now_def)
  show "unat (unix_now ns) < 2 ^ 63" unfolding u using b by (simp add: nat_less_iff)
qed

lemma unix_now_mono:
  assumes "ns \<le> ns'" and "ns' < 2 ^ 63 * 1000000000"
  shows "unat (unix_now ns) \<le> unat (unix_now ns')"
proof -
  have "ns < 2 ^ 63 * 1000000000" using assms by linarith
  with assms show ?thesis by (simp add: unix_now_seconds(1) nat_mono zdiv_mono1)
qed

lemma dedup_open_wf:
  "dedup_open env p now ttl = Inr s \<Longrightarrow> de_rows env = Some rows \<Longrightarrow> wf_dedup rows \<Longrightarrow>
     s = snd (purge_expired True now ttl rows) \<and> wf_dedup s"
  using wf_purge[of rows "de_purge env" now ttl]
  by (auto simp: dedup_open_def with_connection_def purge_expired_def Let_def
      split: option.splits if_splits sum.splits prod.splits)

section \<open>Properties\<close>

text \<open>
  C27. Retention across a restart: a completion that is new in the store is still a hit after the store is
  opened again exactly as long as its age does not exceed the time to live, and other completions neither
  appear nor disappear through it.
\<close>

theorem completion_retained:
  assumes "wf_dedup s" and "completed_at s a e = None" and "unat t < 2 ^ 63" and "unat now < 2 ^ 63"
    and "de_rows env = Some (snd (mark_completed True t s a e))" and "dedup_open env p now ttl = Inr s'"
  shows "is_completed True s' a e = Inr (unat now \<le> unat t + unat ttl)"
proof -
  have "wf_dedup (snd (mark_completed True t s a e))" using assms(1) by (rule wf_mark)
  with dedup_open_wf[OF assms(6,5)] have "s' = snd (purge_expired True now ttl (snd (mark_completed True t s a e)))"
    by simp
  with dedup.fresh_mark_purged[OF assms(1,2), of now ttl t] expired_iff[OF assms(4,3), of ttl] show ?thesis
    by (simp add: not_less)
qed

definition demo_dedup_env :: "dedup_store \<Rightarrow> dedup_env" where
  "demo_dedup_env rows =
     \<lparr>de_parent = None, de_mkdir = True, de_rows = Some rows, de_journal = True, de_sync = True,
      de_busy = True, de_schema = True, de_purge = True\<rparr>"

theorem completion_retained_witness:
  "\<exists>s' s''. dedup_open (demo_dedup_env [((''a'', ''e''), 100)]) ''p'' 110 10 = Inr s' \<and>
     dedup_open (demo_dedup_env [((''a'', ''e''), 100)]) ''p'' 111 10 = Inr s'' \<and>
     is_completed True s' (AgentId ''a'') ''e'' = Inr True \<and> is_completed True s'' (AgentId ''a'') ''e'' = Inr False"
proof -
  let ?env = "demo_dedup_env [((''a'', ''e''), 100)]"
  have opens: "\<exists>s'. dedup_open ?env ''p'' now 10 = Inr s'" for now
    by (simp add: dedup_open_def with_connection_def purge_expired_def demo_dedup_env_def Let_def)
  obtain s' where s': "dedup_open ?env ''p'' 110 10 = Inr s'" using opens by blast
  obtain s'' where s'': "dedup_open ?env ''p'' 111 10 = Inr s''" using opens by blast
  have rows: "de_rows ?env = Some (snd (mark_completed True 100 [] (AgentId ''a'') ''e''))"
    by (simp add: demo_dedup_env_def mark_completed_def as_str_def)
  have wf: "wf_dedup []" "completed_at [] (AgentId ''a'') ''e'' = None"
    by (simp_all add: wf_dedup_def wf_map_def completed_at_def)
  have "is_completed True s' (AgentId ''a'') ''e'' = Inr True"
    using completion_retained[OF wf _ _ rows s'] by simp
  moreover have "is_completed True s'' (AgentId ''a'') ''e'' = Inr False"
    using completion_retained[OF wf _ _ rows s''] by simp
  ultimately show ?thesis using s' s'' by blast
qed

end
