(* ===== verification/Envelopes.thy ===== *)
theory Envelopes
  imports Serde
begin

text \<open>
  Event envelopes (\<open>src/event.rs\<close>): the fields agentd reads of an event, and the validation that
  makes an event terminal.  The JSON parser is the parameter \<open>json\<close>.
\<close>

definition ENVELOPE_VERSION :: u32 where
  "ENVELOPE_VERSION = 1"

record event_envelope =
  ev_version :: u32
  ev_event_id :: string
  ev_agent_id :: agent_id
  ev_event_type :: string
  ev_created_at :: string
  ev_payload :: sval
  ev_metadata :: "sval option"

definition envelope_fields :: "string list" where
  "envelope_fields =
     [''version'', ''event_id'', ''agent_id'', ''type'', ''created_at'', ''payload'', ''metadata'']"

definition deserialize_envelope :: "sval \<Rightarrow> event_envelope option" where
  "deserialize_envelope v =
     (case struct_fields False envelope_fields v of
        None \<Rightarrow> None
      | Some fs \<Rightarrow>
          (case (req fs ''version'' as_u32, req fs ''event_id'' as_string,
                 req fs ''agent_id'' deserialize_agent_id, req fs ''type'' as_string,
                 req fs ''created_at'' as_string, req fs ''payload'' as_value,
                 dflt fs ''metadata'' (as_option as_value) None) of
             (Some ver, Some eid, Some aid, Some ty, Some ca, Some pl, Some md) \<Rightarrow>
               Some \<lparr>ev_version = ver, ev_event_id = eid, ev_agent_id = aid, ev_event_type = ty,
                     ev_created_at = ca, ev_payload = pl, ev_metadata = md\<rparr>
           | _ \<Rightarrow> None))"

definition envelope_validate :: "event_envelope \<Rightarrow> unit result" where
  "envelope_validate e =
     (if ev_version e \<noteq> ENVELOPE_VERSION
      then Inl (InvalidEnvelope (UnsupportedVersion (ev_version e)))
      else if trim (ev_event_id e) = [] then Inl (InvalidEnvelope MissingEventId)
      else Inr ())"

definition envelope_parse :: "(string \<Rightarrow> sval option) \<Rightarrow> string \<Rightarrow> event_envelope result" where
  "envelope_parse json bytes =
     (case (case json bytes of None \<Rightarrow> None | Some v \<Rightarrow> deserialize_envelope v) of
        None \<Rightarrow> Inl (InvalidEnvelope UnparseableJson)
      | Some envelope \<Rightarrow>
          (case envelope_validate envelope of Inl e \<Rightarrow> Inl e | Inr _ \<Rightarrow> Inr envelope))"

lemma deserialize_envelope_id: "deserialize_envelope v = Some e \<Longrightarrow> valid_id (ev_agent_id e)"
  by (auto simp: deserialize_envelope_def req_Some dest: deserialize_agent_id_valid
      split: option.splits)

lemma envelope_parse_okD:
  assumes "envelope_parse json bytes = Inr e"
  shows "ev_version e = 1 \<and> trim (ev_event_id e) \<noteq> [] \<and> valid_id (ev_agent_id e)"
  using assms
  by (auto simp: envelope_parse_def envelope_validate_def ENVELOPE_VERSION_def
      dest: deserialize_envelope_id split: option.splits if_splits)

lemma envelope_parse_skip:
  assumes "k \<notin> set envelope_fields" and "json b = Some (VObj (xs @ ys))"
    and "json b' = Some (VObj (xs @ (k, v) # ys))"
  shows "envelope_parse json b' = envelope_parse json b"
  using assms by (simp add: envelope_parse_def deserialize_envelope_def collect_fields_skip)

section \<open>Properties\<close>

text \<open>The JSON object of an envelope, with \<open>metadata\<close> as a field or left out when it is absent.\<close>

definition envelope_object :: "event_envelope \<Rightarrow> (string \<times> sval) list" where
  "envelope_object e =
     [(''version'', VInt (uint (ev_version e))), (''event_id'', VStr (ev_event_id e)),
      (''agent_id'', serialize_agent_id (ev_agent_id e)), (''type'', VStr (ev_event_type e)),
      (''created_at'', VStr (ev_created_at e)), (''payload'', ev_payload e)] @
     (case ev_metadata e of None \<Rightarrow> [] | Some m \<Rightarrow> [(''metadata'', m)])"

text \<open>
  C29. The acceptance of events.  An event that is accepted has version 1, an id that is not blank and an
  agent id of the grammar; and the object of any such envelope is accepted as that envelope, whatever
  other fields the publisher has put before, between or after its own.
\<close>

theorem envelope_acceptance:
  assumes "ev_version e = 1" and "trim (ev_event_id e) \<noteq> []" and "valid_id (ev_agent_id e)"
    and "ev_metadata e \<noteq> Some VNull"
    and "filter (\<lambda>(k, v). k \<in> set envelope_fields) fs = envelope_object e"
    and "json b = Some (VObj fs)"
  shows "envelope_parse json b = Inr e"
proof -
  have "collect_fields False envelope_fields fs [] = collect_fields False envelope_fields (envelope_object e) []"
    unfolding assms(5)[symmetric] by (rule collect_fields_filter)
  also have "\<dots> = Some (rev (envelope_object e))"
    by (cases "ev_metadata e") (simp_all add: envelope_object_def envelope_fields_def)
  finally have f: "struct_fields False envelope_fields (VObj fs) = Some (map_of (rev (envelope_object e)))"
    by simp
  have "deserialize_envelope (VObj fs) = Some e"
    unfolding deserialize_envelope_def f
    using assms(1,3,4) agent_id_serde[of "ev_agent_id e"]
    by (cases "ev_metadata e"; cases e)
      (auto simp: envelope_object_def req_def dflt_def as_option_def as_value_def)
  with assms(1,2,6) show ?thesis
    by (simp add: envelope_parse_def envelope_validate_def ENVELOPE_VERSION_def)
qed

theorem envelope_acceptance_witness:
  "envelope_parse
     (\<lambda>_. Some (VObj [(''trace'', VInt 3), (''version'', VInt 1), (''event_id'', VStr ''e''), (''agent_id'', VStr ''a''),
        (''type'', VStr ''t''), (''created_at'', VStr ''c''), (''extra'', VNull), (''payload'', VNull)])) [] =
   Inr \<lparr>ev_version = 1, ev_event_id = ''e'', ev_agent_id = AgentId ''a'', ev_event_type = ''t'',
        ev_created_at = ''c'', ev_payload = VNull, ev_metadata = None\<rparr>"
proof (rule envelope_acceptance)
  show "trim (ev_event_id \<lparr>ev_version = 1, ev_event_id = ''e'', ev_agent_id = AgentId ''a'', ev_event_type = ''t'',
        ev_created_at = ''c'', ev_payload = VNull, ev_metadata = None\<rparr>) \<noteq> []" by code_simp
  show "valid_id (ev_agent_id \<lparr>ev_version = 1, ev_event_id = ''e'', ev_agent_id = AgentId ''a'', ev_event_type = ''t'',
        ev_created_at = ''c'', ev_payload = VNull, ev_metadata = None\<rparr>)" by code_simp
qed (simp_all add: envelope_fields_def envelope_object_def serialize_agent_id_def as_str_def)

text \<open>
  C31. What reaches the dispatcher: an accepted event has version 1, an id that is not blank and an agent id of
  the grammar; every other text gives the error that makes it terminal.
\<close>

theorem envelope_rejection:
  "case envelope_parse json b of
     Inr e \<Rightarrow> ev_version e = 1 \<and> trim (ev_event_id e) \<noteq> [] \<and> is_agent_id (raw_id (ev_agent_id e))
   | Inl e \<Rightarrow> (\<exists>x. e = InvalidEnvelope x)"
proof (cases "envelope_parse json b")
  case (Inl x)
  then have "\<exists>y. x = InvalidEnvelope y"
    unfolding envelope_parse_def envelope_validate_def
    by (auto simp del: not_None_eq split: option.split_asm if_split_asm)
  with Inl show ?thesis by simp
next
  case (Inr e)
  with envelope_parse_okD[OF Inr] show ?thesis by (simp add: valid_id_iff)
qed

end
