(* ===== verification/Logging.thy ===== *)
theory Logging
  imports AgentIds
begin

text \<open>
  Logging (\<open>src/logging.rs\<close>): the must-log events of the dispatch path as values, the choice of the
  log filter, and the redaction of credentials in relay URLs.  The filter parser of
  \<open>tracing-subscriber\<close> is the parameter \<open>try_new\<close>.
\<close>

section \<open>Events\<close>

text \<open>Why an event is invalid: the argument of \<open>events::invalid_event\<close>.\<close>

datatype event_fault =
    Exceeds_Size_Limit nat nat
  | Bad_Envelope agentd_error
  | Agent_Mismatch agent_id agent_id

text \<open>
  One constructor per helper of the module \<open>events\<close> the dispatcher uses, and one per direct
  \<open>tracing\<close> call of the dispatcher.
\<close>

datatype log_event =
    Event_Received
  | Dedup_Hit
  | In_Flight_Duplicate_Dropped
  | Invalid_Event event_fault
  | Handler_Spawned path u32
  | Handler_Spawn_Failed path
  | Handler_Exited int u64
  | Ack_Success
  | Ack_Failure
  | Delivery_For_Unregistered agent_id
  | Delivery_For_Disabled agent_id
  | Dedup_Lookup_Failed agent_id
  | Dedup_Mark_Failed agent_id
  | Wait_Failed agent_id
  | Slow_Handler agent_id u64

text \<open>The lifecycle lines of the relay and the registry.\<close>

datatype relay_event =
    Nats_Connected string
  | Nats_Disconnected
  | Lame_Duck_Mode
  | Agent_Registered agent_id
  | Agent_Updated agent_id
  | Agent_Unregistered agent_id
  | Consumer_Bound agent_id string
  | Consumer_Bind_Failed agent_id
  | Consumer_Rebind_Failed agent_id

section \<open>Spans\<close>

text \<open>
  A span: its parent, its name and its fields.  A line that is emitted while a span is entered carries the
  fields of the span and of all its ancestors.
\<close>

datatype field_value = Text string | Number nat

datatype span = Span "span option" string "(string \<times> field_value) list"

definition dispatch_span :: "agent_id \<Rightarrow> string \<Rightarrow> string \<Rightarrow> u64 \<Rightarrow> span" where
  "dispatch_span a event_id consumer sequence =
     Span None ''dispatch''
       [(''agent_id'', Text (as_str a)), (''event_id'', Text event_id), (''consumer'', Text consumer),
        (''stream_sequence'', Number (unat sequence))]"

definition handler_span :: "span \<Rightarrow> path \<Rightarrow> u32 \<Rightarrow> span" where
  "handler_span parent handler_path pid =
     Span (Some parent) ''handler'' [(''handler_path'', Text handler_path), (''handler_pid'', Number (unat pid))]"

fun span_fields :: "span \<Rightarrow> (string \<times> field_value) list" where
  "span_fields (Span None n fs) = fs"
| "span_fields (Span (Some parent) n fs) = span_fields parent @ fs"

text \<open>The fields a line has by itself.\<close>

fun event_field_names :: "log_event \<Rightarrow> string list" where
  "event_field_names (Invalid_Event r) = [''reason'']"
| "event_field_names (Handler_Spawned path pid) = [''handler_path'', ''handler_pid'']"
| "event_field_names (Handler_Spawn_Failed path) = [''handler_path'', ''error'']"
| "event_field_names (Handler_Exited status ms) = [''exit_status'', ''duration_ms'']"
| "event_field_names Ack_Failure = [''error'']"
| "event_field_names (Delivery_For_Unregistered a) = [''agent_id'']"
| "event_field_names (Delivery_For_Disabled a) = [''agent_id'']"
| "event_field_names (Dedup_Lookup_Failed a) = [''agent_id'']"
| "event_field_names (Dedup_Mark_Failed a) = [''agent_id'']"
| "event_field_names (Wait_Failed a) = [''agent_id'']"
| "event_field_names (Slow_Handler a ms) = [''agent_id'', ''handler_path'', ''duration_ms'']"
| "event_field_names Event_Received = []"
| "event_field_names Dedup_Hit = []"
| "event_field_names In_Flight_Duplicate_Dropped = []"
| "event_field_names Ack_Success = []"

section \<open>The filter\<close>

text \<open>
  \<open>build_filter\<close>: the filter, and the \<open>RUST_LOG\<close> values reported as ignored on stderr.
\<close>

definition build_filter ::
    "(string \<Rightarrow> 'f option) \<Rightarrow> string option \<Rightarrow> string \<Rightarrow> 'f result \<times> string list" where
  "build_filter try_new env config_level =
     (let fallback = (case try_new config_level of
                        None \<Rightarrow> Inl (Config (InvalidLogLevel config_level))
                      | Some f \<Rightarrow> Inr f)
      in case (case env of None \<Rightarrow> None
               | Some e \<Rightarrow> if trim e = [] then None else Some (trim e)) of
           None \<Rightarrow> (fallback, [])
         | Some raw \<Rightarrow>
             (case try_new raw of
                Some f \<Rightarrow> (Inr f, [])
              | None \<Rightarrow> (fallback, [raw])))"

text \<open>\<open>init\<close>: \<open>installed\<close> is whether the global subscriber could be set.\<close>

definition init_logging ::
    "(string \<Rightarrow> 'f option) \<Rightarrow> string option \<Rightarrow> bool \<Rightarrow> string \<Rightarrow> 'f result \<times> string list" where
  "init_logging try_new rust_log installed level =
     (case build_filter try_new rust_log level of
        (Inl e, w) \<Rightarrow> (Inl e, w)
      | (Inr f, w) \<Rightarrow> (if installed then (Inr f, w) else (Inl (Config SubscriberFailed), w)))"

section \<open>Redaction\<close>

definition redact_url :: "string \<Rightarrow> string" where
  "redact_url url =
     (let authority_start = (case find_sub ''://'' url of Some scheme_end \<Rightarrow> scheme_end + 3 | None \<Rightarrow> 0);
          authority_end = (case find_char (CHR ''/'') (drop authority_start url) of
                             None \<Rightarrow> length url
                           | Some i \<Rightarrow> authority_start + i)
      in case rfind_char (CHR ''@'') (drop authority_start (take authority_end url)) of
           None \<Rightarrow> url
         | Some at \<Rightarrow>
             take authority_start url @ ''***'' @ drop (authority_start + at) url)"

text \<open>The text before the authority, as the code finds it.\<close>

definition scheme_part :: "string \<Rightarrow> string" where
  "scheme_part url = (case find_sub ''://'' url of Some i \<Rightarrow> take (i + 3) url | None \<Rightarrow> [])"

lemma find_sub_None_suffix: "find_sub p (a @ b) = None \<Longrightarrow> find_sub p b = None"
  by (induction a) (auto split: if_splits)

lemma scheme_part_len:
  "length (scheme_part url) = (case find_sub ''://'' url of Some i \<Rightarrow> i + 3 | None \<Rightarrow> 0)"
  by (auto simp: scheme_part_def split: option.splits dest: find_sub_SomeD)

lemma scheme_part_prefix: "take (length (scheme_part url)) url = scheme_part url"
  by (auto simp: scheme_part_def min_absorb2 dest: find_sub_SomeD split: option.splits)

text \<open>
  What redaction does to a URL taken apart: scheme, user information, host, and the rest from the
  first slash of the authority on.
\<close>

lemma redact_parts:
  assumes scheme: "scheme_part (p @ u @ CHR ''@'' # h @ r) = p"
    and u: "CHR ''/'' \<notin> set u" and h: "CHR ''/'' \<notin> set h" "CHR ''@'' \<notin> set h"
    and r: "r = [] \<or> hd r = CHR ''/''"
  shows "redact_url (p @ u @ CHR ''@'' # h @ r) = p @ ''***@'' @ h @ r"
proof -
  let ?url = "p @ u @ CHR ''@'' # h @ r" and ?auth = "u @ CHR ''@'' # h"
  have s: "(case find_sub ''://'' ?url of Some i \<Rightarrow> i + 3 | None \<Rightarrow> 0) = length p"
    using scheme_part_len[of ?url] by (simp only: scheme)
  have d: "drop (length p) ?url = ?auth @ r" by simp
  have e: "(case find_char (CHR ''/'') (?auth @ r) of None \<Rightarrow> length ?url | Some i \<Rightarrow> length p + i)
      = length p + length ?auth"
  proof -
    have auth: "CHR ''/'' \<notin> set ?auth" using u h by auto
    have len: "length ?url = length p + length (?auth @ r)" by simp
    show ?thesis unfolding len by (rule find_char_or_end[OF auth r])
  qed
  have t: "drop (length p) (take (length p + length ?auth) ?url) = ?auth" by simp
  have f: "rfind_char (CHR ''@'') ?auth = Some (length u)"
    using h(2) by (rule rfind_char_append)
  show ?thesis
    unfolding redact_url_def Let_def s d e t f by simp
qed

text \<open>Every URL is either left alone or has such parts.\<close>

lemma redact_cases:
  obtains (same) "redact_url url = url"
  | (parts) p u h r where "url = p @ u @ CHR ''@'' # h @ r" "scheme_part url = p"
      "CHR ''/'' \<notin> set u" "CHR ''/'' \<notin> set h" "CHR ''@'' \<notin> set h" "r = [] \<or> hd r = CHR ''/''"
proof -
  define p where "p = scheme_part url"
  define a where "a = takeWhile (\<lambda>c. c \<noteq> CHR ''/'') (drop (length p) url)"
  define r where "r = dropWhile (\<lambda>c. c \<noteq> CHR ''/'') (drop (length p) url)"
  have url: "url = p @ a @ r"
    using scheme_part_prefix[of url] by (metis a_def append_take_drop_id p_def r_def takeWhile_dropWhile_id)
  have a: "CHR ''/'' \<notin> set a" by (auto simp: a_def dest: set_takeWhileD)
  have r: "r = [] \<or> hd r = CHR ''/''"
    using hd_dropWhile[of "\<lambda>c. c \<noteq> CHR ''/''" "drop (length p) url"] by (auto simp: r_def)
  show ?thesis
  proof (cases "rfind_char (CHR ''@'') a")
    case None
    have s: "(case find_sub ''://'' url of Some i \<Rightarrow> i + 3 | None \<Rightarrow> 0) = length p"
      using scheme_part_len[of url] by (simp add: p_def)
    have e: "(case find_char (CHR ''/'') (a @ r) of None \<Rightarrow> length url | Some i \<Rightarrow> length p + i)
        = length p + length a"
    proof -
      have len: "length url = length p + length (a @ r)" using url by simp
      show ?thesis unfolding len by (rule find_char_or_end[OF a r])
    qed
    have "drop (length p) url = a @ r" "drop (length p) (take (length p + length a) url) = a"
      using url by simp_all
    with None s e have "redact_url url = url"
      by (simp add: redact_url_def Let_def)
    then show ?thesis by (rule same)
  next
    case (Some i)
    then have i: "i < length a" "a ! i = CHR ''@''" "CHR ''@'' \<notin> set (drop (Suc i) a)"
      by (auto dest: rfind_char_SomeD)
    have dec: "a = take i a @ CHR ''@'' # drop (Suc i) a"
      using i by (metis id_take_nth_drop)
    show ?thesis
    proof (rule parts)
      show "url = p @ take i a @ CHR ''@'' # drop (Suc i) a @ r"
        using url dec by (metis append_Cons append_assoc)
      show "CHR ''/'' \<notin> set (take i a)" "CHR ''/'' \<notin> set (drop (Suc i) a)"
        using a by (auto dest: in_set_takeD in_set_dropD)
    qed (use p_def i r in auto)
  qed
qed

section \<open>Properties\<close>

lemma find_sub_stars:
  "find_sub ''://'' (''***@'' @ t) = map_option (\<lambda>i. Suc (Suc (Suc (Suc i)))) (find_sub ''://'' t)"
  by (auto simp: option.map_comp comp_def)

lemma scheme_part_stars:
  assumes "scheme_part (p @ u @ t) = p"
  shows "scheme_part (p @ ''***@'' @ t) = p"
proof (cases "find_sub ''://'' (p @ u @ t)")
  case None
  with assms have p: "p = []" by (simp add: scheme_part_def)
  with None find_sub_None_suffix[of "''://''" u t] have "find_sub ''://'' t = None" by simp
  then show ?thesis unfolding p scheme_part_def append_Nil find_sub_stars by simp
next
  case (Some i)
  with assms have p: "p = take (i + 3) (p @ u @ t)" by (simp add: scheme_part_def)
  have three: "i + length ''://'' = i + 3" by simp
  have "find_sub ''://'' (p @ ''***@'' @ t) = Some i"
    using find_sub_take[OF Some, of "''***@'' @ t"] unfolding three p[symmetric] .
  moreover have "length p = i + 3"
  proof -
    have "i + 3 \<le> length (p @ u @ t)" using find_sub_SomeD[OF Some] three by metis
    then have "length (take (i + 3) (p @ u @ t)) = i + 3" by (simp only: length_take min_absorb2)
    then show ?thesis unfolding p[symmetric] .
  qed
  ultimately show ?thesis by (simp add: scheme_part_def)
qed

text \<open>
  A URL with user information is logged with the user information replaced, whatever it is, and with
  everything else as it is; redacting again changes nothing.
\<close>

theorem redact_hides_userinfo:
  assumes "scheme_part (p @ u @ CHR ''@'' # h @ r) = p" and "CHR ''/'' \<notin> set u"
    and "CHR ''/'' \<notin> set h" and "CHR ''@'' \<notin> set h" and "r = [] \<or> hd r = CHR ''/''"
  shows "redact_url (p @ u @ CHR ''@'' # h @ r) = p @ ''***@'' @ h @ r \<and>
     redact_url (redact_url (p @ u @ CHR ''@'' # h @ r)) = redact_url (p @ u @ CHR ''@'' # h @ r)"
proof -
  note once = redact_parts[OF assms]
  have "scheme_part (p @ (u @ ''@'') @ h @ r) = p" using assms(1) by simp
  from scheme_part_stars[OF this] have "scheme_part (p @ ''***'' @ CHR ''@'' # h @ r) = p" by simp
  from redact_parts[OF this _ assms(3-5)] have "redact_url (p @ ''***@'' @ h @ r) = p @ ''***@'' @ h @ r" by simp
  with once show ?thesis by simp
qed

theorem redact_hides_userinfo_witness:
  "redact_url ''nats://bot:hunter@2@h:4222/x@y'' = ''nats://***@h:4222/x@y''"
proof -
  have "scheme_part (''nats://'' @ ''bot:hunter@2'' @ CHR ''@'' # ''h:4222'' @ ''/x@y'') = ''nats://''"
    by code_simp
  from redact_hides_userinfo[OF this] show ?thesis by simp
qed

end
