(* ===== verification/Dispatcher.thy ===== *)
theory Dispatcher
  imports Registry Dedup Envelopes Logging
begin

text \<open>
  The dispatcher (\<open>src/dispatcher.rs\<close>): its shared state, and one dispatch cut into the sections
  that run without interleaving.  \<open>dispatch\<close> is an async function on a multi-threaded runtime, so
  another task can run at every await point and between two critical sections; the program counter
  \<open>pc\<close> names these points and carries the local variables that are live there, and \<open>advance\<close> is the
  code from one point to the next.

  A semaphore is a cell of a heap (\<open>Arc<Semaphore>\<close> is its index), because a task keeps the semaphore
  it queued on after the agent's state has been replaced.  The answers of the environment (SQLite,
  the operating system, the relay, the clock) are the record \<open>answers\<close>.  Poisoned locks, which take
  a panic elsewhere, are not modelled, nor is the order in which a semaphore serves its waiters.
\<close>

section \<open>State\<close>

record delivery =
  dl_agent :: agent_id
  dl_raw :: string
  dl_stream_sequence :: u64
  dl_consumer_sequence :: u64
  dl_delivery_count :: u64

record semaphore =
  sem_capacity :: nat
  sem_available :: nat

record agent_state =
  st_permits :: nat
  st_in_flight :: "string set"

record dispatcher =
  dp_registry :: registry
  dp_dedup :: dedup_store
  dp_slow_handler_warn :: u64
  dp_max_event_bytes :: u64
  dp_states :: "(agent_id \<times> agent_state) list"
  dp_sems :: "semaphore list"

definition dispatcher_new :: "registry \<Rightarrow> dedup_store \<Rightarrow> u64 \<Rightarrow> u64 \<Rightarrow> dispatcher" where
  "dispatcher_new r s slow maxb =
     \<lparr>dp_registry = r, dp_dedup = s, dp_slow_handler_warn = slow, dp_max_event_bytes = maxb,
      dp_states = [], dp_sems = []\<rparr>"

section \<open>Operations on the shared state\<close>

text \<open>\<open>Semaphore::new(max_concurrency)\<close> in a fresh cell when the agent has no state yet.\<close>

definition ensure_state :: "agent_id \<Rightarrow> u32 \<Rightarrow> dispatcher \<Rightarrow> nat \<times> dispatcher" where
  "ensure_state a mc D =
     (case map_of (dp_states D) a of
        Some st \<Rightarrow> (st_permits st, D)
      | None \<Rightarrow>
          let k = length (dp_sems D) in
          (k, D\<lparr>dp_sems := dp_sems D @ [\<lparr>sem_capacity = unat mc, sem_available = unat mc\<rparr>],
                dp_states := AList.update a \<lparr>st_permits = k, st_in_flight = {}\<rparr> (dp_states D)\<rparr>))"

definition available :: "agent_id \<Rightarrow> dispatcher \<Rightarrow> nat \<times> dispatcher" where
  "available a D =
     (case get (dp_registry D) a of
        Some c \<Rightarrow>
          if enabled c
          then (case ensure_state a (max_concurrency c) D of
                  (k, D') \<Rightarrow> (sem_available (dp_sems D' ! k), D'))
          else (0, D)
      | None \<Rightarrow> (0, D))"

text \<open>\<open>Dispatcher::apply_changes\<close>: the state of every changed agent is forgotten.\<close>

fun remove_states :: "change list \<Rightarrow> (agent_id \<times> agent_state) list \<Rightarrow> (agent_id \<times> agent_state) list" where
  "remove_states [] sts = sts"
| "remove_states (c # cs) sts = remove_states cs (AList.delete (change_agent_id c) sts)"

definition dispatcher_apply_changes :: "change list \<Rightarrow> dispatcher \<Rightarrow> dispatcher" where
  "dispatcher_apply_changes cs D = D\<lparr>dp_states := remove_states cs (dp_states D)\<rparr>"

definition in_flight :: "agent_id \<Rightarrow> dispatcher \<Rightarrow> nat" where
  "in_flight a D = (case map_of (dp_states D) a of Some st \<Rightarrow> card (st_in_flight st) | None \<Rightarrow> 0)"

definition remove_in_flight :: "agent_id \<Rightarrow> string \<Rightarrow> dispatcher \<Rightarrow> dispatcher" where
  "remove_in_flight a e D =
     (case map_of (dp_states D) a of
        Some st \<Rightarrow> D\<lparr>dp_states := AList.update a (st\<lparr>st_in_flight := st_in_flight st - {e}\<rparr>) (dp_states D)\<rparr>
      | None \<Rightarrow> D)"

definition take_permit :: "nat \<Rightarrow> dispatcher \<Rightarrow> dispatcher option" where
  "take_permit k D =
     (if k < length (dp_sems D) \<and> 0 < sem_available (dp_sems D ! k)
      then Some (D\<lparr>dp_sems := (dp_sems D)[k := (dp_sems D ! k)\<lparr>sem_available := sem_available (dp_sems D ! k) - 1\<rparr>]\<rparr>)
      else None)"

definition drop_permit :: "nat \<Rightarrow> dispatcher \<Rightarrow> dispatcher" where
  "drop_permit k D =
     D\<lparr>dp_sems := (dp_sems D)[k := (dp_sems D ! k)\<lparr>sem_available := sem_available (dp_sems D ! k) + 1\<rparr>]\<rparr>"

section \<open>Effects and program points\<close>

record spawn_request =
  sp_program :: path
  sp_env :: "(string \<times> string) list"
  sp_cwd :: "path option"
  sp_stdin :: string

datatype effect =
    Log log_event
  | Spawn spawn_request
  | Ack_Sent bool
  | Term_Sent bool

record dispatch_ctx =
  cx_envelope :: event_envelope
  cx_config :: agent_config
  cx_permits :: nat

datatype outcome = Acked bool | Termed bool | Dropped

datatype pc =
    Entered
  | Rejecting                             \<comment> \<open>awaiting \<open>term\<close>, no permit held\<close>
  | Gated event_envelope agent_config     \<comment> \<open>checked against the registry\<close>
  | Queued dispatch_ctx                   \<comment> \<open>awaiting a permit\<close>
  | Admitted dispatch_ctx                 \<comment> \<open>permit held, before the dedup check\<close>
  | Hit_Acking dispatch_ctx               \<comment> \<open>already completed, awaiting \<open>ack\<close>\<close>
  | Missed dispatch_ctx                   \<comment> \<open>not completed, before the in-flight check\<close>
  | Claimed dispatch_ctx                  \<comment> \<open>in the in-flight set, before spawning\<close>
  | Spawn_Failed dispatch_ctx
  | Terminating dispatch_ctx              \<comment> \<open>awaiting \<open>term\<close>, permit held\<close>
  | Running dispatch_ctx u32
  | Exited dispatch_ctx                   \<comment> \<open>before recording completion\<close>
  | Recorded dispatch_ctx                 \<comment> \<open>before leaving the in-flight set\<close>
  | Acking dispatch_ctx                   \<comment> \<open>awaiting the final \<open>ack\<close>\<close>
  | Finished outcome

datatype wait_status = Exit_Code int | Killed_By int | Unknown_Status

definition exit_status_of :: "wait_status \<Rightarrow> int" where
  "exit_status_of st = (case st of Exit_Code c \<Rightarrow> c | Killed_By sig \<Rightarrow> - sig | Unknown_Status \<Rightarrow> - 1)"

record answers =
  an_term :: bool
  an_dedup_read :: bool
  an_spawn :: "u32 option"                \<comment> \<open>the child's pid, or a spawn failure\<close>
  an_wait :: "wait_status option"
  an_elapsed_ns :: nat
  an_elapsed_again_ns :: nat
  an_dedup_mark :: bool
  an_now :: u64
  an_ack :: bool

section \<open>The sections of dispatch\<close>

abbreviation event_of :: "dispatch_ctx \<Rightarrow> string" where
  "event_of cx \<equiv> ev_event_id (cx_envelope cx)"

text \<open>Size gate, envelope validation, registration check.\<close>

definition gate :: "(string \<Rightarrow> sval option) \<Rightarrow> dispatcher \<Rightarrow> delivery \<Rightarrow> log_event + event_envelope \<times> agent_config" where
  "gate json D dl =
     (if unat (dp_max_event_bytes D) < length (dl_raw dl)
      then Inl (Invalid_Event (Exceeds_Size_Limit (length (dl_raw dl)) (unat (dp_max_event_bytes D))))
      else case envelope_parse json (dl_raw dl) of
        Inl e \<Rightarrow> Inl (Invalid_Event (Bad_Envelope e))
      | Inr envelope \<Rightarrow>
          if ev_agent_id envelope \<noteq> dl_agent dl
          then Inl (Invalid_Event (Agent_Mismatch (ev_agent_id envelope) (dl_agent dl)))
          else case get (dp_registry D) (dl_agent dl) of
            None \<Rightarrow> Inl (Delivery_For_Unregistered (dl_agent dl))
          | Some c \<Rightarrow>
              if \<not> enabled c then Inl (Delivery_For_Disabled (dl_agent dl))
              else Inr (envelope, c))"

definition enter :: "(string \<Rightarrow> sval option) \<Rightarrow> dispatcher \<Rightarrow> delivery \<Rightarrow> dispatcher \<times> pc \<times> effect list" where
  "enter json D dl =
     (case gate json D dl of
        Inl l \<Rightarrow> (D, Rejecting, [Log l])
      | Inr (envelope, c) \<Rightarrow> (D, Gated envelope c, [Log Event_Received]))"

text \<open>Completed dedup, failing open on a store error.\<close>

definition check_completed :: "answers \<Rightarrow> dispatcher \<Rightarrow> delivery \<Rightarrow> dispatch_ctx \<Rightarrow> dispatcher \<times> pc \<times> effect list" where
  "check_completed an D dl cx =
     (case is_completed (an_dedup_read an) (dp_dedup D) (dl_agent dl) (event_of cx) of
        Inr True \<Rightarrow> (D, Hit_Acking cx, [Log Dedup_Hit])
      | Inr False \<Rightarrow> (D, Missed cx, [])
      | Inl e \<Rightarrow> (D, Missed cx, [Log (Dedup_Lookup_Failed (dl_agent dl))]))"

text \<open>
  In-flight check-and-insert, one critical section.  \<open>entry(..).or_insert_with(..)\<close> puts back a state
  with the semaphore this task holds when the agent's state is gone.
\<close>

definition claim :: "dispatcher \<Rightarrow> delivery \<Rightarrow> dispatch_ctx \<Rightarrow> dispatcher \<times> pc \<times> effect list" where
  "claim D dl cx =
     (let entry = (case map_of (dp_states D) (dl_agent dl) of
                     Some st \<Rightarrow> st
                   | None \<Rightarrow> \<lparr>st_permits = cx_permits cx, st_in_flight = {}\<rparr>)
      in if event_of cx \<in> st_in_flight entry
         then (drop_permit (cx_permits cx) (D\<lparr>dp_states := AList.update (dl_agent dl) entry (dp_states D)\<rparr>),
               Finished Dropped, [Log In_Flight_Duplicate_Dropped])
         else (D\<lparr>dp_states := AList.update (dl_agent dl)
                   (entry\<lparr>st_in_flight := insert (event_of cx) (st_in_flight entry)\<rparr>) (dp_states D)\<rparr>,
               Claimed cx, []))"

text \<open>The command: program, environment, working directory, and the original bytes on stdin.\<close>

definition handler_command :: "delivery \<Rightarrow> dispatch_ctx \<Rightarrow> spawn_request" where
  "handler_command dl cx =
     \<lparr>sp_program = handler (cx_config cx),
      sp_env =
        [(''AGENTD_AGENT_ID'', as_str (dl_agent dl)),
         (''AGENTD_EVENT_ID'', event_of cx),
         (''AGENTD_EVENT_TYPE'', ev_event_type (cx_envelope cx)),
         (''AGENTD_STREAM_SEQUENCE'', show_nat (unat (dl_stream_sequence dl))),
         (''AGENTD_CONSUMER_SEQUENCE'', show_nat (unat (dl_consumer_sequence dl))),
         (''AGENTD_DELIVERY_COUNT'', show_nat (unat (dl_delivery_count dl)))],
      sp_cwd = working_directory (cx_config cx),
      sp_stdin = dl_raw dl\<rparr>"

definition spawn_handler :: "answers \<Rightarrow> dispatcher \<Rightarrow> delivery \<Rightarrow> dispatch_ctx \<Rightarrow> dispatcher \<times> pc \<times> effect list" where
  "spawn_handler an D dl cx =
     (case an_spawn an of
        None \<Rightarrow> (D, Spawn_Failed cx, [Log (Handler_Spawn_Failed (handler (cx_config cx)))])
      | Some pid \<Rightarrow>
          (D, Running cx pid,
           [Spawn (handler_command dl cx), Log (Handler_Spawned (handler (cx_config cx)) pid)]))"

text \<open>The handler has exited: its status, the duration in milliseconds as u64, the slow warning.\<close>

definition reap :: "answers \<Rightarrow> dispatcher \<Rightarrow> delivery \<Rightarrow> dispatch_ctx \<Rightarrow> dispatcher \<times> pc \<times> effect list" where
  "reap an D dl cx =
     (let duration_ms = of_nat (an_elapsed_ns an div 1000000) in
      (D, Exited cx,
       (case an_wait an of
          Some st \<Rightarrow> [Log (Handler_Exited (exit_status_of st) duration_ms)]
        | None \<Rightarrow> [Log (Wait_Failed (dl_agent dl)), Log (Handler_Exited (- 1) duration_ms)]) @
       (if unat (dp_slow_handler_warn D) * 1000000000 < an_elapsed_again_ns an
        then [Log (Slow_Handler (dl_agent dl) duration_ms)] else [])))"

definition record_completion :: "answers \<Rightarrow> dispatcher \<Rightarrow> delivery \<Rightarrow> dispatch_ctx \<Rightarrow> dispatcher \<times> pc \<times> effect list" where
  "record_completion an D dl cx =
     (case mark_completed (an_dedup_mark an) (an_now an) (dp_dedup D) (dl_agent dl) (event_of cx) of
        (Inl e, s) \<Rightarrow> (D\<lparr>dp_dedup := s\<rparr>, Recorded cx, [Log (Dedup_Mark_Failed (dl_agent dl))])
      | (Inr _, s) \<Rightarrow> (D\<lparr>dp_dedup := s\<rparr>, Recorded cx, []))"

definition ack_delivery :: "answers \<Rightarrow> dispatcher \<Rightarrow> dispatch_ctx \<Rightarrow> dispatcher \<times> pc \<times> effect list" where
  "ack_delivery an D cx =
     (drop_permit (cx_permits cx) D, Finished (Acked (an_ack an)),
      [Ack_Sent (an_ack an), Log (if an_ack an then Ack_Success else Ack_Failure)])"

text \<open>From one point to the next; \<open>None\<close> at the end, and while no permit is free.\<close>

fun advance :: "(string \<Rightarrow> sval option) \<Rightarrow> answers \<Rightarrow> dispatcher \<Rightarrow> delivery \<Rightarrow> pc \<Rightarrow>
    (dispatcher \<times> pc \<times> effect list) option" where
  "advance json an D dl Entered = Some (enter json D dl)"
| "advance json an D dl Rejecting = Some (D, Finished (Termed (an_term an)), [Term_Sent (an_term an)])"
| "advance json an D dl (Gated envelope c) =
     (case ensure_state (dl_agent dl) (max_concurrency c) D of
        (k, D') \<Rightarrow> Some (D', Queued \<lparr>cx_envelope = envelope, cx_config = c, cx_permits = k\<rparr>, []))"
| "advance json an D dl (Queued cx) = map_option (\<lambda>D'. (D', Admitted cx, [])) (take_permit (cx_permits cx) D)"
| "advance json an D dl (Admitted cx) = Some (check_completed an D dl cx)"
| "advance json an D dl (Hit_Acking cx) = Some (ack_delivery an D cx)"
| "advance json an D dl (Missed cx) = Some (claim D dl cx)"
| "advance json an D dl (Claimed cx) = Some (spawn_handler an D dl cx)"
| "advance json an D dl (Spawn_Failed cx) =
     Some (remove_in_flight (dl_agent dl) (event_of cx) D, Terminating cx, [])"
| "advance json an D dl (Terminating cx) =
     Some (drop_permit (cx_permits cx) D, Finished (Termed (an_term an)), [Term_Sent (an_term an)])"
| "advance json an D dl (Running cx pid) = Some (reap an D dl cx)"
| "advance json an D dl (Exited cx) = Some (record_completion an D dl cx)"
| "advance json an D dl (Recorded cx) =
     Some (remove_in_flight (dl_agent dl) (event_of cx) D, Acking cx, [])"
| "advance json an D dl (Acking cx) = Some (ack_delivery an D cx)"
| "advance json an D dl (Finished out) = None"

section \<open>One dispatch alone\<close>

text \<open>
  \<open>dispatch\<close> with nothing interleaved: at most ten sections, so the fuel of \<open>dispatch\<close> below is
  enough (\<open>run_task_enough\<close>).
\<close>

fun run_task :: "nat \<Rightarrow> (string \<Rightarrow> sval option) \<Rightarrow> answers \<Rightarrow> dispatcher \<Rightarrow> delivery \<Rightarrow> pc \<Rightarrow>
    dispatcher \<times> pc \<times> effect list" where
  "run_task 0 json an D dl p = (D, p, [])"
| "run_task (Suc n) json an D dl p =
     (case advance json an D dl p of
        None \<Rightarrow> (D, p, [])
      | Some (D', p', es) \<Rightarrow>
          (case run_task n json an D' dl p' of (D'', p'', es') \<Rightarrow> (D'', p'', es @ es')))"

definition dispatch :: "(string \<Rightarrow> sval option) \<Rightarrow> answers \<Rightarrow> dispatcher \<Rightarrow> delivery \<Rightarrow>
    dispatcher \<times> pc \<times> effect list" where
  "dispatch json an D dl = run_task 10 json an D dl Entered"

end
