(* ===== verification/DaemonConfigs.thy ===== *)
theory DaemonConfigs
  imports Serde
begin

text \<open>
  Daemon configuration (\<open>src/config.rs\<close>): the record and its defaults, loading and validation, the
  resolved paths and the dedup retention.  The TOML parser (\<open>toml\<close>), the file's text (\<open>None\<close> when it
  cannot be read) and the XDG directories of the \<open>dirs\<close> crate are parameters.
\<close>

record daemon_config =
  nats_url :: string
  nats_creds :: "path option"
  stream_name :: string
  agents_dir :: "path option"
  control_socket :: "path option"
  dedup_path :: "path option"
  max_event_bytes :: u64
  dedup_ttl_days :: u64
  ack_wait_secs :: u64
  ack_progress_interval_secs :: u64
  slow_handler_warn_secs :: u64
  log_level :: string

definition default_config :: daemon_config where
  "default_config =
     \<lparr>nats_url = ''nats://127.0.0.1:4222'',
      nats_creds = None,
      stream_name = ''AGENT_EVENTS'',
      agents_dir = None,
      control_socket = None,
      dedup_path = None,
      max_event_bytes = 256 * 1024,
      dedup_ttl_days = 14,
      ack_wait_secs = 300,
      ack_progress_interval_secs = 90,
      slow_handler_warn_secs = 3600,
      log_level = ''info''\<rparr>"

definition config_fields :: "string list" where
  "config_fields =
     [''nats_url'', ''nats_creds'', ''stream_name'', ''agents_dir'', ''control_socket'',
      ''dedup_path'', ''max_event_bytes'', ''dedup_ttl_days'', ''ack_wait_secs'',
      ''ack_progress_interval_secs'', ''slow_handler_warn_secs'', ''log_level'']"

text \<open>\<open>#[serde(default, deny_unknown_fields)]\<close>: a missing field is that of \<open>Default\<close>.\<close>

definition deserialize_config :: "sval \<Rightarrow> daemon_config option" where
  "deserialize_config v =
     (case struct_fields True config_fields v of
        None \<Rightarrow> None
      | Some fs \<Rightarrow>
          (case (dflt fs ''nats_url'' as_string (nats_url default_config),
                 dflt fs ''nats_creds'' (as_option as_string) (nats_creds default_config),
                 dflt fs ''stream_name'' as_string (stream_name default_config),
                 dflt fs ''agents_dir'' (as_option as_string) (agents_dir default_config),
                 dflt fs ''control_socket'' (as_option as_string) (control_socket default_config),
                 dflt fs ''dedup_path'' (as_option as_string) (dedup_path default_config),
                 dflt fs ''max_event_bytes'' as_u64 (max_event_bytes default_config),
                 dflt fs ''dedup_ttl_days'' as_u64 (dedup_ttl_days default_config),
                 dflt fs ''ack_wait_secs'' as_u64 (ack_wait_secs default_config),
                 dflt fs ''ack_progress_interval_secs'' as_u64
                   (ack_progress_interval_secs default_config),
                 dflt fs ''slow_handler_warn_secs'' as_u64 (slow_handler_warn_secs default_config),
                 dflt fs ''log_level'' as_string (log_level default_config)) of
             (Some url, Some creds, Some stream, Some adir, Some sock, Some dpath, Some maxb,
              Some ttl, Some wait, Some prog, Some slow, Some level) \<Rightarrow>
               Some \<lparr>nats_url = url, nats_creds = creds, stream_name = stream, agents_dir = adir,
                     control_socket = sock, dedup_path = dpath, max_event_bytes = maxb,
                     dedup_ttl_days = ttl, ack_wait_secs = wait,
                     ack_progress_interval_secs = prog, slow_handler_warn_secs = slow,
                     log_level = level\<rparr>
           | _ \<Rightarrow> None))"

definition i32_max :: u64 where
  "i32_max = 2147483647"

definition config_validate :: "daemon_config \<Rightarrow> unit result" where
  "config_validate c =
     (if dedup_ttl_days c = 0 then Inl (Config DedupTtlZero)
      else if max_event_bytes c = 0 then Inl (Config MaxEventBytesZero)
      else if max_event_bytes c > i32_max then Inl (Config MaxEventBytesLimit)
      else if ack_progress_interval_secs c \<ge> ack_wait_secs c
      then Inl (Config ProgressIntervalTooLong)
      else Inr ())"

definition config_load ::
    "(string \<Rightarrow> sval option) \<Rightarrow> path \<Rightarrow> string option \<Rightarrow> daemon_config result" where
  "config_load toml p text =
     (case text of
        None \<Rightarrow> Inl (Config (Cannot Read_Op p))
      | Some t \<Rightarrow>
          (case (case toml t of None \<Rightarrow> None | Some v \<Rightarrow> deserialize_config v) of
             None \<Rightarrow> Inl (Config (InvalidConfig p))
           | Some c \<Rightarrow> (case config_validate c of Inl e \<Rightarrow> Inl e | Inr _ \<Rightarrow> Inr c)))"

definition unwrap_or_default :: "path option \<Rightarrow> path" where
  "unwrap_or_default d = (case d of None \<Rightarrow> [] | Some p \<Rightarrow> p)"

definition resolved_agents_dir :: "path option \<Rightarrow> daemon_config \<Rightarrow> path" where
  "resolved_agents_dir config_dir c =
     (case agents_dir c of
        Some p \<Rightarrow> p
      | None \<Rightarrow> path_join (path_join (unwrap_or_default config_dir) ''agentd'') ''agents.d'')"

definition resolved_dedup_path :: "path option \<Rightarrow> daemon_config \<Rightarrow> path" where
  "resolved_dedup_path data_dir c =
     (case dedup_path c of
        Some p \<Rightarrow> p
      | None \<Rightarrow> path_join (path_join (unwrap_or_default data_dir) ''agentd'') ''dedup.db'')"

text \<open>The retention in seconds.\<close>

definition dedup_ttl :: "daemon_config \<Rightarrow> u64" where
  "dedup_ttl c = saturating_mul (dedup_ttl_days c) (24 * 3600)"

section \<open>Properties\<close>

lemma default_config_valid: "config_validate default_config = Inr ()"
  by (simp add: config_validate_def default_config_def i32_max_def)

lemma config_load_okD: "config_load toml p text = Inr c \<Longrightarrow> config_validate c = Inr ()"
  by (auto simp: config_load_def split: option.splits sum.splits)

lemma config_validate_okD:
  assumes "config_validate c = Inr ()"
  shows "dedup_ttl_days c \<noteq> 0" "max_event_bytes c \<noteq> 0" "max_event_bytes c \<le> i32_max"
    "ack_progress_interval_secs c < ack_wait_secs c"
  using assms by (auto simp: config_validate_def split: if_splits)

lemma dedup_ttl_min: "unat (dedup_ttl c) = min (unat (dedup_ttl_days c) * 86400) (2 ^ 64 - 1)"
  by (simp add: dedup_ttl_def unat_saturating_mul)

lemma dedup_ttl_pos: "dedup_ttl_days c \<noteq> 0 \<Longrightarrow> 0 < unat (dedup_ttl c)"
  by (simp add: dedup_ttl_min unat_gt_0)

text \<open>
  Bounds of a loaded configuration: the message limit is positive and fits an i32, the progress interval
  is shorter than the wait of the consumers, and the retention is positive and saturates instead of
  wrapping.
\<close>

theorem loaded_config_bounds:
  assumes "config_load toml p text = Inr c"
  shows "0 < unat (max_event_bytes c) \<and> unat (max_event_bytes c) < 2 ^ 31 \<and>
     unat (ack_progress_interval_secs c) < unat (ack_wait_secs c) \<and> 0 < unat (dedup_ttl c) \<and>
     unat (dedup_ttl c) = min (unat (dedup_ttl_days c) * 86400) (2 ^ 64 - 1)"
proof -
  note v = config_validate_okD[OF config_load_okD[OF assms]]
  have "unat (max_event_bytes c) < 2 ^ 31" using v(3) by (simp add: word_le_nat_alt i32_max_def)
  with v dedup_ttl_pos[OF v(1)] show ?thesis by (simp add: word_less_nat_alt unat_gt_0 dedup_ttl_min)
qed

lemma default_config_load: "config_load (\<lambda>_. Some (VObj [])) p (Some []) = Inr default_config"
proof -
  have "deserialize_config (VObj []) = Some default_config" by code_simp
  with default_config_valid show ?thesis by (simp add: config_load_def)
qed

theorem loaded_config_bounds_witness: "unat (dedup_ttl default_config) = 1209600"
  using loaded_config_bounds[OF default_config_load] by (simp add: default_config_def)

end
