(* ===== verification/Systems.thy ===== *)
theory Systems
  imports Main
begin

text \<open>
  State machines: the states a step relation reaches, and the contract of an inductive invariant.
  The dispatcher and the relay are two such machines.
\<close>

inductive reachable :: "('s \<Rightarrow> bool) \<Rightarrow> ('s \<Rightarrow> 's \<Rightarrow> bool) \<Rightarrow> 's \<Rightarrow> bool"
  for init :: "'s \<Rightarrow> bool" and step :: "'s \<Rightarrow> 's \<Rightarrow> bool" where
  reachable_init: "init s \<Longrightarrow> reachable init step s"
| reachable_step: "reachable init step s \<Longrightarrow> step s s' \<Longrightarrow> reachable init step s'"

lemma reachable_steps: "step\<^sup>*\<^sup>* s s' \<Longrightarrow> reachable init step s \<Longrightarrow> reachable init step s'"
  by (induction rule: rtranclp_induct) (auto intro: reachable_step)

locale invariant =
  fixes init :: "'s \<Rightarrow> bool"
    and step :: "'s \<Rightarrow> 's \<Rightarrow> bool"
    and inv :: "'s \<Rightarrow> bool"
  assumes inv_init: "init s \<Longrightarrow> inv s"
    and inv_step: "step s s' \<Longrightarrow> inv s \<Longrightarrow> inv s'"
begin

lemma inv_reachable: "reachable init step s \<Longrightarrow> inv s"
  by (induction rule: reachable.induct) (auto intro: inv_init inv_step)

lemma inv_steps: "step\<^sup>*\<^sup>* s s' \<Longrightarrow> inv s \<Longrightarrow> inv s'"
  by (induction rule: rtranclp_induct) (auto intro: inv_step)

end

text \<open>A second property whose preservation rests on the invariant.\<close>

locale strengthened_invariant = invariant init step inv
  for init :: "'s \<Rightarrow> bool" and step :: "'s \<Rightarrow> 's \<Rightarrow> bool" and inv :: "'s \<Rightarrow> bool" +
  fixes extra :: "'s \<Rightarrow> bool"
  assumes extra_init: "init s \<Longrightarrow> extra s"
    and extra_step: "step s s' \<Longrightarrow> inv s \<Longrightarrow> extra s \<Longrightarrow> extra s'"

sublocale strengthened_invariant \<subseteq> both: invariant init step "\<lambda>s. inv s \<and> extra s"
  by unfold_locales (auto intro: inv_init inv_step extra_init extra_step)

context strengthened_invariant
begin

lemma extra_reachable: "reachable init step s \<Longrightarrow> extra s"
  using both.inv_reachable by blast

end

text \<open>
  A machine that refines another: the abstraction of a step is a sequence of steps of the other machine.
\<close>

locale simulation = invariant init step inv
  for init :: "'s \<Rightarrow> bool" and step :: "'s \<Rightarrow> 's \<Rightarrow> bool" and inv :: "'s \<Rightarrow> bool" +
  fixes abs_init :: "'t \<Rightarrow> bool"
    and abs_step :: "'t \<Rightarrow> 't \<Rightarrow> bool"
    and abs_state :: "'s \<Rightarrow> 't"
  assumes sim_init: "init s \<Longrightarrow> abs_init (abs_state s)"
    and sim_step: "step s s' \<Longrightarrow> inv s \<Longrightarrow> abs_step\<^sup>*\<^sup>* (abs_state s) (abs_state s')"
begin

lemma simulated: "reachable init step s \<Longrightarrow> reachable abs_init abs_step (abs_state s)"
proof (induction rule: reachable.induct)
  case (reachable_init s)
  then show ?case by (blast intro: reachable.reachable_init sim_init)
next
  case (reachable_step s s')
  from sim_step[OF reachable_step(2) inv_reachable[OF reachable_step(1)]] reachable_step(3)
  show ?case by (rule reachable_steps)
qed

end

text \<open>
  A machine some of whose steps are its own work: when work is always possible until the goal and
  decreases a measure, the goal is reached by work alone, in a bounded number of steps.
\<close>

locale progress =
  fixes work :: "'s \<Rightarrow> 's \<Rightarrow> bool"
    and inv :: "'s \<Rightarrow> bool"
    and goal :: "'s \<Rightarrow> bool"
    and size :: "'s \<Rightarrow> nat"
  assumes work_inv: "work s s' \<Longrightarrow> inv s \<Longrightarrow> inv s'"
    and work_size: "work s s' \<Longrightarrow> size s' < size s"
    and work_possible: "inv s \<Longrightarrow> \<not> goal s \<Longrightarrow> \<exists>s'. work s s'"
begin

lemma goal_reached: "inv s \<Longrightarrow> \<exists>s'. work\<^sup>*\<^sup>* s s' \<and> goal s'"
proof (induction "size s" arbitrary: s rule: less_induct)
  case less
  show ?case
  proof (cases "goal s")
    case False
    with less.prems work_possible obtain t where t: "work s t" by blast
    with less work_inv work_size obtain s' where "work\<^sup>*\<^sup>* t s'" "goal s'" by blast
    with t show ?thesis by (meson converse_rtranclp_into_rtranclp)
  qed auto
qed

lemma work_bounded: "(work ^^ n) s s' \<Longrightarrow> n + size s' \<le> size s"
proof (induction n arbitrary: s')
  case (Suc n)
  then obtain t where "(work ^^ n) s t" "work t s'" by auto
  with Suc.IH[of t] work_size[of t s'] show ?case by simp
qed simp

lemma work_inv_star: "work\<^sup>*\<^sup>* s s' \<Longrightarrow> inv s \<Longrightarrow> inv s'"
  by (induction rule: rtranclp_induct) (auto intro: work_inv)

lemma stuck_goal: "work\<^sup>*\<^sup>* s s' \<Longrightarrow> inv s \<Longrightarrow> \<nexists>t. work s' t \<Longrightarrow> goal s'"
  using work_possible work_inv_star by blast

end

end
