(* ===== verification/Relay.thy ===== *)
theory Relay
  imports Dispatcher DaemonConfigs Systems
begin

unbundle bit_operations_syntax

text \<open>
  The relay (\<open>src/relay.rs\<close>): the stream and consumer configurations it asks for, the connection, the
  table of pull loops and the operations that change it, and the pull loop itself.  The JetStream
  server is not code of the repository: what it answers is the record \<open>relay_env\<close>, and what it delivers
  the answers of the pull loop.  A \<open>JoinHandle\<close> is the index of the spawned loop, and aborting marks the
  loop; an aborted loop takes no further step.
\<close>

section \<open>Names and configurations\<close>

definition FETCH_CAP :: nat where
  "FETCH_CAP = 10"

definition FETCH_EXPIRES :: nat where
  "FETCH_EXPIRES = FETCH_CAP"

definition NO_SLOT_SLEEP :: nat where
  "NO_SLOT_SLEEP = 1"

definition consumer_name :: "agent_id \<Rightarrow> string" where
  "consumer_name a = ''agent-'' @ as_str a"

datatype ack_policy = Ack_None | Ack_All | Ack_Explicit

datatype deliver_policy = Deliver_All | Deliver_Last | Deliver_New

record consumer_config =
  cc_durable_name :: "string option"
  cc_filter_subject :: string
  cc_ack_policy :: ack_policy
  cc_deliver_policy :: deliver_policy
  cc_max_ack_pending :: i64
  cc_ack_wait :: u64

text \<open>Durations in seconds; \<open>max_ack_pending\<close> goes from \<open>u32\<close> over \<open>usize\<close> to \<open>i64\<close>.\<close>

definition consumer_config_of :: "agent_id \<Rightarrow> u64 \<Rightarrow> u32 \<Rightarrow> consumer_config" where
  "consumer_config_of a ack_wait mc =
     \<lparr>cc_durable_name = Some (consumer_name a), cc_filter_subject = subject a,
      cc_ack_policy = Ack_Explicit, cc_deliver_policy = Deliver_All,
      cc_max_ack_pending = ucast mc, cc_ack_wait = ack_wait\<rparr>"

datatype retention = Limits | Interest | Work_Queue

datatype storage = File_Storage | Memory_Storage

record stream_config =
  sc_name :: string
  sc_subjects :: "string list"
  sc_retention :: retention
  sc_storage :: storage
  sc_max_age :: nat
  sc_max_message_size :: i32
  sc_num_replicas :: nat

definition stream_config_of :: "daemon_config \<Rightarrow> stream_config" where
  "stream_config_of c =
     \<lparr>sc_name = stream_name c, sc_subjects = [''agent.events.>''], sc_retention = Limits,
      sc_storage = File_Storage, sc_max_age = 7 * 24 * 3600,
      sc_max_message_size = ucast (max_event_bytes c), sc_num_replicas = 1\<rparr>"

text \<open>\<open>created\<close>: whether the server has the stream afterwards.\<close>

definition ensure_stream :: "(stream_config \<Rightarrow> bool) \<Rightarrow> daemon_config \<Rightarrow> unit result" where
  "ensure_stream created c =
     (if created (stream_config_of c) then Inr ()
      else Inl (agentd_error.Relay (CannotCreateStream (stream_name c))))"

section \<open>The connection\<close>

text \<open>\<open>warn_if_loose_creds\<close>: \<open>63\<close> is octal 077.\<close>

definition warn_if_loose_creds :: "(path \<Rightarrow> u32 option) \<Rightarrow> path \<Rightarrow> bool" where
  "warn_if_loose_creds mode_of p = (case mode_of p of Some mode \<Rightarrow> mode AND 63 \<noteq> 0 | None \<Rightarrow> False)"

datatype connect_line =
    Loose_Creds path
  | Connecting string

text \<open>
  \<open>connect\<close>: reading the credentials, the warning, the log line with the redacted URL, and the
  client; the error carries the URL.
\<close>

definition connect ::
    "(path \<Rightarrow> bool) \<Rightarrow> (path \<Rightarrow> u32 option) \<Rightarrow> bool \<Rightarrow> daemon_config \<Rightarrow> unit result \<times> connect_line list" where
  "connect creds_ok mode_of connected c =
     (case (case nats_creds c of
              Some creds \<Rightarrow> if creds_ok creds then Inr () else Inl (Config (Cannot Read_Creds_Op creds))
            | None \<Rightarrow> Inr ()) of
        Inl e \<Rightarrow> (Inl e, [])
      | Inr _ \<Rightarrow>
          ((if connected then Inr () else Inl (agentd_error.Relay (CannotConnect (nats_url c)))),
           (case nats_creds c of
              Some creds \<Rightarrow> if warn_if_loose_creds mode_of creds then [Loose_Creds creds] else []
            | None \<Rightarrow> []) @
           [Connecting (redact_url (nats_url c))]))"

datatype nats_event = Connected | Disconnected | LameDuckMode | Other_Event

text \<open>The event callback: the flag \<open>agentdctl status\<close> shows, and the log line.\<close>

fun on_nats_event :: "string \<Rightarrow> nats_event \<Rightarrow> bool \<Rightarrow> bool \<times> relay_event list" where
  "on_nats_event url Connected flag = (True, [Nats_Connected (redact_url url)])"
| "on_nats_event url Disconnected flag = (False, [Nats_Disconnected])"
| "on_nats_event url LameDuckMode flag = (flag, [Lame_Duck_Mode])"
| "on_nats_event url Other_Event flag = (flag, [])"

text \<open>\<open>NatsAcker\<close>: \<open>ack\<close> waits for the server's confirmation, \<open>term\<close> does not.\<close>

datatype ack_request = Double_Ack | Ack_Term | Ack_Progress

definition acker_ack :: ack_request where
  "acker_ack = Double_Ack"

definition acker_term :: ack_request where
  "acker_term = Ack_Term"

section \<open>The table of pull loops\<close>

text \<open>Where a pull loop stands; \<open>Receiving n\<close> still takes messages of a batch of at most \<open>n\<close>.\<close>

datatype loop_pc = Polling | Sleeping | Fetching nat | Receiving nat | Handing_Over nat delivery

record pull_loop =
  pl_agent :: agent_id
  pl_consumer :: consumer_config
  pl_pc :: loop_pc
  pl_aborted :: bool

record relay =
  rl_stream_name :: string
  rl_ack_wait :: u64
  rl_ack_progress :: u64
  rl_pulls :: "(agent_id \<times> nat) list"
  rl_loops :: "pull_loop list"
  rl_dispatch_tasks :: "delivery list"
  rl_log :: "relay_event list"

definition relay_new :: "string \<Rightarrow> u64 \<Rightarrow> u64 \<Rightarrow> relay" where
  "relay_new stream ack_wait ack_progress =
     \<lparr>rl_stream_name = stream, rl_ack_wait = ack_wait, rl_ack_progress = ack_progress,
      rl_pulls = [], rl_loops = [], rl_dispatch_tasks = [], rl_log = []\<rparr>"

text \<open>What the server answers to \<open>get_stream\<close> and to \<open>get_or_create_consumer\<close>.\<close>

record relay_env =
  re_stream :: bool
  re_consumer :: "agent_id \<Rightarrow> bool"

definition relay_good :: "relay_env \<Rightarrow> bool" where
  "relay_good env = (re_stream env \<and> (\<forall>a. re_consumer env a))"

definition bind_consumer :: "relay_env \<Rightarrow> agent_id \<Rightarrow> u32 \<Rightarrow> relay \<Rightarrow> consumer_config result" where
  "bind_consumer env a mc rl =
     (if \<not> re_stream env then Inl (agentd_error.Relay (StreamUnavailable (rl_stream_name rl)))
      else if \<not> re_consumer env a then Inl (agentd_error.Relay (CannotBindConsumer (as_str a)))
      else Inr (consumer_config_of a (rl_ack_wait rl) mc))"

definition abort_loop :: "nat \<Rightarrow> pull_loop list \<Rightarrow> pull_loop list" where
  "abort_loop h ls = ls[h := (ls ! h)\<lparr>pl_aborted := True\<rparr>]"

definition start_pull :: "agent_id \<Rightarrow> consumer_config \<Rightarrow> relay \<Rightarrow> relay" where
  "start_pull a consumer rl =
     (let h = length (rl_loops rl);
          ls = rl_loops rl @ [\<lparr>pl_agent = a, pl_consumer = consumer, pl_pc = Polling, pl_aborted = False\<rparr>]
      in rl\<lparr>rl_pulls := AList.update a h (rl_pulls rl),
            rl_loops := (case map_of (rl_pulls rl) a of Some old \<Rightarrow> abort_loop old ls | None \<Rightarrow> ls)\<rparr>)"

definition stop_pull :: "agent_id \<Rightarrow> relay \<Rightarrow> relay" where
  "stop_pull a rl =
     (case map_of (rl_pulls rl) a of
        Some h \<Rightarrow> rl\<lparr>rl_pulls := AList.delete a (rl_pulls rl), rl_loops := abort_loop h (rl_loops rl)\<rparr>
      | None \<Rightarrow> rl)"

definition log_line :: "relay_event \<Rightarrow> relay \<Rightarrow> relay" where
  "log_line ev rl = rl\<lparr>rl_log := rl_log rl @ [ev]\<rparr>"

text \<open>\<open>Added\<close> and \<open>Enabled\<close>: bind, and pull when bound.\<close>

definition bind_and_pull :: "relay_env \<Rightarrow> agent_config \<Rightarrow> relay \<Rightarrow> bool \<times> relay" where
  "bind_and_pull env c rl =
     (case bind_consumer env (agent_id c) (max_concurrency c) rl of
        Inr consumer \<Rightarrow>
          (True, log_line (Consumer_Bound (agent_id c) (consumer_name (agent_id c)))
                   (start_pull (agent_id c) consumer rl))
      | Inl e \<Rightarrow> (False, log_line (Consumer_Bind_Failed (agent_id c)) rl))"

fun relay_apply_change ::
    "relay_env \<Rightarrow> (agent_id \<Rightarrow> agent_config option) \<Rightarrow> change \<Rightarrow> relay \<Rightarrow> relay" where
  "relay_apply_change env registry_get (Added c) rl =
     (case bind_and_pull env c rl of
        (True, rl') \<Rightarrow> log_line (Agent_Registered (agent_id c)) rl'
      | (False, rl') \<Rightarrow> rl')"
| "relay_apply_change env registry_get (Enabled c) rl = snd (bind_and_pull env c rl)"
| "relay_apply_change env registry_get (Updated c) rl =
     (let a = agent_id c;
          rl1 = stop_pull a rl;
          rl2 = (case registry_get a of
                   Some cur \<Rightarrow>
                     if enabled cur
                     then (case bind_consumer env a (max_concurrency cur) rl1 of
                             Inr consumer \<Rightarrow> start_pull a consumer rl1
                           | Inl e \<Rightarrow> log_line (Consumer_Rebind_Failed a) rl1)
                     else rl1
                 | None \<Rightarrow> rl1)
      in log_line (Agent_Updated a) rl2)"
| "relay_apply_change env registry_get (Disabled c) rl =
     log_line (Agent_Updated (agent_id c)) (stop_pull (agent_id c) rl)"
| "relay_apply_change env registry_get (Removed a) rl =
     log_line (Agent_Unregistered a) (stop_pull a rl)"

text \<open>
  The same change, cut at its await point: what is done before the server is asked for the consumer of an
  agent, with the agent and its concurrency when it is asked; and what is done with the answer.
\<close>

fun begin_change ::
    "(agent_id \<Rightarrow> agent_config option) \<Rightarrow> change \<Rightarrow> relay \<Rightarrow> relay \<times> (agent_id \<times> u32) option" where
  "begin_change registry_get (Added c) rl = (rl, Some (agent_id c, max_concurrency c))"
| "begin_change registry_get (Enabled c) rl = (rl, Some (agent_id c, max_concurrency c))"
| "begin_change registry_get (Updated c) rl =
     (let a = agent_id c;
          rl1 = stop_pull a rl
      in case registry_get a of
           Some cur \<Rightarrow>
             if enabled cur then (rl1, Some (a, max_concurrency cur)) else (log_line (Agent_Updated a) rl1, None)
         | None \<Rightarrow> (log_line (Agent_Updated a) rl1, None))"
| "begin_change registry_get (Disabled c) rl =
     (log_line (Agent_Updated (agent_id c)) (stop_pull (agent_id c) rl), None)"
| "begin_change registry_get (Removed a) rl = (log_line (Agent_Unregistered a) (stop_pull a rl), None)"

fun end_change :: "consumer_config result \<Rightarrow> change \<Rightarrow> relay \<Rightarrow> relay" where
  "end_change (Inr consumer) (Added c) rl =
     log_line (Agent_Registered (agent_id c))
       (log_line (Consumer_Bound (agent_id c) (consumer_name (agent_id c))) (start_pull (agent_id c) consumer rl))"
| "end_change (Inr consumer) (Enabled c) rl =
     log_line (Consumer_Bound (agent_id c) (consumer_name (agent_id c))) (start_pull (agent_id c) consumer rl)"
| "end_change (Inr consumer) (Updated c) rl =
     log_line (Agent_Updated (agent_id c)) (start_pull (agent_id c) consumer rl)"
| "end_change (Inl e) (Added c) rl = log_line (Consumer_Bind_Failed (agent_id c)) rl"
| "end_change (Inl e) (Enabled c) rl = log_line (Consumer_Bind_Failed (agent_id c)) rl"
| "end_change (Inl e) (Updated c) rl =
     log_line (Agent_Updated (agent_id c)) (log_line (Consumer_Rebind_Failed (agent_id c)) rl)"
| "end_change bound (Disabled c) rl = rl"
| "end_change bound (Removed a) rl = rl"

text \<open>A change that nothing interrupts is its two halves.\<close>

lemma relay_apply_change_halves:
  "relay_apply_change env look x rl =
     (case begin_change look x rl of
        (rl', None) \<Rightarrow> rl'
      | (rl', Some (a, mc)) \<Rightarrow> end_change (bind_consumer env a mc rl') x rl')"
  by (cases x) (auto simp: bind_and_pull_def Let_def split: sum.splits option.splits)

text \<open>\<open>Relay::apply_changes\<close> always returns \<open>Ok\<close>.\<close>

fun relay_apply_changes ::
    "relay_env \<Rightarrow> (agent_id \<Rightarrow> agent_config option) \<Rightarrow> change list \<Rightarrow> relay \<Rightarrow> unit result \<times> relay" where
  "relay_apply_changes env registry_get [] rl = (Inr (), rl)"
| "relay_apply_changes env registry_get (x # xs) rl =
     relay_apply_changes env registry_get xs (relay_apply_change env registry_get x rl)"

definition sync_consumers :: "relay_env \<Rightarrow> registry \<Rightarrow> relay \<Rightarrow> unit result \<times> relay" where
  "sync_consumers env r rl =
     relay_apply_changes env (get r) (map Added (filter enabled (snapshot r))) rl"

text \<open>\<open>info\<close>: the pending counts of the consumer, when the server answers.\<close>

definition consumer_backlog ::
    "relay_env \<Rightarrow> (string \<Rightarrow> (u64 \<times> u64) option) \<Rightarrow> agent_id \<Rightarrow> (u64 \<times> u64) option" where
  "consumer_backlog env info a = (if re_stream env then info (consumer_name a) else None)"

text \<open>Stop pulling; the second half, waiting for the dispatch tasks, empties their set.\<close>

fun abort_all :: "(agent_id \<times> nat) list \<Rightarrow> pull_loop list \<Rightarrow> pull_loop list" where
  "abort_all [] ls = ls"
| "abort_all ((a, h) # hs) ls = abort_all hs (abort_loop h ls)"

definition stop_pulling :: "relay \<Rightarrow> relay" where
  "stop_pulling rl = rl\<lparr>rl_pulls := [], rl_loops := abort_all (rl_pulls rl) (rl_loops rl)\<rparr>"

definition shutdown :: "relay \<Rightarrow> relay" where
  "shutdown rl = (stop_pulling rl)\<lparr>rl_dispatch_tasks := []\<rparr>"

section \<open>The pull loop\<close>

text \<open>
  \<open>pull_loop\<close> between its await points.  The answers: the fetch request, the next item of the batch
  (a message with or without JetStream metadata, an error, the end of the batch, a stalled wait), and
  whether the lock on the set of dispatch tasks is free.
\<close>

datatype fetch_answer = Fetch_Ok | Fetch_Error | Fetch_Stalled

record message_info =
  mi_stream_sequence :: u64
  mi_consumer_sequence :: u64
  mi_delivered :: i64

datatype item_answer =
    Item string message_info
  | Item_Without_Info
  | Item_Error
  | Batch_End
  | Item_Stalled

record loop_answers =
  la_fetch :: fetch_answer
  la_item :: item_answer
  la_lock :: bool

definition delivery_of :: "agent_id \<Rightarrow> string \<Rightarrow> message_info \<Rightarrow> delivery" where
  "delivery_of a payload info =
     \<lparr>dl_agent = a, dl_raw = payload, dl_stream_sequence = mi_stream_sequence info,
      dl_consumer_sequence = mi_consumer_sequence info, dl_delivery_count = mi_delivered info\<rparr>"

definition poll_slots :: "agent_id \<Rightarrow> dispatcher \<Rightarrow> loop_pc \<times> dispatcher" where
  "poll_slots a D =
     (case available a D of
        (free, D') \<Rightarrow> (if free = 0 then Sleeping else Fetching (max free 1), D'))"

fun loop_next :: "loop_answers \<Rightarrow> agent_id \<Rightarrow> dispatcher \<Rightarrow> loop_pc \<Rightarrow>
    (loop_pc \<times> dispatcher \<times> delivery list) option" where
  "loop_next la a D Polling = (case poll_slots a D of (p, D') \<Rightarrow> Some (p, D', []))"
| "loop_next la a D Sleeping = Some (Polling, D, [])"
| "loop_next la a D (Fetching n) =
     (case la_fetch la of
        Fetch_Ok \<Rightarrow> Some (Receiving n, D, [])
      | Fetch_Error \<Rightarrow> Some (Sleeping, D, [])
      | Fetch_Stalled \<Rightarrow> Some (Polling, D, []))"
| "loop_next la a D (Receiving n) =
     (case la_item la of
        Item payload info \<Rightarrow> Some (Handing_Over n (delivery_of a payload info), D, [])
      | Item_Without_Info \<Rightarrow> Some (Receiving n, D, [])
      | Item_Error \<Rightarrow> Some (Polling, D, [])
      | Batch_End \<Rightarrow> Some (Polling, D, [])
      | Item_Stalled \<Rightarrow> Some (Polling, D, []))"
| "loop_next la a D (Handing_Over n dl) = (if la_lock la then Some (Receiving n, D, [dl]) else None)"

text \<open>One step of the loop with handle \<open>h\<close>: the deliveries it hands over become dispatch tasks.\<close>

definition loop_step :: "loop_answers \<Rightarrow> nat \<Rightarrow> dispatcher \<times> relay \<Rightarrow> (dispatcher \<times> relay) option" where
  "loop_step la h = (\<lambda>(D, rl).
     if h < length (rl_loops rl) \<and> \<not> pl_aborted (rl_loops rl ! h)
     then (case loop_next la (pl_agent (rl_loops rl ! h)) D (pl_pc (rl_loops rl ! h)) of
             None \<Rightarrow> None
           | Some (p, D', dls) \<Rightarrow>
               Some (D', rl\<lparr>rl_loops := (rl_loops rl)[h := (rl_loops rl ! h)\<lparr>pl_pc := p\<rparr>],
                            rl_dispatch_tasks := rl_dispatch_tasks rl @ dls\<rparr>))
     else None)"

text \<open>\<open>in_progress_keepalive\<close>: the times, in seconds after the delivery, of its first \<open>n\<close> progress acks.\<close>

fun keepalive_times :: "nat \<Rightarrow> nat \<Rightarrow> nat \<Rightarrow> nat list" where
  "keepalive_times interval now 0 = []"
| "keepalive_times interval now (Suc n) = (now + interval) # keepalive_times interval (now + interval) n"

section \<open>One live loop per agent\<close>

text \<open>
  The invariant of the table: its entries are live loops of their agent, and every live loop is the
  entry of its agent.
\<close>

definition pulls_ok :: "relay \<Rightarrow> bool" where
  "pulls_ok rl =
     (wf_map (rl_pulls rl) \<and>
      (\<forall>a h. map_of (rl_pulls rl) a = Some h \<longleftrightarrow>
         h < length (rl_loops rl) \<and> pl_agent (rl_loops rl ! h) = a \<and> \<not> pl_aborted (rl_loops rl ! h)))"

definition pulled :: "relay \<Rightarrow> agent_id set" where
  "pulled rl = {a. map_of (rl_pulls rl) a \<noteq> None}"

lemma abort_loop_nth [simp]:
  "h < length ls \<Longrightarrow> abort_loop h ls ! k = (if k = h then (ls ! h)\<lparr>pl_aborted := True\<rparr> else ls ! k)"
  "length (abort_loop h ls) = length ls"
  by (auto simp: abort_loop_def nth_list_update)

lemma log_line_sel [simp]:
  "rl_pulls (log_line ev rl) = rl_pulls rl" "rl_loops (log_line ev rl) = rl_loops rl"
  "pulls_ok (log_line ev rl) = pulls_ok rl" "pulled (log_line ev rl) = pulled rl"
  by (simp_all add: log_line_def pulls_ok_def pulled_def)

lemma pulls_ok_new: "pulls_ok (relay_new stream w p)"
  by (simp add: pulls_ok_def relay_new_def)

lemma pulls_ok_start: "pulls_ok rl \<Longrightarrow> pulls_ok (start_pull a consumer rl)"
proof -
  assume ok: "pulls_ok rl"
  show ?thesis
  proof (cases "map_of (rl_pulls rl) a")
    case None
    with ok show ?thesis
      by (auto simp: pulls_ok_def start_pull_def Let_def nth_append less_Suc_eq)
        (metis option.distinct(1))
  next
    case (Some old)
    let ?new = "\<lparr>pl_agent = a, pl_consumer = consumer, pl_pc = Polling, pl_aborted = False\<rparr>"
    let ?rl = "start_pull a consumer rl"
    have live: "map_of (rl_pulls rl) b = Some h \<longleftrightarrow>
        h < length (rl_loops rl) \<and> pl_agent (rl_loops rl ! h) = b \<and> \<not> pl_aborted (rl_loops rl ! h)" for b h
      using ok by (simp add: pulls_ok_def)
    have old: "old < length (rl_loops rl)" "pl_agent (rl_loops rl ! old) = a" using Some live by auto
    have uniq: "h = old" if "h < length (rl_loops rl)" "pl_agent (rl_loops rl ! h) = a"
        "\<not> pl_aborted (rl_loops rl ! h)" for h
      using that live[of a h] Some by simp
    have sel: "rl_loops ?rl = abort_loop old (rl_loops rl @ [?new])"
      "map_of (rl_pulls ?rl) = (map_of (rl_pulls rl))(a \<mapsto> length (rl_loops rl))" "wf_map (rl_pulls ?rl)"
      using ok by (simp_all add: start_pull_def Let_def Some) (simp add: pulls_ok_def)
    show ?thesis
      unfolding pulls_ok_def
    proof (intro conjI allI)
      fix b h
      show "map_of (rl_pulls ?rl) b = Some h \<longleftrightarrow>
          h < length (rl_loops ?rl) \<and> pl_agent (rl_loops ?rl ! h) = b \<and> \<not> pl_aborted (rl_loops ?rl ! h)"
      proof -
        consider "h = length (rl_loops rl)" | "h = old" | "h < length (rl_loops rl)" "h \<noteq> old"
          | "h > length (rl_loops rl)" by linarith
        then show ?thesis
        proof cases
          case 1
          then show ?thesis using old(1) live[of b h] by (simp add: sel nth_append)
        next
          case 2
          then show ?thesis using old live[of b old] by (simp add: sel)
        next
          case 3
          then show ?thesis using old(1) live[of b h] uniq[of h] by (auto simp: sel nth_append)
        next
          case 4
          then show ?thesis using old(1) live[of b h] by (simp add: sel)
        qed
      qed
    qed (rule sel(3))
  qed
qed

lemma pulls_ok_stop: "pulls_ok rl \<Longrightarrow> pulls_ok (stop_pull a rl)"
  by (auto simp: pulls_ok_def stop_pull_def split: option.splits) (metis option.inject)

lemma pulled_start [simp]: "pulled (start_pull a consumer rl) = insert a (pulled rl)"
  by (auto simp: pulled_def start_pull_def Let_def)

lemma pulled_stop [simp]: "pulled (stop_pull a rl) = pulled rl - {a}"
  by (auto simp: pulled_def stop_pull_def split: option.splits)

lemma pulls_ok_begin: "pulls_ok rl \<Longrightarrow> pulls_ok (fst (begin_change look x rl))"
  by (cases x) (auto simp: Let_def pulls_ok_stop split: option.splits)

lemma pulls_ok_end: "pulls_ok rl \<Longrightarrow> pulls_ok (end_change bound x rl)"
  by (cases x; cases bound) (auto simp: pulls_ok_start)

lemma pulls_ok_change: "pulls_ok rl \<Longrightarrow> pulls_ok (relay_apply_change env look x rl)"
  using pulls_ok_begin[of rl look x]
  by (auto simp: relay_apply_change_halves pulls_ok_end split: prod.splits option.splits)

lemma pulls_ok_changes: "pulls_ok rl \<Longrightarrow> pulls_ok (snd (relay_apply_changes env look xs rl))"
  by (induction xs arbitrary: rl) (auto simp: pulls_ok_change)

lemma abort_all_props:
  assumes "\<forall>(a, h) \<in> set hs. h < length ls"
  shows "length (abort_all hs ls) = length ls"
    and "k < length ls \<Longrightarrow> pl_aborted (abort_all hs ls ! k) \<longleftrightarrow> pl_aborted (ls ! k) \<or> k \<in> snd ` set hs"
  using assms by (induction hs ls rule: abort_all.induct) auto

lemma stop_pulling_aborts:
  assumes "pulls_ok rl" and "h < length (rl_loops (stop_pulling rl))"
  shows "pl_aborted (rl_loops (stop_pulling rl) ! h)"
proof -
  have hs: "\<forall>(a, h) \<in> set (rl_pulls rl). h < length (rl_loops rl)"
    using assms(1) by (auto simp: pulls_ok_def wf_map_mem[symmetric])
  from assms(2) have h: "h < length (rl_loops rl)"
    by (simp add: stop_pulling_def abort_all_props(1)[OF hs])
  show ?thesis
  proof (cases "pl_aborted (rl_loops rl ! h)")
    case False
    with assms(1) h have "map_of (rl_pulls rl) (pl_agent (rl_loops rl ! h)) = Some h"
      by (simp add: pulls_ok_def)
    then have "h \<in> snd ` set (rl_pulls rl)" by (force dest: map_of_SomeD)
    with h show ?thesis by (simp add: stop_pulling_def abort_all_props(2)[OF hs])
  qed (use h in \<open>simp add: stop_pulling_def abort_all_props(2)[OF hs]\<close>)
qed

lemma pulls_ok_stop_pulling: "pulls_ok rl \<Longrightarrow> pulls_ok (stop_pulling rl)"
  using stop_pulling_aborts[of rl] by (auto simp: pulls_ok_def[of "stop_pulling rl"]) (simp add: stop_pulling_def)+

lemma pulls_ok_loop:
  assumes "loop_step la h s = Some s'" and "pulls_ok (snd s)"
  shows "pulls_ok (snd s')"
  using assms
  by (cases s; cases s')
    (auto simp: loop_step_def pulls_ok_def nth_list_update split: if_splits option.splits)

text \<open>The relay as a state machine: changes, whole or half, loops, and the start of the shutdown,
  in any order.\<close>

inductive relay_step :: "dispatcher \<times> relay \<Rightarrow> dispatcher \<times> relay \<Rightarrow> bool" where
  relay_change: "relay_step (D, rl) (D', relay_apply_change env look x rl)"
| relay_begin: "relay_step (D, rl) (D', fst (begin_change look x rl))"
| relay_end: "relay_step (D, rl) (D', end_change (bind_consumer env a mc rl) x rl)"
| relay_loop: "loop_step la h (D, rl) = Some s' \<Longrightarrow> relay_step (D, rl) s'"
| relay_stop: "relay_step (D, rl) (D', stop_pulling rl)"

inductive_cases relay_stepE: "relay_step s s'"

definition relay_init :: "dispatcher \<times> relay \<Rightarrow> bool" where
  "relay_init s = (\<exists>stream w p. snd s = relay_new stream w p)"

interpretation loops: invariant relay_init relay_step "\<lambda>s. pulls_ok (snd s)"
proof
  fix s assume "relay_init s"
  then show "pulls_ok (snd s)" by (auto simp: relay_init_def pulls_ok_new)
next
  fix s s' assume "relay_step s s'" and ok: "pulls_ok (snd s)"
  from this(1) show "pulls_ok (snd s')"
    by (rule relay_stepE)
      (use ok in \<open>auto intro: pulls_ok_change pulls_ok_begin pulls_ok_end pulls_ok_stop_pulling pulls_ok_loop[OF _ ok]\<close>)
qed

text \<open>At most one loop pulls for an agent.\<close>

theorem one_live_loop:
  assumes "reachable relay_init relay_step (D, rl)"
    and "i < length (rl_loops rl)" and "\<not> pl_aborted (rl_loops rl ! i)"
    and "j < length (rl_loops rl)" and "\<not> pl_aborted (rl_loops rl ! j)"
    and "pl_agent (rl_loops rl ! i) = pl_agent (rl_loops rl ! j)"
  shows "i = j"
proof -
  have "pulls_ok rl" using loops.inv_reachable[OF assms(1)] by simp
  with assms(2-6) have "map_of (rl_pulls rl) (pl_agent (rl_loops rl ! i)) = Some i"
    "map_of (rl_pulls rl) (pl_agent (rl_loops rl ! i)) = Some j"
    by (auto simp: pulls_ok_def)
  then show ?thesis by simp
qed

text \<open>The relay after one \<open>Added\<close> and one \<open>Updated\<close>: two loops were started, the first is aborted.\<close>

definition demo_relay_env :: relay_env where
  "demo_relay_env = \<lparr>re_stream = True, re_consumer = (\<lambda>_. True)\<rparr>"

definition demo_relay :: relay where
  "demo_relay =
     relay_apply_change demo_relay_env (\<lambda>_. Some demo_config) (Updated demo_config)
       (relay_apply_change demo_relay_env (\<lambda>_. Some demo_config) (Added demo_config) (relay_new ''S'' 300 90))"

lemma demo_relay_reachable: "reachable relay_init relay_step (D, demo_relay)"
proof -
  have "reachable relay_init relay_step (D, relay_new ''S'' 300 90)"
    by (rule reachable_init) (auto simp: relay_init_def)
  from reachable_step[OF reachable_step[OF this relay_change] relay_change]
  show ?thesis unfolding demo_relay_def .
qed

lemma demo_relay_loops:
  "length (rl_loops demo_relay) = 2" "pl_aborted (rl_loops demo_relay ! 0)"
  "\<not> pl_aborted (rl_loops demo_relay ! 1)" "pl_agent (rl_loops demo_relay ! 1) = demo_id"
  by code_simp+

theorem one_live_loop_witness:
  "{i. i < length (rl_loops demo_relay) \<and> \<not> pl_aborted (rl_loops demo_relay ! i) \<and>
       pl_agent (rl_loops demo_relay ! i) = demo_id} = {1}"
proof -
  have "i = 1" if "i < length (rl_loops demo_relay)" "\<not> pl_aborted (rl_loops demo_relay ! i)"
      "pl_agent (rl_loops demo_relay ! i) = demo_id" for i
    using one_live_loop[OF demo_relay_reachable that(1,2)] that(3) demo_relay_loops by simp
  with demo_relay_loops show ?thesis by auto
qed

text \<open>After the shutdown has stopped pulling no loop takes another step.\<close>

theorem shutdown_stops_loops:
  assumes "reachable relay_init relay_step (D, rl)"
  shows "loop_step la h (D', stop_pulling rl) = None \<and> pulled (stop_pulling rl) = {}"
proof -
  have "pulls_ok rl" using loops.inv_reachable[OF assms] by simp
  from stop_pulling_aborts[OF this, of h] show ?thesis
    by (auto simp: loop_step_def pulled_def) (simp add: stop_pulling_def)
qed

theorem shutdown_stops_loops_witness:
  "pulled (stop_pulling demo_relay) = {} \<and> pulled demo_relay = {demo_id}"
proof
  show "pulled (stop_pulling demo_relay) = {}"
    using shutdown_stops_loops[OF demo_relay_reachable] by blast
  have "rl_pulls demo_relay = [(demo_id, 1)]" by code_simp
  then show "pulled demo_relay = {demo_id}" by (auto simp: pulled_def)
qed

section \<open>Which agents are pulled\<close>

text \<open>The effect of one change on the set of pulled agents, when the server answers.\<close>

fun pull_effect ::
    "(agent_id \<Rightarrow> agent_config option) \<Rightarrow> change \<Rightarrow> agent_id set \<Rightarrow> agent_id set" where
  "pull_effect look (Added c) P = insert (agent_id c) P"
| "pull_effect look (Enabled c) P = insert (agent_id c) P"
| "pull_effect look (Updated c) P =
     (if \<exists>cur. look (agent_id c) = Some cur \<and> enabled cur then insert (agent_id c) P
      else P - {agent_id c})"
| "pull_effect look (Disabled c) P = P - {agent_id c}"
| "pull_effect look (Removed a) P = P - {a}"

lemma pulled_change:
  "relay_good env \<Longrightarrow> pulled (relay_apply_change env look x rl) = pull_effect look x (pulled rl)"
  by (cases x)
    (auto simp: relay_good_def bind_and_pull_def bind_consumer_def Let_def split: option.splits)

text \<open>Whatever the server answers, a change adds at most what it would add then.\<close>

lemma pulled_change_bound:
  "pulled (relay_apply_change env look x rl) \<subseteq> pull_effect look x (pulled rl)"
  by (cases x)
    (auto simp: bind_and_pull_def bind_consumer_def Let_def split: option.splits if_splits)

section \<open>Slots\<close>

text \<open>
  A poll requests messages only for a registered and enabled agent with free permits, and never more
  than there are.
\<close>

lemma poll_slots_bound:
  assumes "poll_slots a D = (p, D')"
  shows "p = Sleeping \<or>
     (\<exists>n c. p = Fetching n \<and> 0 < n \<and> get (dp_registry D) a = Some c \<and> enabled c \<and> n = fst (available a D))"
proof (cases "fst (available a D) = 0")
  case True
  with assms show ?thesis by (auto simp: poll_slots_def split: prod.splits)
next
  case False
  then have "\<exists>c. get (dp_registry D) a = Some c \<and> enabled c"
    by (auto simp: available_def split: option.splits if_splits)
  with False assms show ?thesis by (auto simp: poll_slots_def split: prod.splits)
qed

text \<open>
  A pull loop requests messages only for a registered and enabled agent, and exactly as many as
  the agent has free dispatch slots.
\<close>

theorem fetch_only_free_slots:
  assumes "loop_step la h (D, rl) = Some (D', rl')" and "pl_pc (rl_loops rl ! h) = Polling"
    and "pl_pc (rl_loops rl' ! h) = Fetching n"
  shows "0 < n \<and> n = fst (available (pl_agent (rl_loops rl ! h)) D) \<and>
     (\<exists>c. get (dp_registry D) (pl_agent (rl_loops rl ! h)) = Some c \<and> enabled c)"
proof -
  from assms(1) have h: "h < length (rl_loops rl)" by (auto simp: loop_step_def split: if_splits)
  from assms h have "poll_slots (pl_agent (rl_loops rl ! h)) D = (Fetching n, D')"
    by (auto simp: loop_step_def split: if_splits prod.splits)
  from poll_slots_bound[OF this] show ?thesis by auto
qed

theorem fetch_only_free_slots_witness:
  "\<exists>D' rl'. loop_step \<lparr>la_fetch = Fetch_Ok, la_item = Batch_End, la_lock = True\<rparr> 1
     (dispatcher_new \<lparr>reg_dir = ''/d'', reg_agents = [(demo_id, demo_config)], reg_disk = demo_disk []\<rparr> [] 600 4096,
      demo_relay) = Some (D', rl') \<and> pl_pc (rl_loops rl' ! 1) = Fetching 1 \<and>
   fst (available demo_id (dispatcher_new
     \<lparr>reg_dir = ''/d'', reg_agents = [(demo_id, demo_config)], reg_disk = demo_disk []\<rparr> [] 600 4096)) = 1"
proof -
  let ?D = "dispatcher_new \<lparr>reg_dir = ''/d'', reg_agents = [(demo_id, demo_config)], reg_disk = demo_disk []\<rparr> [] 600 4096"
  let ?la = "\<lparr>la_fetch = Fetch_Ok, la_item = Batch_End, la_lock = True\<rparr>"
  have "case loop_step ?la 1 (?D, demo_relay) of None \<Rightarrow> False | Some (D', rl') \<Rightarrow> pl_pc (rl_loops rl' ! 1) = Fetching 1"
    by code_simp
  then obtain D' rl' where s: "loop_step ?la 1 (?D, demo_relay) = Some (D', rl')"
      "pl_pc (rl_loops rl' ! 1) = Fetching 1"
    by (auto split: option.splits)
  have "pl_pc (rl_loops demo_relay ! 1) = Polling" by code_simp
  from fetch_only_free_slots[OF s(1) this s(2)] demo_relay_loops s show ?thesis by auto
qed

section \<open>Configurations on the wire\<close>

text \<open>The narrowing casts lose nothing on validated values.\<close>

lemma sint_ucast_i64: "sint (ucast (w :: u32) :: i64) = int (unat w)"
proof -
  have w: "unat w < 2 ^ 32" using unsigned_less[of w] by simp
  then have "unat (ucast w :: i64) = unat w"
    by (simp add: unsigned_ucast_eq take_bit_nat_eq_self_iff)
  with w sint_small[of "ucast w :: i64"] show ?thesis by simp
qed

lemma sint_ucast_i32:
  assumes "unat (w :: u64) < 2 ^ 31" shows "sint (ucast w :: i32) = int (unat w)"
proof -
  have "unat (ucast w :: i32) = unat w"
    using assms by (simp add: unsigned_ucast_eq take_bit_nat_eq_self_iff)
  then have u: "uint (ucast w :: i32) = int (unat w)"
    by (metis uint_nat)
  have "int (unat w) < 2 ^ 31"
    using assms by (simp only: of_nat_less_numeral_power_cancel_iff)
  moreover have "- (2 ^ 31) \<le> int (unat w)" by (rule order_trans[OF _ of_nat_0_le_iff]) simp
  ultimately have "signed_take_bit 31 (int (unat w)) = int (unat w)"
    by (rule signed_take_bit_int_eq_self[rotated])
  then show ?thesis by (simp add: sint_uint u)
qed

text \<open>The stream's message limit is the configured one, and positive.\<close>

theorem stream_limit_exact:
  assumes "config_load toml p text = Inr c"
  shows "sint (sc_max_message_size (stream_config_of c)) = int (unat (max_event_bytes c)) \<and>
     0 < sint (sc_max_message_size (stream_config_of c))"
proof -
  note v = config_validate_okD[OF config_load_okD[OF assms]]
  from v(3) have le: "unat (max_event_bytes c) < 2 ^ 31"
    by (simp add: word_le_nat_alt i32_max_def)
  from v(2) have "0 < uint (max_event_bytes c)" by (metis order_le_less uint_0_iff uint_ge_0)
  with sint_ucast_i32[OF le] show ?thesis by (simp add: stream_config_of_def)
qed

theorem stream_limit_exact_witness:
  "sint (sc_max_message_size (stream_config_of default_config)) = 262144"
  using stream_limit_exact[OF default_config_load] by (simp add: default_config_def)

text \<open>A consumer lets the server hand out as many unacknowledged messages as handlers may run.\<close>

theorem consumer_limit_exact:
  assumes "bind_consumer env a mc rl = Inr cc"
  shows "sint (cc_max_ack_pending cc) = int (unat mc) \<and> cc_ack_wait cc = rl_ack_wait rl \<and>
     cc_filter_subject cc = subject a \<and> cc_durable_name cc = Some (''agent-'' @ as_str a)"
  using assms
  by (auto simp: bind_consumer_def consumer_config_of_def sint_ucast_i64 consumer_name_def split: if_splits)

theorem consumer_limit_exact_witness:
  "\<exists>cc. bind_consumer demo_relay_env demo_id 7 demo_relay = Inr cc \<and> sint (cc_max_ack_pending cc) = 7"
proof -
  obtain cc where "bind_consumer demo_relay_env demo_id 7 demo_relay = Inr cc"
    by (simp add: bind_consumer_def demo_relay_env_def)
  with consumer_limit_exact[OF this] show ?thesis by simp
qed

text \<open>Different agents have different consumers and different subjects.\<close>

theorem names_injective:
  "(consumer_name a = consumer_name b \<longleftrightarrow> a = b) \<and> (subject a = subject b \<longleftrightarrow> a = b)"
  by (auto simp: consumer_name_def subject_def as_str_def agent_id.expand)

lemma keepalive_nth:
  "i < n \<Longrightarrow> keepalive_times interval now n ! i = now + (i + 1) * interval"
proof (induction n arbitrary: now i)
  case (Suc n)
  then show ?case by (cases i) auto
qed simp

text \<open>Every progress ack comes before the wait that started with the previous one is over.\<close>

theorem progress_before_timeout:
  assumes "config_load toml p text = Inr c" and "i < n"
  shows "keepalive_times (unat (ack_progress_interval_secs c)) 0 n ! i <
     (if i = 0 then 0 else keepalive_times (unat (ack_progress_interval_secs c)) 0 n ! (i - 1)) +
     unat (ack_wait_secs c)"
proof -
  from config_validate_okD(4)[OF config_load_okD[OF assms(1)]]
  have "unat (ack_progress_interval_secs c) < unat (ack_wait_secs c)" by (simp add: word_less_nat_alt)
  with assms(2) show ?thesis by (cases i) (auto simp: keepalive_nth)
qed

theorem progress_before_timeout_witness:
  "keepalive_times 90 0 3 ! 2 < keepalive_times 90 0 3 ! 1 + 300"
  using progress_before_timeout[OF default_config_load, of 2 3] by (simp add: default_config_def)

section \<open>Secrets in the log\<close>

text \<open>The lines logged while connecting depend on the URL only through its redacted form.\<close>

theorem connect_log_redacted:
  assumes "redact_url u = redact_url v"
  shows "snd (connect creds_ok mode_of ok (c\<lparr>nats_url := u\<rparr>)) =
         snd (connect creds_ok mode_of ok (c\<lparr>nats_url := v\<rparr>)) \<and>
         on_nats_event u ev flag = on_nats_event v ev flag"
  using assms by (cases ev) (auto simp: connect_def split: option.splits)

theorem connect_log_redacted_witness:
  "snd (connect (\<lambda>_. True) (\<lambda>_. None) True (default_config\<lparr>nats_url := ''nats://u:secret@h''\<rparr>)) =
   snd (connect (\<lambda>_. True) (\<lambda>_. None) True (default_config\<lparr>nats_url := ''nats://v:hidden@h''\<rparr>))"
proof -
  have "redact_url ''nats://u:secret@h'' = redact_url ''nats://v:hidden@h''" by code_simp
  from connect_log_redacted[OF this] show ?thesis by blast
qed

text \<open>The error of a failed connection does not: it shows the password.\<close>

theorem connect_error_unredacted:
  "redact_url ''nats://u:secret@h'' = ''nats://***@h'' \<and>
   fst (connect creds_ok mode_of False (default_config\<lparr>nats_url := ''nats://u:secret@h''\<rparr>)) =
     Inl (agentd_error.Relay (CannotConnect ''nats://u:secret@h''))"
proof
  show "redact_url ''nats://u:secret@h'' = ''nats://***@h''" by code_simp
qed (simp add: connect_def default_config_def)

text \<open>Loose permissions are reported exactly when the group or others have some access.\<close>

lemma loose_creds_bits:
  assumes "mode_of p = Some mode"
  shows "warn_if_loose_creds mode_of p \<longleftrightarrow> (\<exists>i < 6. bit mode i)"
proof -
  have "bit (63 :: u32) i \<longleftrightarrow> i < 6" for i
  proof -
    have "(63 :: u32) = mask 6" by (simp add: mask_eq_exp_minus_1)
    show ?thesis unfolding \<open>63 = mask 6\<close> bit_mask_iff by auto
  qed
  then have "mode AND 63 \<noteq> 0 \<longleftrightarrow> (\<exists>i < 6. bit mode i)"
    by (auto simp: bit_eq_iff bit_and_iff)
  with assms show ?thesis by (simp add: warn_if_loose_creds_def)
qed

end
