(* ===== verification/Control.thy ===== *)
theory Control
  imports Relay
begin

text \<open>
  The control plane (\<open>src/control.rs\<close>): the wire types with their serde forms, the handle every
  mutation goes through, the handling of a request, a connection, and the socket.  The registry that
  the dispatcher, the relay and the handle share is \<open>dp_registry\<close> of the dispatcher.  The text of an
  error is the parameter \<open>show_error\<close>, that of a malformed request \<open>show_malformed\<close>.
\<close>

section \<open>Wire types\<close>

datatype request =
    Register agent_config
  | Update agent_config
  | Unregister agent_id
  | List
  | Reload
  | Status

record agent_status =
  as_agent_id :: agent_id
  as_handler :: path
  as_max_concurrency :: u32
  as_enabled :: bool
  as_in_flight :: u64
  as_num_pending :: "u64 option"
  as_num_ack_pending :: "u64 option"

record status_report =
  sr_daemon_version :: string
  sr_nats_connected :: bool
  sr_agents :: "agent_status list"

record response =
  rs_ok :: bool
  rs_error :: "string option"
  rs_agents :: "agent_config list option"
  rs_status :: "status_report option"

definition response_ok :: response where
  "response_ok = \<lparr>rs_ok = True, rs_error = None, rs_agents = None, rs_status = None\<rparr>"

definition response_err :: "string \<Rightarrow> response" where
  "response_err e = \<lparr>rs_ok = False, rs_error = Some e, rs_agents = None, rs_status = None\<rparr>"

definition DAEMON_VERSION :: string where
  "DAEMON_VERSION = ''0.1.0''"

section \<open>Serde\<close>

text \<open>\<open>#[serde(tag = "op", rename_all = "lowercase")]\<close>.\<close>

definition serialize_request :: "request \<Rightarrow> sval" where
  "serialize_request r =
     (case r of
        Register c \<Rightarrow> VObj [(''op'', VStr ''register''), (''agent'', serialize_agent_config c)]
      | Update c \<Rightarrow> VObj [(''op'', VStr ''update''), (''agent'', serialize_agent_config c)]
      | Unregister a \<Rightarrow> VObj [(''op'', VStr ''unregister''), (''agent_id'', serialize_agent_id a)]
      | List \<Rightarrow> VObj [(''op'', VStr ''list'')]
      | Reload \<Rightarrow> VObj [(''op'', VStr ''reload'')]
      | Status \<Rightarrow> VObj [(''op'', VStr ''status'')])"

definition one_field :: "string \<Rightarrow> (sval \<Rightarrow> 'a option) \<Rightarrow> sval \<Rightarrow> 'a option" where
  "one_field name dec v =
     (case struct_fields False [name] v of None \<Rightarrow> None | Some fs \<Rightarrow> req fs name dec)"

definition deserialize_request :: "sval \<Rightarrow> request option" where
  "deserialize_request v =
     (case tagged ''op'' v of
        None \<Rightarrow> None
      | Some (op, content) \<Rightarrow>
          if op = ''register'' then map_option Register (one_field ''agent'' deserialize_agent_config content)
          else if op = ''update'' then map_option Update (one_field ''agent'' deserialize_agent_config content)
          else if op = ''unregister'' then map_option Unregister (one_field ''agent_id'' deserialize_agent_id content)
          else if op = ''list'' then (if unit_variant content then Some List else None)
          else if op = ''reload'' then (if unit_variant content then Some Reload else None)
          else if op = ''status'' then (if unit_variant content then Some Status else None)
          else None)"

definition status_fields :: "string list" where
  "status_fields = [''agent_id'', ''handler'', ''max_concurrency'', ''enabled'', ''in_flight'',
                    ''num_pending'', ''num_ack_pending'']"

definition serialize_agent_status :: "agent_status \<Rightarrow> sval" where
  "serialize_agent_status a =
     VObj [(''agent_id'', serialize_agent_id (as_agent_id a)), (''handler'', VStr (as_handler a)),
           (''max_concurrency'', of_u32 (as_max_concurrency a)), (''enabled'', VBool (as_enabled a)),
           (''in_flight'', of_u64 (as_in_flight a)), (''num_pending'', of_option of_u64 (as_num_pending a)),
           (''num_ack_pending'', of_option of_u64 (as_num_ack_pending a))]"

definition deserialize_agent_status :: "sval \<Rightarrow> agent_status option" where
  "deserialize_agent_status v =
     (case struct_fields False status_fields v of
        None \<Rightarrow> None
      | Some fs \<Rightarrow>
          (case (req fs ''agent_id'' deserialize_agent_id, req fs ''handler'' as_string,
                 req fs ''max_concurrency'' as_u32, req fs ''enabled'' as_bool,
                 req fs ''in_flight'' as_u64, dflt fs ''num_pending'' (as_option as_u64) None,
                 dflt fs ''num_ack_pending'' (as_option as_u64) None) of
             (Some a, Some h, Some mc, Some en, Some fl, Some np, Some na) \<Rightarrow>
               Some \<lparr>as_agent_id = a, as_handler = h, as_max_concurrency = mc, as_enabled = en,
                     as_in_flight = fl, as_num_pending = np, as_num_ack_pending = na\<rparr>
           | _ \<Rightarrow> None))"

definition report_fields :: "string list" where
  "report_fields = [''daemon_version'', ''nats_connected'', ''agents'']"

definition serialize_report :: "status_report \<Rightarrow> sval" where
  "serialize_report r =
     VObj [(''daemon_version'', VStr (sr_daemon_version r)), (''nats_connected'', VBool (sr_nats_connected r)),
           (''agents'', VArr (map serialize_agent_status (sr_agents r)))]"

definition deserialize_report :: "sval \<Rightarrow> status_report option" where
  "deserialize_report v =
     (case struct_fields False report_fields v of
        None \<Rightarrow> None
      | Some fs \<Rightarrow>
          (case (req fs ''daemon_version'' as_string, req fs ''nats_connected'' as_bool,
                 req fs ''agents'' (as_vec deserialize_agent_status)) of
             (Some ver, Some con, Some ags) \<Rightarrow>
               Some \<lparr>sr_daemon_version = ver, sr_nats_connected = con, sr_agents = ags\<rparr>
           | _ \<Rightarrow> None))"

definition response_fields :: "string list" where
  "response_fields = [''ok'', ''error'', ''agents'', ''status'']"

text \<open>\<open>skip_serializing_if = "Option::is_none"\<close> on all fields but the first.\<close>

definition serialize_response :: "response \<Rightarrow> sval" where
  "serialize_response r =
     VObj ((''ok'', VBool (rs_ok r)) #
       (case rs_error r of None \<Rightarrow> [] | Some e \<Rightarrow> [(''error'', VStr e)]) @
       (case rs_agents r of None \<Rightarrow> []
        | Some cs \<Rightarrow> [(''agents'', VArr (map serialize_agent_config cs))]) @
       (case rs_status r of None \<Rightarrow> [] | Some s \<Rightarrow> [(''status'', serialize_report s)]))"

definition deserialize_response :: "sval \<Rightarrow> response option" where
  "deserialize_response v =
     (case struct_fields False response_fields v of
        None \<Rightarrow> None
      | Some fs \<Rightarrow>
          (case (req fs ''ok'' as_bool, dflt fs ''error'' (as_option as_string) None,
                 dflt fs ''agents'' (as_option (as_vec deserialize_agent_config)) None,
                 dflt fs ''status'' (as_option deserialize_report) None) of
             (Some k, Some e, Some ags, Some st) \<Rightarrow>
               Some \<lparr>rs_ok = k, rs_error = e, rs_agents = ags, rs_status = st\<rparr>
           | _ \<Rightarrow> None))"

section \<open>Round trips\<close>

fun valid_request :: "request \<Rightarrow> bool" where
  "valid_request (Register c) = valid_id (agent_id c)"
| "valid_request (Update c) = valid_id (agent_id c)"
| "valid_request (Unregister a) = valid_id a"
| "valid_request _ = True"

definition valid_report :: "status_report \<Rightarrow> bool" where
  "valid_report s = (\<forall>a \<in> set (sr_agents s). valid_id (as_agent_id a))"

definition valid_response :: "response \<Rightarrow> bool" where
  "valid_response r =
     ((\<forall>cs. rs_agents r = Some cs \<longrightarrow> (\<forall>c \<in> set cs. valid_id (agent_id c))) \<and>
      (\<forall>s. rs_status r = Some s \<longrightarrow> valid_report s))"

lemma request_roundtrip: "valid_request r \<Longrightarrow> deserialize_request (serialize_request r) = Some r"
  by (cases r)
    (simp_all add: serialize_request_def deserialize_request_def one_field_def req_def
      agent_config_json agent_id_serde)

lemma agent_status_roundtrip:
  "valid_id (as_agent_id a) \<Longrightarrow> deserialize_agent_status (serialize_agent_status a) = Some a"
  by (simp add: deserialize_agent_status_def serialize_agent_status_def status_fields_def req_def dflt_def
      agent_id_serde as_of_option)

lemma report_roundtrip: "valid_report s \<Longrightarrow> deserialize_report (serialize_report s) = Some s"
  by (simp add: valid_report_def deserialize_report_def serialize_report_def report_fields_def req_def
      map_opt_map[of _ deserialize_agent_status serialize_agent_status] agent_status_roundtrip)

lemma response_roundtrip:
  assumes "valid_response r" shows "deserialize_response (serialize_response r) = Some r"
proof -
  have "serialize_report s \<noteq> VNull" for s by (simp add: serialize_report_def)
  with assms show ?thesis
    by (cases "rs_error r"; cases "rs_agents r"; cases "rs_status r")
      (simp_all add: valid_response_def deserialize_response_def serialize_response_def
        response_fields_def req_def dflt_def as_option_def report_roundtrip
        map_opt_map[of _ deserialize_agent_config serialize_agent_config] agent_config_json)
qed

text \<open>C32. Every request and every response that the two programs exchange survives the wire.\<close>

theorem wire_roundtrip:
  assumes "valid_request rq" and "valid_response rs"
  shows "deserialize_request (serialize_request rq) = Some rq \<and>
     deserialize_response (serialize_response rs) = Some rs"
  using request_roundtrip[OF assms(1)] response_roundtrip[OF assms(2)] by simp

theorem wire_roundtrip_witness:
  "deserialize_request (serialize_request (Register demo_config)) = Some (Register demo_config) \<and>
   deserialize_response (serialize_response (response_ok\<lparr>rs_agents := Some [demo_config]\<rparr>)) =
     Some (response_ok\<lparr>rs_agents := Some [demo_config]\<rparr>)"
proof (rule wire_roundtrip)
  show "valid_request (Register demo_config)" by (simp add: demo_valid)
  show "valid_response (response_ok\<lparr>rs_agents := Some [demo_config]\<rparr>)"
    by (simp add: valid_response_def response_ok_def demo_valid)
qed

section \<open>The handle\<close>

record daemon =
  dm_disp :: dispatcher
  dm_relay :: relay
  dm_connected :: bool

abbreviation dm_registry :: "daemon \<Rightarrow> registry" where
  "dm_registry w \<equiv> dp_registry (dm_disp w)"

definition set_registry :: "registry \<Rightarrow> daemon \<Rightarrow> daemon" where
  "set_registry r w = w\<lparr>dm_disp := (dm_disp w)\<lparr>dp_registry := r\<rparr>\<rparr>"

text \<open>The answers a control operation depends on: the file system, the server, the backlog queries.\<close>

record ctl_env =
  ce_io :: io_env
  ce_relay :: relay_env
  ce_info :: "string \<Rightarrow> (u64 \<times> u64) option"

text \<open>\<open>DaemonHandle::apply\<close>: the dispatcher's states, then the relay.\<close>

definition daemon_apply :: "ctl_env \<Rightarrow> change list \<Rightarrow> daemon \<Rightarrow> daemon" where
  "daemon_apply env cs w =
     w\<lparr>dm_disp := dispatcher_apply_changes cs (dm_disp w),
       dm_relay := snd (relay_apply_changes (ce_relay env) (get (dm_registry w)) cs (dm_relay w))\<rparr>"

definition handle_register :: "toml_codec \<Rightarrow> ctl_env \<Rightarrow> agent_config \<Rightarrow> daemon \<Rightarrow> unit result \<times> daemon" where
  "handle_register tc env c w =
     (case register tc (ce_io env) c (dm_registry w) of
        (Inl e, r) \<Rightarrow> (Inl e, set_registry r w)
      | (Inr _, r) \<Rightarrow> (Inr (), daemon_apply env [Added c] (set_registry r w)))"

definition handle_update :: "toml_codec \<Rightarrow> ctl_env \<Rightarrow> agent_config \<Rightarrow> daemon \<Rightarrow> unit result \<times> daemon" where
  "handle_update tc env c w =
     (case update tc (ce_io env) c (dm_registry w) of
        (Inl e, r) \<Rightarrow> (Inl e, set_registry r w)
      | (Inr _, r) \<Rightarrow> (Inr (), daemon_apply env [Updated c] (set_registry r w)))"

definition handle_unregister :: "ctl_env \<Rightarrow> agent_id \<Rightarrow> daemon \<Rightarrow> unit result \<times> daemon" where
  "handle_unregister env a w =
     (case unregister (ce_io env) a (dm_registry w) of
        (Inl e, r) \<Rightarrow> (Inl e, set_registry r w)
      | (Inr _, r) \<Rightarrow> (Inr (), daemon_apply env [Removed a] (set_registry r w)))"

definition handle_reload :: "toml_codec \<Rightarrow> ctl_env \<Rightarrow> daemon \<Rightarrow> change list result \<times> daemon" where
  "handle_reload tc env w =
     (case reload tc (ce_io env) (dm_registry w) of
        (Inl e, r) \<Rightarrow> (Inl e, set_registry r w)
      | (Inr cs, r) \<Rightarrow> (Inr cs, daemon_apply env cs (set_registry r w)))"

section \<open>Requests\<close>

definition into_resp :: "(agentd_error \<Rightarrow> string) \<Rightarrow> 'a result \<Rightarrow> response" where
  "into_resp show_error r = (case r of Inr _ \<Rightarrow> response_ok | Inl e \<Rightarrow> response_err (show_error e))"

definition status_of :: "ctl_env \<Rightarrow> daemon \<Rightarrow> agent_config \<Rightarrow> agent_status" where
  "status_of env w c =
     (let backlog = consumer_backlog (ce_relay env) (ce_info env) (agent_id c) in
      \<lparr>as_agent_id = agent_id c, as_handler = handler c, as_max_concurrency = max_concurrency c,
       as_enabled = enabled c, as_in_flight = of_nat (in_flight (agent_id c) (dm_disp w)),
       as_num_pending = map_option fst backlog, as_num_ack_pending = map_option snd backlog\<rparr>)"

fun handle_request :: "toml_codec \<Rightarrow> (agentd_error \<Rightarrow> string) \<Rightarrow> ctl_env \<Rightarrow> daemon \<Rightarrow> request \<Rightarrow> response \<times> daemon" where
  "handle_request tc show_error env w (Register c) =
     (case handle_register tc env c w of (r, w') \<Rightarrow> (into_resp show_error r, w'))"
| "handle_request tc show_error env w (Update c) =
     (case handle_update tc env c w of (r, w') \<Rightarrow> (into_resp show_error r, w'))"
| "handle_request tc show_error env w (Unregister a) =
     (case handle_unregister env a w of (r, w') \<Rightarrow> (into_resp show_error r, w'))"
| "handle_request tc show_error env w List =
     (response_ok\<lparr>rs_agents := Some (snapshot (dm_registry w))\<rparr>, w)"
| "handle_request tc show_error env w Reload =
     (case handle_reload tc env w of (r, w') \<Rightarrow> (into_resp show_error r, w'))"
| "handle_request tc show_error env w Status =
     (response_ok\<lparr>rs_status :=
        Some \<lparr>sr_daemon_version = DAEMON_VERSION, sr_nats_connected = dm_connected w,
              sr_agents = map (status_of env w) (snapshot (dm_registry w))\<rparr>\<rparr>, w)"

section \<open>A connection\<close>

record json_codec =
  json_parse :: "string \<Rightarrow> sval option"
  json_print :: "sval \<Rightarrow> string option"

record texts =
  tx_error :: "agentd_error \<Rightarrow> string"
  tx_malformed :: "string \<Rightarrow> string"

definition parse_request :: "json_codec \<Rightarrow> string \<Rightarrow> request option" where
  "parse_request js line = (case json_parse js line of None \<Rightarrow> None | Some v \<Rightarrow> deserialize_request v)"

definition answer_line ::
    "toml_codec \<Rightarrow> json_codec \<Rightarrow> texts \<Rightarrow> ctl_env \<Rightarrow> daemon \<Rightarrow> string \<Rightarrow> response \<times> daemon" where
  "answer_line tc js tx env w line =
     (case parse_request js line of
        Some rq \<Rightarrow> handle_request tc (tx_error tx) env w rq
      | None \<Rightarrow> (response_err (tx_malformed tx line), w))"

definition serialization_failed :: string where
  \<open>serialization_failed = ''{"ok":false,"error":"response serialization failed"}''\<close>

definition render_response :: "json_codec \<Rightarrow> response \<Rightarrow> string" where
  "render_response js r =
     (case json_print js (serialize_response r) of None \<Rightarrow> serialization_failed | Some t \<Rightarrow> t) @ [CHR 0x0A]"

text \<open>
  \<open>serve_connection\<close>: each item is the environment of a request, the next line (\<open>None\<close>: the read fails)
  and whether its answer can be written; the end of the list is the end of the stream.  The result:
  whether the connection ended without an error, the answers written, the daemon.
\<close>

fun serve_connection :: "toml_codec \<Rightarrow> json_codec \<Rightarrow> texts \<Rightarrow> (ctl_env \<times> string option \<times> bool) list \<Rightarrow>
    daemon \<Rightarrow> bool \<times> string list \<times> daemon" where
  "serve_connection tc js tx [] w = (True, [], w)"
| "serve_connection tc js tx ((env, None, wr) # items) w = (False, [], w)"
| "serve_connection tc js tx ((env, Some line, wr) # items) w =
     (if trim line = [] then serve_connection tc js tx items w
      else case answer_line tc js tx env w line of
        (r, w') \<Rightarrow>
          if wr
          then (case serve_connection tc js tx items w' of
                  (good, outs, w'') \<Rightarrow> (good, render_response js r # outs, w''))
          else (False, [], w'))"

text \<open>
  \<open>serve\<close>: for each answer of \<open>accept\<close>, in order, what the loop does.  A connection is served by a task of
  its own; a failed accept is logged and followed by a pause.
\<close>

datatype 'c accept_answer = Accepted 'c | Accept_Failed

datatype 'c serve_op = Spawn_Connection 'c | Warn_Accept_Failed | Sleep_Millis nat

fun serve :: "'c accept_answer list \<Rightarrow> 'c serve_op list" where
  "serve [] = []"
| "serve (Accepted stream # answers) = Spawn_Connection stream # serve answers"
| "serve (Accept_Failed # answers) = Warn_Accept_Failed # Sleep_Millis 100 # serve answers"

text \<open>No failure ends the loop: every accepted connection is served, in the order of the arrivals.\<close>

lemma serve_connections:
  "[c. Spawn_Connection c \<leftarrow> serve answers] = [c. Accepted c \<leftarrow> answers]"
  by (induction answers rule: serve.induct) auto

section \<open>The socket\<close>

definition socket_path :: "path option \<Rightarrow> daemon_config \<Rightarrow> path" where
  "socket_path runtime_dir c =
     (case control_socket c of
        Some p \<Rightarrow> p
      | None \<Rightarrow> path_join (path_join (unwrap_or_default runtime_dir) ''agentd'') ''control.sock'')"

datatype socket_op = Remove_File | Make_Dir path | Bind_Socket | Chmod_Socket u32

record socket_env =
  so_exists :: bool
  so_remove :: bool
  so_parent :: "path option"
  so_mkdir :: bool
  so_bind :: bool
  so_chmod :: bool

text \<open>\<open>bind\<close>: the operations that were performed, and the result; \<open>384\<close> is octal 600.\<close>

definition bind_socket :: "socket_env \<Rightarrow> path \<Rightarrow> unit result \<times> socket_op list" where
  "bind_socket env p =
     (if so_exists env \<and> \<not> so_remove env then (Inl (Config (Cannot Remove_Op p)), [])
      else
        let ops1 = (if so_exists env then [Remove_File] else []) in
        case (case so_parent env of
                Some parent \<Rightarrow> if so_mkdir env then Inr [Make_Dir parent] else Inl (Config (Cannot Create_Op parent))
              | None \<Rightarrow> Inr []) of
          Inl e \<Rightarrow> (Inl e, ops1)
        | Inr ops2 \<Rightarrow>
            if \<not> so_bind env then (Inl (Config (Cannot Bind_Op p)), ops1 @ ops2)
            else if \<not> so_chmod env
            then (Inl (Config (Cannot Chmod_Op p)), ops1 @ ops2 @ [Bind_Socket])
            else (Inr (), ops1 @ ops2 @ [Bind_Socket, Chmod_Socket 384]))"

end
