(* ===== verification/Registry_Histories.thy ===== *)
theory Registry_Histories
  imports Registry
begin

text \<open>
  The registry over its lifetime: an abstract map of registrations that the operations refine,
  histories of operations under failing systems, restarts, and directories edited from outside.
\<close>

section \<open>The abstract map\<close>

datatype registry_op =
    Op_Register agent_config
  | Op_Update agent_config
  | Op_Set_Enabled agent_id bool
  | Op_Unregister agent_id

fun registry_do :: "toml_codec \<Rightarrow> io_env \<Rightarrow> registry_op \<Rightarrow> registry \<Rightarrow> unit result \<times> registry" where
  "registry_do tc io (Op_Register c) r = register tc io c r"
| "registry_do tc io (Op_Update c) r = update tc io c r"
| "registry_do tc io (Op_Set_Enabled a en) r = set_enabled tc io a en r"
| "registry_do tc io (Op_Unregister a) r = unregister io a r"

text \<open>What an operation means on the map alone; \<open>None\<close>: it is refused.\<close>

type_synonym registrations = "agent_id \<Rightarrow> agent_config option"

fun spec_do :: "registry_op \<Rightarrow> registrations \<Rightarrow> registrations option" where
  "spec_do (Op_Register c) m =
     (if agent_config_validate c = Inr () \<and> m (agent_id c) = None then Some (m(agent_id c \<mapsto> c)) else None)"
| "spec_do (Op_Update c) m =
     (if agent_config_validate c = Inr () \<and> m (agent_id c) \<noteq> None then Some (m(agent_id c \<mapsto> c)) else None)"
| "spec_do (Op_Set_Enabled a en) m =
     (case m a of None \<Rightarrow> None | Some c \<Rightarrow> Some (m(a \<mapsto> c\<lparr>enabled := en\<rparr>)))"
| "spec_do (Op_Unregister a) m = (if m a = None then None else Some (m(a := None)))"

fun op_valid :: "registry_op \<Rightarrow> bool" where
  "op_valid (Op_Register c) = valid_id (agent_id c)"
| "op_valid (Op_Update c) = valid_id (agent_id c)"
| "op_valid (Op_Set_Enabled a en) = True"
| "op_valid (Op_Unregister a) = True"

text \<open>The system answers every call of the operation, and the registration it writes can be printed.\<close>

definition can_print :: "toml_codec \<Rightarrow> agent_config \<Rightarrow> bool" where
  "can_print tc c = (toml_print tc (serialize_agent_config c) \<noteq> None)"

fun op_prints :: "toml_codec \<Rightarrow> registry_op \<Rightarrow> registrations \<Rightarrow> bool" where
  "op_prints tc (Op_Register c) m = can_print tc c"
| "op_prints tc (Op_Update c) m = can_print tc c"
| "op_prints tc (Op_Set_Enabled a en) m =
     (case m a of None \<Rightarrow> True | Some c \<Rightarrow> can_print tc (c\<lparr>enabled := en\<rparr>))"
| "op_prints tc (Op_Unregister a) m = True"

definition io_answers :: "io_env \<Rightarrow> bool" where
  "io_answers io =
     (io_mkdir io \<and> io_create io \<and> io_write io = None \<and> io_sync io \<and> io_rename io \<and> io_remove io)"

lemma io_good_answers: "io_answers io_good"
  by (simp add: io_answers_def io_good_def)

section \<open>Refinement\<close>

lemma persist_answers:
  "io_answers io \<Longrightarrow> can_print tc c \<Longrightarrow> fst (persist tc io dir c d) = Inr ()"
  by (auto simp: persist_def io_answers_def can_print_def Let_def split: option.splits)

lemma registry_do_ok:
  assumes "toml_roundtrip tc" "op_valid x" "registry_ok tc r" "registry_do tc io x r = (res, r')"
  shows "registry_ok tc r'"
  using assms
  by (cases x) (auto intro: register_ok update_ok set_enabled_ok unregister_ok)

lemma registry_do_spec:
  assumes "registry_do tc io x r = (res, r')"
  shows "res = Inr () \<Longrightarrow> spec_do x (get r) = Some (get r')" "res \<noteq> Inr () \<Longrightarrow> get r' = get r"
  using assms
  by (cases x; force dest: register_get update_get unregister_get set_enabled_get split: option.splits)+

lemma file_of_registered:
  assumes "registry_ok tc r" "get r a \<noteq> None"
  shows "map_of (files (reg_disk r)) (file_name a) \<noteq> None"
proof -
  have "disk_config tc (reg_dir r) (visible (reg_disk r)) a \<noteq> None"
    using assms by (simp add: registry_ok_def synced_def get_def)
  then show ?thesis by (auto simp: disk_config_def visible_def split: option.splits if_splits)
qed

lemma registry_do_accepts:
  assumes "registry_ok tc r" "io_answers io" "op_prints tc x (get r)" "spec_do x (get r) \<noteq> None"
  shows "fst (registry_do tc io x r) = Inr ()"
proof (cases x)
  case (Op_Unregister a)
  with assms file_of_registered[OF assms(1), of a] show ?thesis
    by (auto simp: unregister_def io_answers_def split: if_splits)
next
  case (Op_Register c)
  with assms persist_answers[OF assms(2), of tc c "reg_dir r" "reg_disk r"] show ?thesis
    by (auto simp: register_def split: if_splits prod.splits)
next
  case (Op_Update c)
  with assms persist_answers[OF assms(2), of tc c "reg_dir r" "reg_disk r"] show ?thesis
    by (auto simp: update_def split: if_splits prod.splits)
next
  case (Op_Set_Enabled a en)
  with assms(4) obtain c where c: "get r a = Some c" by (auto split: option.splits)
  with Op_Set_Enabled assms persist_answers[OF assms(2), of tc "c\<lparr>enabled := en\<rparr>" "reg_dir r" "reg_disk r"]
  show ?thesis by (auto simp: set_enabled_def Let_def split: prod.splits)
qed

section \<open>Histories and restarts\<close>

text \<open>A history: operations, each with what the system answered to it.\<close>

fun registry_history :: "toml_codec \<Rightarrow> (io_env \<times> registry_op) list \<Rightarrow> registry \<Rightarrow> registry" where
  "registry_history tc [] r = r"
| "registry_history tc ((io, x) # h) r = registry_history tc h (snd (registry_do tc io x r))"

lemma registry_history_ok:
  assumes "toml_roundtrip tc" "\<forall>(io, x) \<in> set h. op_valid x" "registry_ok tc r"
  shows "registry_ok tc (registry_history tc h r)"
  using assms
proof (induction tc h r rule: registry_history.induct)
  case (2 tc io x h r)
  then have "registry_ok tc (snd (registry_do tc io x r))"
    using registry_do_ok[OF _ _ _ prod.collapse[symmetric]] by auto
  with 2 show ?case by auto
qed simp

lemma registry_history_dir: "reg_dir (registry_history tc h r) = reg_dir r"
proof (induction tc h r rule: registry_history.induct)
  case (2 tc io x h r)
  have "reg_dir (snd (registry_do tc io x r)) = reg_dir r"
  proof (cases x)
    case (Op_Register c)
    then show ?thesis using register_get[OF prod.collapse[symmetric], of tc io c r] by simp
  next
    case (Op_Update c)
    then show ?thesis using update_get[OF prod.collapse[symmetric], of tc io c r] by simp
  next
    case (Op_Set_Enabled a en)
    then show ?thesis using set_enabled_get[OF prod.collapse[symmetric], of tc io a en r] by simp
  next
    case (Op_Unregister a)
    then show ?thesis using unregister_get[OF prod.collapse[symmetric], of io a r] by simp
  qed
  with 2 show ?case by simp
qed simp

lemma load_finds:
  assumes "registry_ok tc r" "visible d = visible (reg_disk r)" "disk_ok d"
    and "io_readdir io" "\<And>name. io_entry io name"
  shows "\<exists>r' d'. registry_load tc io (reg_dir r) d = (Inr r', d') \<and> get r' = get r \<and> registry_ok tc r'"
proof -
  from assms(1) have "synced tc r" by (simp add: registry_ok_def)
  from load_again[OF this assms(2-5)] obtain m d' where
    l: "load tc io (reg_dir r) d = (Inr m, d')" "map_of m = map_of (reg_agents r)" by blast
  from load_registry_ok[OF l(1) assms(3)] l show ?thesis
    by (auto simp: registry_load_def get_def fun_eq_iff)
qed

section \<open>Edited directories\<close>

text \<open>
  The reload of a directory that was edited since the registrations in memory were read: memory only
  has to be a map keyed by id.
\<close>

definition memory_ok :: "registry \<Rightarrow> bool" where
  "memory_ok r = (wf_map (reg_agents r) \<and> keyed (reg_agents r) \<and> disk_ok (reg_disk r))"

lemma registry_ok_memory: "registry_ok tc r \<Longrightarrow> memory_ok r"
  using registry_ok_keyed by (auto simp: memory_ok_def registry_ok_def)

lemma edited_reload:
  assumes "memory_ok r" "reload tc io r = (Inr cs, r')"
  shows "registry_ok tc r'" "keyed (reg_agents r')" "cs = reload_changes (reg_agents r) (reg_agents r')"
    "reg_dir r' = reg_dir r"
proof -
  obtain m d where l: "load tc io (reg_dir r) (reg_disk r) = (Inr m, d)"
      "r' = r\<lparr>reg_disk := d, reg_agents := m\<rparr>" "cs = reload_changes (reg_agents r) m"
    using assms(2) by (auto simp: reload_def split: sum.splits prod.splits)
  from load_registry_ok[OF l(1)] assms(1) l(2) show "registry_ok tc r'"
    by (simp add: memory_ok_def registry_ok_def synced_def)
  then show "keyed (reg_agents r')" by (rule registry_ok_keyed)
  show "cs = reload_changes (reg_agents r) (reg_agents r')" "reg_dir r' = reg_dir r"
    using l(2,3) by simp_all
qed

lemma reload_changes_ids:
  assumes "keyed old" "keyed new"
  shows "change_agent_id ` set (reload_changes old new) = {a. map_of old a \<noteq> map_of new a}"
proof (intro set_eqI iffI)
  fix a assume "a \<in> change_agent_id ` set (reload_changes old new)"
  with reload_changes_mem[OF assms] show "a \<in> {a. map_of old a \<noteq> map_of new a}"
    using id_change_Nil_iff[of a "map_of old a" "map_of new a"] by fastforce
next
  fix a assume "a \<in> {a. map_of old a \<noteq> map_of new a}"
  then have "id_change a (map_of old a) (map_of new a) \<noteq> []" by (simp add: id_change_Nil_iff)
  then obtain x where x: "x \<in> set (id_change a (map_of old a) (map_of new a))" by (meson list.set_sel(1))
  moreover have "change_agent_id x = a"
    using x assms by (intro id_change_id[of "map_of old a" a "map_of new a"]) (auto simp: keyed_def)
  ultimately show "a \<in> change_agent_id ` set (reload_changes old new)"
    using reload_changes_mem[OF assms, of x] by force
qed

section \<open>Samples\<close>

lemma demo_name: "''a.toml'' = file_name demo_id"
  by code_simp

lemma demo_reads: "read_agent_file demo_codec p (Readable ''t'') = Inr demo_config"
  by (rule read_agent_file_written[OF demo_codec_roundtrip demo_valid(1)]) (simp add: demo_codec_def)

lemma demo_loads:
  "load demo_codec io_good dir (demo_disk [(''a.toml'', Readable ''t'')]) =
     (Inr [(demo_id, demo_config)], demo_disk [(''a.toml'', Readable ''t'')])"
  using demo_valid demo_reads
  unfolding demo_name
  by (simp add: load_def demo_disk_def io_good_def file_name_not_tmp file_name_stem valid_config_def)

definition empty_registry :: "(string \<times> dentry) list \<Rightarrow> registry" where
  "empty_registry fs = \<lparr>reg_dir = ''/d'', reg_agents = [], reg_disk = demo_disk fs\<rparr>"

lemma empty_registry_ok: "registry_ok tc (empty_registry [])"
  by (auto simp: empty_registry_def registry_ok_def disk_ok_def demo_disk_def synced_def visible_def
      disk_config_def fun_eq_iff)

lemma demo_registers:
  "registry_do demo_codec io_good (Op_Register demo_config) (empty_registry []) =
     (Inr (), \<lparr>reg_dir = ''/d'', reg_agents = [(demo_id, demo_config)],
               reg_disk = demo_disk [(''a.toml'', Readable ''t'')]\<rparr>)"
  by code_simp

lemma demo_reloads:
  "reload demo_codec io_good (empty_registry [(''a.toml'', Readable ''t'')]) =
     (Inr [Added demo_config],
      \<lparr>reg_dir = ''/d'', reg_agents = [(demo_id, demo_config)],
       reg_disk = demo_disk [(''a.toml'', Readable ''t'')]\<rparr>)"
  by (simp add: reload_def empty_registry_def demo_loads reload_changes_def keys_def)

section \<open>Properties\<close>

text \<open>
  C16. The four mutations refine the map of registrations: one that succeeds is the operation of the map,
  one that fails changes no registration, memory and directory stay in step, and when the system
  answers, what fails is exactly what the map refuses.
\<close>

theorem registry_refines_map:
  assumes "toml_roundtrip tc" and "op_valid x" and "registry_ok tc r"
    and "registry_do tc io x r = (res, r')"
  shows "registry_ok tc r'
     \<and> (if res = Inr () then spec_do x (get r) = Some (get r') else get r' = get r)
     \<and> (io_answers io \<and> op_prints tc x (get r) \<longrightarrow> (res = Inr () \<longleftrightarrow> spec_do x (get r) \<noteq> None))"
proof -
  have "io_answers io \<Longrightarrow> op_prints tc x (get r) \<Longrightarrow> spec_do x (get r) \<noteq> None \<Longrightarrow> res = Inr ()"
    using registry_do_accepts[OF assms(3), of io x] assms(4) by simp
  with registry_do_ok[OF assms] registry_do_spec[OF assms(4)] show ?thesis by force
qed

theorem registry_refines_map_witness:
  "spec_do (Op_Register demo_config) (get (empty_registry [])) = Some [demo_id \<mapsto> demo_config]"
proof -
  have "op_valid (Op_Register demo_config)" by (simp add: demo_valid)
  from registry_refines_map[OF demo_codec_roundtrip this empty_registry_ok demo_registers]
  show ?thesis by (auto simp: get_def fun_eq_iff)
qed

text \<open>
  C17. After any history of mutations, whatever call of the system failed in each, a restart finds the
  registrations the process had: loading any directory that shows the same files, in any order of
  enumeration and with any temporary files left behind, succeeds with the same map.
\<close>

theorem restart_recovers:
  assumes "toml_roundtrip tc" and "registry_ok tc r" and "\<forall>(io, x) \<in> set h. op_valid x"
    and "visible d = visible (reg_disk (registry_history tc h r))" and "disk_ok d"
    and "io_readdir io'" and "\<And>name. io_entry io' name"
  shows "\<exists>r' d'. registry_load tc io' (reg_dir r) d = (Inr r', d') \<and>
     get r' = get (registry_history tc h r) \<and> registry_ok tc r'"
  using load_finds[OF registry_history_ok[OF assms(1,3,2)] assms(4-7)] by (simp add: registry_history_dir)

theorem restart_recovers_witness:
  "\<exists>r' d'. registry_load demo_codec io_good ''/d''
      (demo_disk [(''.b.7.tmp'', Readable ''?''), (''a.toml'', Readable ''t'')]) = (Inr r', d') \<and>
     get r' = [demo_id \<mapsto> demo_config]"
proof -
  let ?d = "demo_disk [(''.b.7.tmp'', Readable ''?''), (''a.toml'', Readable ''t'')]"
  let ?h = "[(io_good, Op_Register demo_config)]"
  have h: "registry_history demo_codec ?h (empty_registry []) =
      \<lparr>reg_dir = ''/d'', reg_agents = [(demo_id, demo_config)],
       reg_disk = demo_disk [(''a.toml'', Readable ''t'')]\<rparr>"
    using demo_registers by simp
  have "is_tmp ''.b.7.tmp''" by code_simp
  then have v: "visible ?d = visible (reg_disk (registry_history demo_codec ?h (empty_registry [])))"
    unfolding h by (auto simp: visible_def demo_disk_def fun_eq_iff)
  have d: "disk_ok ?d" by (simp add: disk_ok_def demo_disk_def wf_map_def)
  have ops: "\<forall>(io, x) \<in> set ?h. op_valid x" by (simp add: demo_valid)
  have io: "io_readdir io_good" "\<And>name. io_entry io_good name" by (simp_all add: io_good_def)
  from restart_recovers[OF demo_codec_roundtrip empty_registry_ok ops v d io]
  show ?thesis unfolding h by (auto simp: empty_registry_def get_def fun_eq_iff)
qed

text \<open>What each kind of change says of the registrations before and after.\<close>

fun reported :: "(agent_id \<Rightarrow> agent_config option) \<Rightarrow> (agent_id \<Rightarrow> agent_config option) \<Rightarrow> change \<Rightarrow> bool" where
  "reported old new (Added c) = (old (agent_id c) = None \<and> new (agent_id c) = Some c)"
| "reported old new (Removed a) = (old a \<noteq> None \<and> new a = None)"
| "reported old new (Enabled c) =
     (\<exists>was. old (agent_id c) = Some was \<and> \<not> enabled was \<and> new (agent_id c) = Some c \<and> enabled c)"
| "reported old new (Disabled c) =
     (\<exists>was. old (agent_id c) = Some was \<and> enabled was \<and> new (agent_id c) = Some c \<and> \<not> enabled c)"
| "reported old new (Updated c) =
     (\<exists>was. old (agent_id c) = Some was \<and> was \<noteq> c \<and> new (agent_id c) = Some c \<and> enabled was = enabled c)"

lemma id_change_reported:
  "x \<in> set (id_change (change_agent_id x) (old (change_agent_id x)) (new (change_agent_id x))) \<longleftrightarrow> reported old new x"
  by (cases x; cases "old (change_agent_id x)"; cases "new (change_agent_id x)") auto

text \<open>
  C18. A reload of an edited directory reports exactly the difference: a change is reported exactly when the
  registrations before and after are those its kind speaks of (added, removed, enabled, disabled, or otherwise
  updated), there is one change per id that differs and none for an id that does not, in the order of the ids;
  applied to the old registrations the changes give the new ones, and memory and directory are in step again.
\<close>

theorem reload_reports_difference:
  assumes "memory_ok r" and "reload tc io r = (Inr cs, r')"
  shows "(\<forall>x. x \<in> set cs \<longleftrightarrow> reported (get r) (get r') x) \<and>
     fold patch cs (get r) = get r' \<and> registry_ok tc r' \<and>
     distinct (map change_agent_id cs) \<and> sorted (map change_agent_id cs) \<and>
     change_agent_id ` set cs = {a. get r a \<noteq> get r' a}"
proof -
  note e = edited_reload[OF assms]
  have k: "keyed (reg_agents r)" using assms(1) by (simp add: memory_ok_def)
  have g: "get x = map_of (reg_agents x)" for x by (simp add: get_def fun_eq_iff)
  show ?thesis
    unfolding e(3) g
    using e(1) reload_changes_patch[OF k e(2)] reload_changes_distinct[OF k e(2)]
      reload_changes_sorted reload_changes_ids[OF k e(2)] reload_changes_mem[OF k e(2)] by (simp add: id_change_reported)
qed

theorem reload_reports_difference_witness:
  "reported (get (empty_registry [])) [demo_id \<mapsto> demo_config] (Added demo_config) \<and>
   fold patch [Added demo_config] (get (empty_registry [])) = [demo_id \<mapsto> demo_config]"
proof -
  have "memory_ok (empty_registry [(''a.toml'', Readable ''t'')])"
    by (simp add: memory_ok_def empty_registry_def keyed_def wf_map_def disk_ok_def demo_disk_def)
  moreover have "agent_id demo_config = demo_id" by (simp add: demo_config_def)
  ultimately show ?thesis using reload_reports_difference[OF _ demo_reloads]
    by (auto simp: empty_registry_def get_def fun_eq_iff)
qed

end
