(* ===== verification/Control_Plane.thy ===== *)
theory Control_Plane
  imports Control Registry_Histories
begin

text \<open>
  What the control plane keeps: memory and disk of the registry in step, and the relay pulling for
  the agents that are registered and enabled.  The relay enters through the contract of
  \<open>trait RelayBackend\<close>, a locale that the model of the relay is shown to meet.
\<close>

section \<open>Pulling what is registered\<close>

text \<open>The enabled registrations that are not pulled; no agent is pulled that is not registered.\<close>

definition missing :: "(agent_id \<Rightarrow> agent_config option) \<Rightarrow> agent_id set \<Rightarrow> (agent_id \<times> agent_config) set" where
  "missing look P = {(a, c). look a = Some c \<and> enabled c \<and> a \<notin> P}"

definition only_registered :: "(agent_id \<Rightarrow> agent_config option) \<Rightarrow> agent_id set \<Rightarrow> bool" where
  "only_registered look P = (\<forall>a \<in> P. look a \<noteq> None)"

lemma pull_effect_other: "a \<noteq> change_agent_id x \<Longrightarrow> a \<in> pull_effect look x P \<longleftrightarrow> a \<in> P"
  by (cases x) auto

lemma pull_effect_own: "change_agent_id x \<in> pull_effect look x P \<longleftrightarrow> change_agent_id x \<in> pull_effect look x Q"
  by (cases x) auto

lemma pull_effect_mono: "P \<subseteq> Q \<Longrightarrow> pull_effect look x P \<subseteq> pull_effect look x Q"
  by (cases x) auto

lemma fold_effect_other:
  "a \<notin> change_agent_id ` set xs \<Longrightarrow> a \<in> fold (pull_effect look) xs P \<longleftrightarrow> a \<in> P"
  by (induction xs arbitrary: P) (auto simp: pull_effect_other)

lemma fold_effect_own:
  assumes "x \<in> set xs" and "distinct (map change_agent_id xs)"
  shows "change_agent_id x \<in> fold (pull_effect look) xs P \<longleftrightarrow> change_agent_id x \<in> pull_effect look x {}"
  using assms
proof (induction xs arbitrary: P)
  case (Cons y ys)
  show ?case
  proof (cases "x = y")
    case True
    with Cons.prems show ?thesis
      by (simp add: fold_effect_other pull_effect_own[of _ _ P "{}"])
  next
    case False
    with Cons show ?thesis by auto
  qed
qed simp

text \<open>The effect of a reload, agent by agent.\<close>

lemma reload_effect:
  assumes "keyed old" and "keyed new"
  shows "a \<in> fold (pull_effect (map_of new)) (reload_changes old new) P \<longleftrightarrow>
     (case id_change a (map_of old a) (map_of new a) of
        [] \<Rightarrow> a \<in> P
      | x # _ \<Rightarrow> a \<in> pull_effect (map_of new) x {})"
proof -
  let ?xs = "reload_changes old new"
  note mem = reload_changes_mem[OF assms] and dist = reload_changes_distinct[OF assms]
  have step: "id_change a (map_of old a) (map_of new a) = [] \<or>
     (\<exists>x. id_change a (map_of old a) (map_of new a) = [x] \<and> change_agent_id x = a)"
    using id_change_patch[of "map_of old a" a "map_of new a"]
      id_change_id[of "map_of old a" a "map_of new a"] assms by (fastforce simp: keyed_def)
  then show ?thesis
  proof (elim disjE exE conjE)
    assume no: "id_change a (map_of old a) (map_of new a) = []"
    then have "a \<notin> change_agent_id ` set ?xs" using mem by fastforce
    with no show ?thesis by (simp add: fold_effect_other)
  next
    fix x assume x: "id_change a (map_of old a) (map_of new a) = [x]" "change_agent_id x = a"
    then have "x \<in> set ?xs" using mem by simp
    from fold_effect_own[OF this dist] x show ?thesis by simp
  qed
qed

text \<open>What a reload leaves unpulled it has not changed.\<close>

lemma reload_missing:
  assumes "keyed old" and "keyed new"
  shows "missing (map_of new) (fold (pull_effect (map_of new)) (reload_changes old new) P) \<subseteq> missing (map_of old) P"
proof (clarsimp simp: missing_def)
  fix a c
  assume c: "map_of new a = Some c" "enabled c" and out: "a \<notin> fold (pull_effect (map_of new)) (reload_changes old new) P"
  from c(1) assms(2) have id: "agent_id c = a" by (auto simp: keyed_def)
  show "map_of old a = Some c \<and> a \<notin> P"
    using out c id unfolding reload_effect[OF assms] by (cases "map_of old a") (auto split: if_splits)
qed

lemma reload_only_registered:
  assumes "keyed old" and "keyed new" and "only_registered (map_of old) P"
  shows "only_registered (map_of new) (fold (pull_effect (map_of new)) (reload_changes old new) P)"
  unfolding only_registered_def
proof (intro ballI notI)
  fix a assume "a \<in> fold (pull_effect (map_of new)) (reload_changes old new) P" "map_of new a = None"
  then show False
    unfolding reload_effect[OF assms(1,2)]
    using assms(3) by (cases "map_of old a") (auto simp: only_registered_def)
qed

section \<open>The contract of the relay\<close>

locale relay_backend =
  fixes apply_one :: "'env \<Rightarrow> (agent_id \<Rightarrow> agent_config option) \<Rightarrow> change \<Rightarrow> 'b \<Rightarrow> 'b"
    and answering :: "'env \<Rightarrow> bool"
    and subscribed :: "'b \<Rightarrow> agent_id set"
  assumes apply_answering:
      "answering env \<Longrightarrow> subscribed (apply_one env look x b) = pull_effect look x (subscribed b)"
    and apply_bound:
      "subscribed (apply_one env look x b) \<subseteq> pull_effect look x (subscribed b)"
begin

definition apply_all :: "'env \<Rightarrow> (agent_id \<Rightarrow> agent_config option) \<Rightarrow> change list \<Rightarrow> 'b \<Rightarrow> 'b" where
  "apply_all env look xs b = fold (apply_one env look) xs b"

lemma subscribed_all:
  "answering env \<Longrightarrow> subscribed (apply_all env look xs b) = fold (pull_effect look) xs (subscribed b)"
  unfolding apply_all_def by (induction xs arbitrary: b) (auto simp: apply_answering)

lemma subscribed_all_bound:
  "subscribed (apply_all env look xs b) \<subseteq> fold (pull_effect look) xs (subscribed b)"
  unfolding apply_all_def
proof (induction xs arbitrary: b)
  case (Cons x xs)
  have mono: "P \<subseteq> Q \<Longrightarrow> fold (pull_effect look) xs P \<subseteq> fold (pull_effect look) xs Q" for P Q
    by (induction xs arbitrary: P Q) (auto dest: pull_effect_mono)
  from Cons[of "apply_one env look x b"] mono[OF apply_bound[of env look x b]] show ?case by simp
qed simp

text \<open>One change that the registry has already made.\<close>

lemma added_missing:
  assumes "answering env"
  shows "missing (look(agent_id c \<mapsto> c)) (subscribed (apply_all env look' [Added c] b)) \<subseteq> missing look (subscribed b)"
    and "agent_id c \<notin> fst ` missing (look(agent_id c \<mapsto> c)) (subscribed (apply_all env look' [Added c] b))"
  using assms by (auto simp: missing_def subscribed_all split: if_splits)

lemma updated_missing:
  assumes "answering env" and "look' = look(agent_id c \<mapsto> c)"
  shows "missing look' (subscribed (apply_all env look' [Updated c] b)) \<subseteq> missing look (subscribed b)"
    and "agent_id c \<notin> fst ` missing look' (subscribed (apply_all env look' [Updated c] b))"
  using assms by (auto simp: missing_def subscribed_all split: if_splits)

lemma removed_missing:
  "answering env \<Longrightarrow>
     missing (look(a := None)) (subscribed (apply_all env look' [Removed a] b)) \<subseteq> missing look (subscribed b)"
  by (auto simp: missing_def subscribed_all split: if_splits)

lemma added_only:
  "only_registered look (subscribed b) \<Longrightarrow>
     only_registered (look(agent_id c \<mapsto> c)) (subscribed (apply_all env look' [Added c] b))"
  using subscribed_all_bound[of env look' "[Added c]" b] by (auto simp: only_registered_def)

lemma updated_only:
  "only_registered look (subscribed b) \<Longrightarrow>
     only_registered (look(agent_id c \<mapsto> c)) (subscribed (apply_all env look' [Updated c] b))"
  using subscribed_all_bound[of env look' "[Updated c]" b]
  by (auto simp: only_registered_def split: if_splits)

lemma removed_only:
  "only_registered look (subscribed b) \<Longrightarrow>
     only_registered (look(a := None)) (subscribed (apply_all env look' [Removed a] b))"
  using subscribed_all_bound[of env look' "[Removed a]" b] by (auto simp: only_registered_def)

lemma reloaded_missing:
  "answering env \<Longrightarrow> keyed old \<Longrightarrow> keyed new \<Longrightarrow>
     missing (map_of new) (subscribed (apply_all env (map_of new) (reload_changes old new) b)) \<subseteq>
       missing (map_of old) (subscribed b)"
  by (simp add: subscribed_all reload_missing)

lemma reloaded_only:
  "keyed old \<Longrightarrow> keyed new \<Longrightarrow> only_registered (map_of old) (subscribed b) \<Longrightarrow>
     only_registered (map_of new) (subscribed (apply_all env (map_of new) (reload_changes old new) b))"
  using subscribed_all_bound[of env "map_of new" "reload_changes old new" b] reload_only_registered[of old new]
  by (auto simp: only_registered_def)

end

interpretation backend: relay_backend relay_apply_change relay_good pulled
  by unfold_locales (auto simp: pulled_change dest: pulled_change_bound[THEN subsetD])

lemma relay_apply_all: "snd (relay_apply_changes env look xs rl) = backend.apply_all env look xs rl"
  unfolding backend.apply_all_def by (induction xs arbitrary: rl) auto

lemma get_eq: "get r = map_of (reg_agents r)"
  by (simp add: get_def fun_eq_iff)

section \<open>The daemon's invariant\<close>

definition daemon_ok :: "toml_codec \<Rightarrow> daemon \<Rightarrow> bool" where
  "daemon_ok tc w =
     (registry_ok tc (dm_registry w) \<and> pulls_ok (dm_relay w) \<and>
      only_registered (get (dm_registry w)) (pulled (dm_relay w)))"

definition unserved :: "daemon \<Rightarrow> (agent_id \<times> agent_config) set" where
  "unserved w = missing (get (dm_registry w)) (pulled (dm_relay w))"

lemma dm_registry_set [simp]:
  "dm_registry (set_registry r w) = r" "dm_relay (set_registry r w) = dm_relay w"
  by (simp_all add: set_registry_def)

lemma dm_apply [simp]:
  "dm_registry (daemon_apply env cs w) = dm_registry w"
  "dm_relay (daemon_apply env cs w) = backend.apply_all (ce_relay env) (get (dm_registry w)) cs (dm_relay w)"
  by (simp_all add: daemon_apply_def dispatcher_apply_changes_def relay_apply_all)

lemma pulls_ok_all: "pulls_ok rl \<Longrightarrow> pulls_ok (backend.apply_all env look cs rl)"
  using pulls_ok_changes[of rl env look cs] by (simp add: relay_apply_all)

lemma unit_result: "q \<noteq> Inr () \<longleftrightarrow> (\<exists>e. q = Inl (e :: agentd_error))"
  by (cases q) auto

lemma set_registry_same:
  "registry_ok tc r \<Longrightarrow> get r = get (dm_registry w) \<Longrightarrow> daemon_ok tc w \<Longrightarrow>
     daemon_ok tc (set_registry r w) \<and> unserved (set_registry r w) = unserved w"
  by (simp add: daemon_ok_def unserved_def)

lemma handle_register_ok:
  assumes tc: "toml_roundtrip tc" "valid_id (agent_id c)" and ok: "daemon_ok tc w" and h: "handle_register tc env c w = (res, w')"
  shows "daemon_ok tc w' \<and> (relay_good (ce_relay env) \<longrightarrow> unserved w' \<subseteq> unserved w \<and>
     (res = Inr () \<longrightarrow> agent_id c \<notin> fst ` unserved w'))"
proof (cases "register tc (ce_io env) c (dm_registry w)")
  case (Pair q r)
  note g = register_get[OF Pair]
  have r: "registry_ok tc r" using register_ok[OF tc _ Pair] ok by (simp add: daemon_ok_def)
  show ?thesis
  proof (cases "q = Inr ()")
    case False
    then obtain e where "q = Inl e" by (auto simp: unit_result)
    with Pair h have "w' = set_registry r w" "res = Inl e" by (simp_all add: handle_register_def)
    with set_registry_same[OF r _ ok] g False show ?thesis by simp
  next
    case True
    with Pair h have w': "w' = daemon_apply env [Added c] (set_registry r w)" by (simp add: handle_register_def)
    with g True r ok show ?thesis
      by (simp add: daemon_ok_def unserved_def pulls_ok_all backend.added_only backend.added_missing)
  qed
qed

lemma handle_update_ok:
  assumes tc: "toml_roundtrip tc" "valid_id (agent_id c)" and ok: "daemon_ok tc w" and h: "handle_update tc env c w = (res, w')"
  shows "daemon_ok tc w' \<and> (relay_good (ce_relay env) \<longrightarrow> unserved w' \<subseteq> unserved w \<and>
     (res = Inr () \<longrightarrow> agent_id c \<notin> fst ` unserved w'))"
proof (cases "update tc (ce_io env) c (dm_registry w)")
  case (Pair q r)
  note g = update_get[OF Pair]
  have r: "registry_ok tc r" using update_ok[OF tc _ Pair] ok by (simp add: daemon_ok_def)
  show ?thesis
  proof (cases "q = Inr ()")
    case False
    then obtain e where "q = Inl e" by (auto simp: unit_result)
    with Pair h have "w' = set_registry r w" "res = Inl e" by (simp_all add: handle_update_def)
    with set_registry_same[OF r _ ok] g False show ?thesis by simp
  next
    case True
    with Pair h have w': "w' = daemon_apply env [Updated c] (set_registry r w)" by (simp add: handle_update_def)
    with g True r ok show ?thesis
      by (simp add: daemon_ok_def unserved_def pulls_ok_all backend.updated_only backend.updated_missing)
  qed
qed

lemma handle_unregister_ok:
  assumes ok: "daemon_ok tc w" and h: "handle_unregister env a w = (res, w')"
  shows "daemon_ok tc w' \<and> (relay_good (ce_relay env) \<longrightarrow> unserved w' \<subseteq> unserved w)"
proof (cases "unregister (ce_io env) a (dm_registry w)")
  case (Pair q r)
  note g = unregister_get[OF Pair]
  have r: "registry_ok tc r" using unregister_ok[OF _ Pair] ok by (simp add: daemon_ok_def)
  show ?thesis
  proof (cases "q = Inr ()")
    case False
    then obtain e where "q = Inl e" by (auto simp: unit_result)
    with Pair h have "w' = set_registry r w" by (simp add: handle_unregister_def)
    with set_registry_same[OF r _ ok] g False show ?thesis by simp
  next
    case True
    with Pair h have w': "w' = daemon_apply env [Removed a] (set_registry r w)" by (simp add: handle_unregister_def)
    with g True r ok show ?thesis
      by (simp add: daemon_ok_def unserved_def pulls_ok_all backend.removed_only backend.removed_missing)
  qed
qed

lemma handle_reload_ok:
  assumes ok: "daemon_ok tc w" and h: "handle_reload tc env w = (res, w')"
  shows "daemon_ok tc w' \<and> (relay_good (ce_relay env) \<longrightarrow> unserved w' \<subseteq> unserved w)"
proof (cases "reload tc (ce_io env) (dm_registry w)")
  case (Pair q r)
  have r: "registry_ok tc r" using reload_ok[OF _ Pair] ok by (simp add: daemon_ok_def)
  show ?thesis
  proof (cases q)
    case (Inl e)
    with Pair h have "w' = set_registry r w" by (simp add: handle_reload_def)
    moreover have "get r = get (dm_registry w)" using reload_get[OF _ Pair] ok Inl by (simp add: daemon_ok_def)
    ultimately show ?thesis using set_registry_same[OF r _ ok] by simp
  next
    case (Inr cs)
    with Pair h have w': "w' = daemon_apply env cs (set_registry r w)" by (simp add: handle_reload_def)
    have cs: "cs = reload_changes (reg_agents (dm_registry w)) (reg_agents r)"
      using Pair Inr by (auto simp: reload_def split: prod.splits sum.splits)
    have k: "keyed (reg_agents (dm_registry w))" "keyed (reg_agents r)"
      using r ok registry_ok_keyed by (auto simp: daemon_ok_def)
    show ?thesis
      using r ok backend.reloaded_only[OF k] backend.reloaded_missing[OF _ k]
      by (simp add: w' cs daemon_ok_def unserved_def pulls_ok_all get_eq)
  qed
qed

lemma handle_request_ok:
  assumes "toml_roundtrip tc" "valid_request rq" "daemon_ok tc w"
    and "handle_request tc se env w rq = (resp, w')"
  shows "daemon_ok tc w' \<and> (relay_good (ce_relay env) \<longrightarrow> unserved w' \<subseteq> unserved w \<and>
     (rs_ok resp \<longrightarrow> (\<forall>c. rq = Register c \<or> rq = Update c \<longrightarrow> agent_id c \<notin> fst ` unserved w')))"
proof (cases rq)
  case (Register c)
  obtain res x where h: "handle_register tc env c w = (res, x)" by fastforce
  with assms Register handle_register_ok[OF assms(1) _ assms(3) h] show ?thesis
    by (cases res) (auto simp: into_resp_def response_err_def)
next
  case (Update c)
  obtain res x where h: "handle_update tc env c w = (res, x)" by fastforce
  with assms Update handle_update_ok[OF assms(1) _ assms(3) h] show ?thesis
    by (cases res) (auto simp: into_resp_def response_err_def)
next
  case (Unregister a)
  with assms show ?thesis by (auto split: prod.splits dest: handle_unregister_ok[rotated 1])
next
  case Reload
  with assms show ?thesis by (auto split: prod.splits dest: handle_reload_ok[rotated 1])
qed (use assms in auto)

section \<open>Requests and connections\<close>

lemma one_field_Some: "one_field name dec v = Some x \<Longrightarrow> \<exists>u. dec u = Some x"
  by (auto simp: one_field_def req_Some split: option.splits)

text \<open>A request that was parsed carries ids of the grammar.\<close>

lemma deserialize_request_valid: "deserialize_request v = Some rq \<Longrightarrow> valid_request rq"
  by (auto simp: deserialize_request_def dest!: one_field_Some split: option.splits if_splits)
    (auto dest: deserialize_agent_config_id deserialize_agent_id_valid)

lemma parse_request_valid: "parse_request js line = Some rq \<Longrightarrow> valid_request rq"
  by (auto simp: parse_request_def dest: deserialize_request_valid split: option.splits)

lemma answer_line_ok:
  assumes "toml_roundtrip tc" "daemon_ok tc w" "answer_line tc js tx env w line = (r, w')"
  shows "daemon_ok tc w' \<and> (relay_good (ce_relay env) \<longrightarrow> unserved w' \<subseteq> unserved w)"
  using assms
  by (auto simp: answer_line_def split: option.splits dest: handle_request_ok[OF assms(1) parse_request_valid])

lemma serve_connection_ok:
  assumes "toml_roundtrip tc" "daemon_ok tc w" "serve_connection tc js tx items w = (good, outs, w')"
  shows "daemon_ok tc w' \<and> ((\<forall>(env, i) \<in> set items. relay_good (ce_relay env)) \<longrightarrow> unserved w' \<subseteq> unserved w)"
  using assms
proof (induction tc js tx items w arbitrary: good outs w' rule: serve_connection.induct)
  case (3 tc js tx env line wr items w)
  show ?case
  proof (cases "trim line = []")
    case True
    with 3 show ?thesis by simp
  next
    case False
    obtain r w1 where a: "answer_line tc js tx env w line = (r, w1)" by fastforce
    note ok = answer_line_ok[OF "3.prems"(1,2) a]
    show ?thesis
    proof (cases wr)
      case True
      obtain good1 outs1 w2 where rest: "serve_connection tc js tx items w1 = (good1, outs1, w2)"
        by (metis prod_cases3)
      with "3.prems"(3) False a True have "serve_connection tc js tx items w1 = (good1, outs1, w')"
        by simp
      note rest = this
      from "3.IH"(2)[OF False a[symmetric] True "3.prems"(1) _ rest] ok True show ?thesis by auto
    next
      case wf: False
      with "3.prems"(3) False a ok show ?thesis by auto
    qed
  qed
qed auto

section \<open>A sample\<close>

text \<open>A daemon without registrations, and an environment in which every call succeeds.\<close>

definition demo_env :: ctl_env where
  "demo_env = \<lparr>ce_io = io_good, ce_relay = \<lparr>re_stream = True, re_consumer = (\<lambda>_. True)\<rparr>,
               ce_info = (\<lambda>_. None)\<rparr>"

definition empty_daemon :: daemon where
  "empty_daemon =
     \<lparr>dm_disp = dispatcher_new \<lparr>reg_dir = ''/d'', reg_agents = [], reg_disk = demo_disk []\<rparr> [] 600 4096,
      dm_relay = relay_new ''S'' 300 90, dm_connected = True\<rparr>"

lemma empty_daemon_ok: "daemon_ok demo_codec empty_daemon" "unserved empty_daemon = {}"
  by (auto simp: daemon_ok_def unserved_def missing_def empty_daemon_def dispatcher_new_def registry_ok_def disk_ok_def
      demo_disk_def synced_def visible_def disk_config_def pulls_ok_def only_registered_def
      get_def pulled_def relay_new_def fun_eq_iff)

lemma demo_env_good: "relay_good (ce_relay demo_env)"
  by (simp add: demo_env_def relay_good_def)

lemma demo_valid_request: "valid_request (Register demo_config)"
  by (simp add: demo_valid)

section \<open>Reloading an edited directory\<close>

text \<open>What holds of the daemon whatever was done to the directory behind its back.\<close>

definition daemon_sound :: "daemon \<Rightarrow> bool" where
  "daemon_sound w =
     (memory_ok (dm_registry w) \<and> pulls_ok (dm_relay w) \<and>
      only_registered (get (dm_registry w)) (pulled (dm_relay w)))"

lemma daemon_ok_sound: "daemon_ok tc w \<Longrightarrow> daemon_sound w"
  by (auto simp: daemon_ok_def daemon_sound_def registry_ok_memory)

lemma handle_reload_edited:
  assumes ok: "daemon_sound w" and h: "handle_reload tc env w = (Inr cs, w')"
  shows "daemon_ok tc w' \<and> (relay_good (ce_relay env) \<longrightarrow> unserved w' \<subseteq> unserved w)"
proof -
  obtain r where r: "reload tc (ce_io env) (dm_registry w) = (Inr cs, r)"
      "w' = daemon_apply env cs (set_registry r w)"
    using h by (auto simp: handle_reload_def split: sum.splits prod.splits)
  have m: "memory_ok (dm_registry w)" using ok by (simp add: daemon_sound_def)
  then have k: "keyed (reg_agents (dm_registry w))" by (simp add: memory_ok_def)
  note e = edited_reload[OF m r(1)]
  show ?thesis
    using ok e(1) backend.reloaded_only[OF k e(2)] backend.reloaded_missing[OF _ k e(2)]
    by (simp add: r(2) e(3) daemon_ok_def daemon_sound_def unserved_def pulls_ok_all get_eq)
qed

lemma handle_reload_failed:
  assumes ok: "daemon_sound w" and h: "handle_reload tc env w = (Inl e, w')"
  shows "daemon_sound w' \<and> get (dm_registry w') = get (dm_registry w) \<and> dm_relay w' = dm_relay w"
proof -
  obtain d where d: "load tc (ce_io env) (reg_dir (dm_registry w)) (reg_disk (dm_registry w)) = (Inl e, d)"
      "w' = set_registry ((dm_registry w)\<lparr>reg_disk := d\<rparr>) w"
    using h by (auto simp: handle_reload_def reload_def split: sum.splits prod.splits)
  with ok load_disk_ok[OF d(1)] show ?thesis
    by (simp add: daemon_sound_def memory_ok_def get_eq)
qed

lemma handle_reload_sound:
  assumes "daemon_sound w" and "handle_reload tc env w = (res, w')"
  shows "daemon_sound w'"
  using handle_reload_edited[OF assms(1), of tc env _ w'] handle_reload_failed[OF assms(1), of tc env _ w'] assms(2)
  by (cases res) (auto intro: daemon_ok_sound)

section \<open>Properties\<close>

text \<open>
  C20. Whatever a request asks for and whatever the system and the server answer, the registry stays in
  step with its directory, each agent has at most one pull loop, and only registered agents have one.
\<close>

theorem request_keeps_invariant:
  assumes "toml_roundtrip tc" and "valid_request rq" and "daemon_ok tc w"
    and "handle_request tc se env w rq = (resp, w')"
  shows "registry_ok tc (dm_registry w') \<and> pulls_ok (dm_relay w') \<and>
     (\<forall>a \<in> pulled (dm_relay w'). get (dm_registry w') a \<noteq> None)"
  using handle_request_ok[OF assms] by (simp add: daemon_ok_def only_registered_def)

theorem request_keeps_invariant_witness:
  "registry_ok demo_codec (dm_registry (snd (handle_request demo_codec (\<lambda>_. []) demo_env empty_daemon
     (Register demo_config))))"
  using request_keeps_invariant[OF demo_codec_roundtrip demo_valid_request empty_daemon_ok(1),
      of "\<lambda>_. []" demo_env] prod.collapse by metis



lemma reload_refused: "reload tc io r = (Inl e, r') \<Longrightarrow> get r' = get r"
  by (auto simp: reload_def get_eq split: prod.splits sum.splits)

text \<open>
  C34. A request that is refused changes nothing an agent or the relay could notice, in any state of the daemon: also
  a reload that is refused because the directory was edited and a file of it is bad.
\<close>

theorem refused_request_harmless:
  assumes "handle_request tc se env w rq = (resp, w')" and "\<not> rs_ok resp"
  shows "get (dm_registry w') = get (dm_registry w) \<and> dm_relay w' = dm_relay w \<and>
     dp_states (dm_disp w') = dp_states (dm_disp w) \<and> rs_error resp \<noteq> None"
proof (cases rq)
  case (Register c)
  obtain q r where p: "register tc (ce_io env) c (dm_registry w) = (q, r)" by fastforce
  with register_get[OF p] assms Register show ?thesis
    by (cases q) (auto simp: handle_register_def into_resp_def response_ok_def response_err_def set_registry_def)
next
  case (Update c)
  obtain q r where p: "update tc (ce_io env) c (dm_registry w) = (q, r)" by fastforce
  with update_get[OF p] assms Update show ?thesis
    by (cases q) (auto simp: handle_update_def into_resp_def response_ok_def response_err_def set_registry_def)
next
  case (Unregister a)
  obtain q r where p: "unregister (ce_io env) a (dm_registry w) = (q, r)" by fastforce
  with unregister_get[OF p] assms Unregister show ?thesis
    by (cases q) (auto simp: handle_unregister_def into_resp_def response_ok_def response_err_def set_registry_def)
next
  case Reload
  obtain q r where p: "reload tc (ce_io env) (dm_registry w) = (q, r)" by fastforce
  with reload_refused[of tc "ce_io env" "dm_registry w" _ r] assms Reload show ?thesis
    by (cases q) (auto simp: handle_reload_def into_resp_def response_ok_def response_err_def set_registry_def)
qed (use assms in \<open>auto simp: response_ok_def\<close>)

text \<open>A directory that was edited: a good file was added, and one that cannot be parsed.\<close>

definition spoiled_daemon :: daemon where
  "spoiled_daemon = set_registry (empty_registry [(''a.toml'', Readable ''t''), (''b.toml'', Readable ''x'')]) empty_daemon"

theorem refused_request_harmless_witness:
  "\<not> rs_ok (fst (handle_request demo_codec (\<lambda>_. []) demo_env spoiled_daemon Reload)) \<and>
   get (dm_registry (snd (handle_request demo_codec (\<lambda>_. []) demo_env spoiled_daemon Reload))) = get (dm_registry spoiled_daemon)"
proof -
  let ?r = "handle_request demo_codec (\<lambda>_. []) demo_env spoiled_daemon Reload"
  have "\<not> rs_ok (fst ?r)" by code_simp
  with refused_request_harmless[OF prod.collapse[symmetric] this] show ?thesis by blast
qed

text \<open>What was registered or updated is what \<open>list\<close> and a restart find.\<close>

theorem registered_is_listed:
  assumes "toml_roundtrip tc" and "valid_id (agent_id c)" and "daemon_ok tc w"
    and "handle_request tc se env w (Register c) = (resp, w')" and "rs_ok resp"
  shows "(\<exists>cs. rs_agents (fst (handle_request tc se env' w' List)) = Some cs \<and> c \<in> set cs) \<and>
     get (dm_registry w) (agent_id c) = None \<and>
     disk_config tc (reg_dir (dm_registry w')) (visible (reg_disk (dm_registry w'))) (agent_id c) = Some c"
proof -
  obtain q r where p: "register tc (ce_io env) c (dm_registry w) = (q, r)" by fastforce
  with assms(4,5) have q: "q = Inr ()" and r: "dm_registry w' = r"
    by (auto simp: handle_register_def into_resp_def response_err_def split: sum.splits)
  from register_get[OF p] q have g: "get r (agent_id c) = Some c" "get (dm_registry w) (agent_id c) = None"
    by simp_all
  have ok: "registry_ok tc r" using register_ok[OF assms(1,2) _ p] assms(3) by (simp add: daemon_ok_def)
  then have "c \<in> set (snapshot r)" using snapshot_set[of r] g by (auto simp: registry_ok_def)
  moreover have "disk_config tc (reg_dir r) (visible (reg_disk r)) (agent_id c) = Some c"
    using ok g by (simp add: registry_ok_def synced_def get_eq)
  ultimately show ?thesis using g r by (simp add: response_ok_def)
qed

theorem registered_is_listed_witness:
  "get (dm_registry empty_daemon) demo_id = None \<and>
     disk_config demo_codec ''/d'' (visible (demo_disk [(''a.toml'', Readable ''t'')])) demo_id = Some demo_config"
proof -
  let ?r = "handle_request demo_codec (\<lambda>_. []) demo_env empty_daemon (Register demo_config)"
  have "rs_ok (fst ?r)" by code_simp
  moreover have "reg_dir (dm_registry (snd ?r)) = ''/d''" by code_simp
  moreover have "reg_disk (dm_registry (snd ?r)) = demo_disk [(''a.toml'', Readable ''t'')]" by code_simp
  ultimately show ?thesis
    using registered_is_listed[OF demo_codec_roundtrip demo_valid(2)[folded demo_valid(3)] empty_daemon_ok(1)
        prod.collapse[symmetric], of "\<lambda>_. []" demo_env]
    by (simp add: demo_valid(3))
qed

text \<open>A reload that finds the directory unchanged applies nothing: no consumer is bound again.\<close>

theorem unchanged_reload_applies_nothing:
  assumes "daemon_ok tc w" and "io_readdir (ce_io env)" and "\<And>name. io_entry (ce_io env) name"
    and "handle_reload tc env w = (res, w')"
  shows "res = Inr [] \<and> dm_relay w' = dm_relay w \<and> dp_states (dm_disp w') = dp_states (dm_disp w) \<and>
     get (dm_registry w') = get (dm_registry w)"
proof -
  let ?r = "dm_registry w"
  have ok: "registry_ok tc ?r" using assms(1) by (simp add: daemon_ok_def)
  then have s: "synced tc ?r" "disk_ok (reg_disk ?r)" by (auto simp: registry_ok_def)
  from load_again[OF s(1) refl s(2) assms(2,3)] obtain m d' where
    l: "load tc (ce_io env) (reg_dir ?r) (reg_disk ?r) = (Inr m, d')" "map_of m = map_of (reg_agents ?r)"
    by blast
  let ?r' = "?r\<lparr>reg_disk := d', reg_agents := m\<rparr>"
  have rl: "reload tc (ce_io env) ?r = (Inr (reload_changes (reg_agents ?r) m), ?r')"
    using l(1) by (simp add: reload_def)
  have "registry_ok tc ?r'" using reload_ok[OF ok rl] .
  then have "keyed m" using registry_ok_keyed[of tc ?r'] by simp
  with l(2) registry_ok_keyed[OF ok] have "reload_changes (reg_agents ?r) m = []"
    by (simp add: reload_changes_Nil_iff)
  with rl assms(4) l(2) show ?thesis
    by (auto simp: handle_reload_def daemon_apply_def dispatcher_apply_changes_def set_registry_def get_eq)
qed

theorem unchanged_reload_applies_nothing_witness:
  "fst (handle_reload demo_codec demo_env empty_daemon) = Inr []"
  using unchanged_reload_applies_nothing[OF empty_daemon_ok(1), of demo_env]
  by (metis ctl_env.select_convs(1) demo_env_def io_env.select_convs(8,9) io_good_def prod.collapse)

text \<open>
  C40. Registry and relay are changed in two steps: when an agent is registered again between the two steps
  of its removal, the removal stops the new pull loop, and the enabled agent is not pulled.
\<close>

theorem removal_race_stops_pulling:
  assumes "unregister io (agent_id c) (dm_registry w) = (Inr (), r1)"
    and "handle_register tc env c (set_registry r1 w) = (Inr (), w2)" and "enabled c"
  shows "get (dm_registry (daemon_apply env' [Removed (agent_id c)] w2)) (agent_id c) = Some c \<and>
     agent_id c \<notin> pulled (dm_relay (daemon_apply env' [Removed (agent_id c)] w2))"
proof -
  obtain q r where p: "register tc (ce_io env) c r1 = (q, r)" by fastforce
  with assms(2) have "q = Inr ()" and "dm_registry w2 = r"
    by (auto simp: handle_register_def split: sum.splits)
  with register_get[OF p] show ?thesis by (simp add: backend.apply_all_def)
qed

theorem removal_race_stops_pulling_witness:
  "\<exists>w r1 w2. unregister io_good demo_id (dm_registry w) = (Inr (), r1) \<and>
     handle_register demo_codec demo_env demo_config (set_registry r1 w) = (Inr (), w2) \<and>
     demo_id \<notin> pulled (dm_relay (daemon_apply demo_env [Removed demo_id] w2))"
proof -
  let ?w = "snd (handle_register demo_codec demo_env demo_config empty_daemon)"
  let ?u = "unregister io_good demo_id (dm_registry ?w)"
  let ?h = "handle_register demo_codec demo_env demo_config (set_registry (snd ?u) ?w)"
  have "fst ?u = Inr ()" by code_simp
  then have u: "?u = (Inr (), snd ?u)" by (metis prod.collapse)
  have "fst ?h = Inr ()" by code_simp
  then have h: "?h = (Inr (), snd ?h)" by (metis prod.collapse)
  have "enabled demo_config" by (simp add: demo_config_def)
  from removal_race_stops_pulling[OF u[folded demo_valid(3)], unfolded demo_valid(3), OF h this] u h
  show ?thesis by blast
qed

text \<open>
  C19. A reload of a directory that was edited in any way.  When it is accepted, registry, directory and relay are in
  step again, and if the server answers, an enabled agent of the directory that is not pulled afterwards was
  registered in the same way and not pulled before: every agent the reload has added, enabled or changed is
  pulled.  When it is refused, the registrations and the pull loops stay as they were.
\<close>

theorem edited_reload_serves:
  assumes "daemon_sound w" and "handle_reload tc env w = (res, w')"
  shows "case res of
     Inr cs \<Rightarrow> daemon_ok tc w' \<and> (relay_good (ce_relay env) \<longrightarrow> unserved w' \<subseteq> unserved w)
   | Inl e \<Rightarrow> daemon_sound w' \<and> get (dm_registry w') = get (dm_registry w) \<and> dm_relay w' = dm_relay w"
  using assms handle_reload_edited[OF assms(1), of tc env _ w'] handle_reload_failed[OF assms(1), of tc env _ w']
  by (cases res) auto

definition edited_daemon :: daemon where
  "edited_daemon = set_registry (empty_registry [(''a.toml'', Readable ''t'')]) empty_daemon"

theorem edited_reload_serves_witness:
  "demo_id \<in> pulled (dm_relay (snd (handle_reload demo_codec demo_env edited_daemon)))"
proof -
  have sound: "daemon_sound edited_daemon" "unserved edited_daemon = {}"
    by (auto simp: daemon_sound_def unserved_def missing_def edited_daemon_def empty_registry_def memory_ok_def keyed_def
        wf_map_def disk_ok_def demo_disk_def empty_daemon_def pulls_ok_new only_registered_def
        pulled_def get_def relay_new_def pulls_ok_def)
  obtain cs r where r: "reload demo_codec io_good (empty_registry [(''a.toml'', Readable ''t'')]) = (Inr cs, r)"
    and g: "get r demo_id = Some demo_config"
    using demo_reloads by (auto simp: get_def)
  let ?w = "snd (handle_reload demo_codec demo_env edited_daemon)"
  have h: "handle_reload demo_codec demo_env edited_daemon = (Inr cs, ?w)" "dm_registry ?w = r"
    using r by (simp_all add: handle_reload_def edited_daemon_def demo_env_def)
  have "unserved ?w = {}" using edited_reload_serves[OF sound(1) h(1)] sound(2) demo_env_good by simp
  moreover have "enabled demo_config" by (simp add: demo_config_def)
  ultimately show ?thesis using g h(2) by (auto simp: unserved_def missing_def)
qed

text \<open>A connection answers every line that is not blank, in order, until a read or a write fails.\<close>

theorem one_answer_per_line:
  assumes "\<forall>(env, line, wr) \<in> set items. line \<noteq> None \<and> wr"
    and "serve_connection tc js tx items w = (good, outs, w')"
  shows "good \<and> length outs = length (filter (\<lambda>(env, line, wr). trim (the line) \<noteq> []) items)"
  using assms
  by (induction tc js tx items w arbitrary: good outs w' rule: serve_connection.induct)
    (fastforce split: if_splits prod.splits)+

definition mute_json :: json_codec where
  "mute_json = \<lparr>json_parse = (\<lambda>_. None), json_print = (\<lambda>_. None)\<rparr>"

definition mute_texts :: texts where
  "mute_texts = \<lparr>tx_error = (\<lambda>_. []), tx_malformed = (\<lambda>_. ''m'')\<rparr>"

theorem one_answer_per_line_witness:
  "\<exists>outs w'. serve_connection demo_codec mute_json mute_texts [(demo_env, Some ''x'', True)] empty_daemon =
     (True, outs, w') \<and> length outs = 1"
proof -
  obtain good outs w' where c: "serve_connection demo_codec mute_json mute_texts
      [(demo_env, Some ''x'', True)] empty_daemon = (good, outs, w')" by (metis prod_cases3)
  have "trim ''x'' \<noteq> []" by code_simp
  with one_answer_per_line[OF _ c] c show ?thesis by simp
qed

text \<open>A line that is not a request is answered with an error and has no other effect.\<close>

theorem malformed_line_harmless:
  assumes "parse_request js line = None"
  shows "answer_line tc js tx env w line = (response_err (tx_malformed tx line), w)"
  using assms by (simp add: answer_line_def)

theorem malformed_line_harmless_witness:
  "answer_line demo_codec mute_json mute_texts demo_env empty_daemon ''x'' = (response_err ''m'', empty_daemon)"
  using malformed_line_harmless[of mute_json "''x''" demo_codec mute_texts demo_env empty_daemon]
  by (simp add: parse_request_def mute_json_def mute_texts_def)

text \<open>The socket is announced as bound only after its permissions are owner-only.\<close>

theorem bound_socket_private:
  assumes "bind_socket env p = (Inr (), ops)"
  shows "\<exists>before. ops = before @ [Bind_Socket, Chmod_Socket 384] \<and> Bind_Socket \<notin> set before \<and>
     (so_exists env \<longrightarrow> Remove_File \<in> set before)"
  using assms by (auto simp: bind_socket_def Let_def split: if_splits sum.splits option.splits)

theorem bound_socket_private_witness:
  "\<exists>before. [Remove_File, Make_Dir ''/r'', Bind_Socket, Chmod_Socket 384] =
     before @ [Bind_Socket, Chmod_Socket 384] \<and> Remove_File \<in> set before"
proof -
  let ?env = "\<lparr>so_exists = True, so_remove = True, so_parent = Some ''/r'', so_mkdir = True, so_bind = True,
      so_chmod = True\<rparr>"
  have "bind_socket ?env ''/r/s'' = (Inr (), [Remove_File, Make_Dir ''/r'', Bind_Socket, Chmod_Socket 384])"
    by code_simp
  from bound_socket_private[OF this] show ?thesis by simp
qed

end
