(* ===== verification/Ctl.thy ===== *)
theory Ctl
  imports Control_Plane
begin

text \<open>
  The control CLI (\<open>src/bin/agentdctl.rs\<close>): one function per subcommand over a transport to the
  daemon's socket, with its exit code and what it prints.  \<open>clap\<close>, which turns the arguments into a
  \<open>command\<close>, is not modelled; it rejects \<open>--enable\<close> together with \<open>--disable\<close>.  A transport takes the line
  that is sent and gives the line that is read (\<open>None\<close>: the read fails, \<open>Some None\<close>: the connection is
  closed) and the new state of the other side.
\<close>

section \<open>Commands and outcomes\<close>

datatype command =
    Init "path option" "string option"
  | Ctl_Register string path u32 "path option"
  | Ctl_Update string "path option" "u32 option" "path option" bool bool
  | Ctl_Unregister string
  | Ctl_List
  | Ctl_Reload
  | Ctl_Status

datatype rpc_error =
    Cannot_Connect path
  | Serialize_Failed
  | Write_Failed
  | Flush_Failed
  | Read_Failed
  | Closed
  | Malformed_Response

datatype message =
    Text string
  | Rpc_Error rpc_error
  | Invalid_Id agentd_error
  | Connect_Failed string agentd_error
  | Stream_Failed agentd_error
  | Config_Error agentd_error

text \<open>Exit code, standard output, standard error.\<close>

record outcome =
  oc_exit :: nat
  oc_out :: "string list"
  oc_err :: "message list"

definition success :: "string list \<Rightarrow> outcome" where
  "success out = \<lparr>oc_exit = 0, oc_out = out, oc_err = []\<rparr>"

definition fail :: "message \<Rightarrow> outcome" where
  "fail m = \<lparr>oc_exit = 1, oc_out = [], oc_err = [m]\<rparr>"

section \<open>Configuration\<close>

definition default_config_path :: "path option \<Rightarrow> path" where
  "default_config_path config_dir =
     path_join (path_join (unwrap_or_default config_dir) ''agentd'') ''agentd.toml''"

text \<open>
  \<open>load_config_or_default\<close>: \<open>text_of\<close> is what can be read at a path, \<open>exists_at\<close> whether there is a file;
  an error ends the process with exit code 2.
\<close>

definition load_config_or_default ::
    "(string \<Rightarrow> sval option) \<Rightarrow> (path \<Rightarrow> string option) \<Rightarrow> (path \<Rightarrow> bool) \<Rightarrow> path option \<Rightarrow> path option \<Rightarrow>
     daemon_config result" where
  "load_config_or_default toml text_of exists_at config_dir p =
     (case p of
        Some q \<Rightarrow> config_load toml q (text_of q)
      | None \<Rightarrow>
          let q = default_config_path config_dir in
          if exists_at q then config_load toml q (text_of q) else Inr default_config)"

definition exit_config :: "agentd_error \<Rightarrow> outcome" where
  "exit_config e = \<lparr>oc_exit = 2, oc_out = [], oc_err = [Config_Error e]\<rparr>"

text \<open>The socket: \<open>--socket\<close>, or the one the configuration gives.\<close>

definition ctl_socket :: "path option \<Rightarrow> path option \<Rightarrow> daemon_config result \<Rightarrow> path result" where
  "ctl_socket flag runtime_dir config =
     (case flag of
        Some s \<Rightarrow> Inr s
      | None \<Rightarrow> (case config of Inl e \<Rightarrow> Inl e | Inr c \<Rightarrow> Inr (socket_path runtime_dir c)))"

section \<open>One remote call\<close>

type_synonym 'w transport = "string \<Rightarrow> 'w \<Rightarrow> string option option \<times> 'w"

record 'w wire =
  wi_connect :: bool
  wi_write :: bool
  wi_flush :: bool
  wi_send :: "'w transport"

definition rpc :: "json_codec \<Rightarrow> 'w wire \<Rightarrow> path \<Rightarrow> request \<Rightarrow> 'w \<Rightarrow> (rpc_error + response) \<times> 'w" where
  "rpc js wire socket rq w =
     (if \<not> wi_connect wire then (Inl (Cannot_Connect socket), w)
      else case json_print js (serialize_request rq) of
        None \<Rightarrow> (Inl Serialize_Failed, w)
      | Some line \<Rightarrow>
          if \<not> wi_write wire then (Inl Write_Failed, w)
          else if \<not> wi_flush wire then (Inl Flush_Failed, w)
          else case wi_send wire (line @ [CHR 0x0A]) w of
            (None, w') \<Rightarrow> (Inl Read_Failed, w')
          | (Some None, w') \<Rightarrow> (Inl Closed, w')
          | (Some (Some t), w') \<Rightarrow>
              (case (case json_parse js t of None \<Rightarrow> None | Some v \<Rightarrow> deserialize_response v) of
                 None \<Rightarrow> (Inl Malformed_Response, w')
               | Some r \<Rightarrow> (Inr r, w')))"

definition error_text :: "string \<Rightarrow> response \<Rightarrow> message" where
  "error_text dft r = Text (case rs_error r of None \<Rightarrow> dft | Some e \<Rightarrow> e)"

definition rpc_ok :: "json_codec \<Rightarrow> 'w wire \<Rightarrow> path \<Rightarrow> request \<Rightarrow> 'w \<Rightarrow> outcome \<times> 'w" where
  "rpc_ok js wire socket rq w =
     (case rpc js wire socket rq w of
        (Inr r, w') \<Rightarrow> ((if rs_ok r then success [''ok''] else fail (error_text ''unknown error'' r)), w')
      | (Inl e, w') \<Rightarrow> (fail (Rpc_Error e), w'))"

section \<open>Register and update\<close>

definition ctl_agent_config ::
    "string \<Rightarrow> path \<Rightarrow> u32 \<Rightarrow> path option \<Rightarrow> bool \<Rightarrow> agent_config result" where
  "ctl_agent_config aid h mc cwd en =
     (case parse_agent_id aid of
        Inl e \<Rightarrow> Inl e
      | Inr a \<Rightarrow> Inr \<lparr>agent_id = a, handler = h, max_concurrency = mc, working_directory = cwd, enabled = en\<rparr>)"

text \<open>The flags merged over the current registration.\<close>

definition merge_flags ::
    "path option \<Rightarrow> u32 option \<Rightarrow> path option \<Rightarrow> bool \<Rightarrow> bool \<Rightarrow> agent_config \<Rightarrow> agent_config" where
  "merge_flags h mc cwd en dis c =
     (let c1 = (case h of Some x \<Rightarrow> c\<lparr>handler := x\<rparr> | None \<Rightarrow> c);
          c2 = (case mc of Some x \<Rightarrow> c1\<lparr>max_concurrency := x\<rparr> | None \<Rightarrow> c1);
          c3 = (case cwd of Some x \<Rightarrow> c2\<lparr>working_directory := Some x\<rparr> | None \<Rightarrow> c2)
      in if en \<or> dis then c3\<lparr>enabled := en\<rparr> else c3)"

definition ctl_update ::
    "json_codec \<Rightarrow> 'w wire \<Rightarrow> path \<Rightarrow> string \<Rightarrow> path option \<Rightarrow> u32 option \<Rightarrow> path option \<Rightarrow> bool \<Rightarrow> bool \<Rightarrow>
     'w \<Rightarrow> outcome \<times> 'w" where
  "ctl_update js wire socket aid h mc cwd en dis w =
     (case rpc js wire socket List w of
        (Inl e, w') \<Rightarrow> (fail (Rpc_Error e), w')
      | (Inr r, w') \<Rightarrow>
          if \<not> rs_ok r then (fail (error_text ''list failed'' r), w')
          else case find (\<lambda>a. as_str (agent_id a) = aid) (case rs_agents r of None \<Rightarrow> [] | Some cs \<Rightarrow> cs) of
            None \<Rightarrow> (fail (Text (''agent '' @ aid @ '' is not registered'')), w')
          | Some current \<Rightarrow>
              (case rpc js wire socket (Update (merge_flags h mc cwd en dis current)) w' of
                 (Inr r', w'') \<Rightarrow>
                   ((if rs_ok r' then success [''updated '' @ as_str (agent_id current)]
                     else fail (error_text ''unknown error'' r')), w'')
               | (Inl e, w'') \<Rightarrow> (fail (Rpc_Error e), w'')))"

section \<open>Tables\<close>

text \<open>
  \<open>{:<n}\<close> pads text by its number of characters, not bytes; a UTF-8 continuation byte starts none.  The
  \<open>Display\<close> of an agent id writes the text as it is and ignores the width.
\<close>

definition char_count :: "string \<Rightarrow> nat" where
  "char_count s = length (filter (\<lambda>c. \<not> (128 \<le> (of_char c :: nat) \<and> (of_char c :: nat) < 192)) s)"

definition pad :: "nat \<Rightarrow> string \<Rightarrow> string" where
  "pad n s = s @ replicate (n - char_count s) (CHR '' '')"

definition display_id :: "nat \<Rightarrow> agent_id \<Rightarrow> string" where
  "display_id n a = as_str a"

definition state_word :: "bool \<Rightarrow> string" where
  "state_word en = (if en then ''enabled'' else ''disabled'')"

definition opt :: "u64 option \<Rightarrow> string" where
  "opt v = (case v of None \<Rightarrow> ''-'' | Some n \<Rightarrow> show_nat (unat n))"

definition list_header :: string where
  "list_header = pad 24 ''AGENT'' @ '' '' @ pad 8 ''STATE'' @ '' '' @ pad 5 ''CONC'' @ '' '' @ pad 24 ''HANDLER''"

definition list_row :: "agent_config \<Rightarrow> string" where
  "list_row c =
     display_id 24 (agent_id c) @ '' '' @ pad 8 (state_word (enabled c)) @ '' '' @
     pad 5 (show_nat (unat (max_concurrency c))) @ '' '' @ pad 24 (handler c)"

definition ctl_list :: "json_codec \<Rightarrow> 'w wire \<Rightarrow> path \<Rightarrow> 'w \<Rightarrow> outcome \<times> 'w" where
  "ctl_list js wire socket w =
     (case rpc js wire socket List w of
        (Inl e, w') \<Rightarrow> (fail (Rpc_Error e), w')
      | (Inr r, w') \<Rightarrow>
          ((if \<not> rs_ok r then fail (error_text ''unknown error'' r)
            else case (case rs_agents r of None \<Rightarrow> [] | Some cs \<Rightarrow> cs) of
              [] \<Rightarrow> success [''no agents registered'']
            | cs \<Rightarrow> success (list_header # map list_row cs)), w'))"

definition status_header :: string where
  "status_header =
     pad 24 ''AGENT'' @ '' '' @ pad 8 ''STATE'' @ '' '' @ pad 5 ''CONC'' @ '' '' @ pad 9 ''INFLIGHT'' @ '' '' @
     pad 8 ''PENDING'' @ '' '' @ pad 8 ''ACKPEND''"

definition status_row :: "agent_status \<Rightarrow> string" where
  "status_row a =
     display_id 24 (as_agent_id a) @ '' '' @ pad 8 (state_word (as_enabled a)) @ '' '' @
     pad 5 (show_nat (unat (as_max_concurrency a))) @ '' '' @ pad 9 (show_nat (unat (as_in_flight a))) @ '' '' @
     pad 8 (opt (as_num_pending a)) @ '' '' @ pad 8 (opt (as_num_ack_pending a))"

definition print_status :: "status_report \<Rightarrow> string list" where
  "print_status s =
     (''daemon: v'' @ sr_daemon_version s) #
     (''nats: '' @ (if sr_nats_connected s then ''connected'' else ''disconnected'')) #
     status_header # map status_row (sr_agents s)"

definition ctl_status :: "json_codec \<Rightarrow> 'w wire \<Rightarrow> path \<Rightarrow> 'w \<Rightarrow> outcome \<times> 'w" where
  "ctl_status js wire socket w =
     (case rpc js wire socket Status w of
        (Inl e, w') \<Rightarrow> (fail (Rpc_Error e), w')
      | (Inr r, w') \<Rightarrow>
          ((if \<not> rs_ok r then fail (error_text ''unknown error'' r)
            else case rs_status r of
              None \<Rightarrow> fail (Text ''daemon returned no status'')
            | Some s \<Rightarrow> success (print_status s)), w'))"

section \<open>Init\<close>

text \<open>The operator's credentials and URL replace those of the configuration.\<close>

definition ctl_init ::
    "(path \<Rightarrow> bool) \<Rightarrow> (path \<Rightarrow> u32 option) \<Rightarrow> bool \<Rightarrow> (stream_config \<Rightarrow> bool) \<Rightarrow> daemon_config result \<Rightarrow>
     path option \<Rightarrow> string option \<Rightarrow> outcome" where
  "ctl_init creds_ok mode_of connected created loaded creds url =
     (case loaded of
        Inl e \<Rightarrow> exit_config e
      | Inr config \<Rightarrow>
          let c1 = (case creds of Some x \<Rightarrow> config\<lparr>nats_creds := Some x\<rparr> | None \<Rightarrow> config);
              c2 = (case url of Some x \<Rightarrow> c1\<lparr>nats_url := x\<rparr> | None \<Rightarrow> c1)
          in case fst (connect creds_ok mode_of connected c2) of
               Inl e \<Rightarrow> fail (Connect_Failed (nats_url c2) e)
             | Inr _ \<Rightarrow>
                 (case ensure_stream created c2 of
                    Inl e \<Rightarrow> fail (Stream_Failed e)
                  | Inr _ \<Rightarrow> success [''stream '' @ stream_name c2 @ '' ready ('' @ nats_url c2 @ '')'']))"

section \<open>The program\<close>

text \<open>What the environment gives the program: for \<open>init\<close> the relay, for the others the socket.\<close>

record 'w ctl_world =
  cw_loaded :: "daemon_config result"
  cw_socket_flag :: "path option"
  cw_runtime_dir :: "path option"
  cw_creds_ok :: "path \<Rightarrow> bool"
  cw_mode_of :: "path \<Rightarrow> u32 option"
  cw_connected :: bool
  cw_created :: "stream_config \<Rightarrow> bool"
  cw_wire :: "'w wire"

definition on_socket :: "'w ctl_world \<Rightarrow> (path \<Rightarrow> outcome \<times> 'w) \<Rightarrow> 'w \<Rightarrow> outcome \<times> 'w" where
  "on_socket cw f w =
     (case ctl_socket (cw_socket_flag cw) (cw_runtime_dir cw) (cw_loaded cw) of
        Inl e \<Rightarrow> (exit_config e, w)
      | Inr socket \<Rightarrow> f socket)"

fun ctl_main :: "json_codec \<Rightarrow> 'w ctl_world \<Rightarrow> command \<Rightarrow> 'w \<Rightarrow> outcome \<times> 'w" where
  "ctl_main js cw (Init creds url) w =
     (ctl_init (cw_creds_ok cw) (cw_mode_of cw) (cw_connected cw) (cw_created cw) (cw_loaded cw) creds url, w)"
| "ctl_main js cw (Ctl_Register aid h mc cwd) w =
     (case ctl_agent_config aid h mc cwd True of
        Inl e \<Rightarrow> (fail (Invalid_Id e), w)
      | Inr c \<Rightarrow> on_socket cw (\<lambda>socket. rpc_ok js (cw_wire cw) socket (Register c) w) w)"
| "ctl_main js cw (Ctl_Update aid h mc cwd en dis) w =
     on_socket cw (\<lambda>socket. ctl_update js (cw_wire cw) socket aid h mc cwd en dis w) w"
| "ctl_main js cw (Ctl_Unregister aid) w =
     (case parse_agent_id aid of
        Inl e \<Rightarrow> (fail (Invalid_Id e), w)
      | Inr a \<Rightarrow> on_socket cw (\<lambda>socket. rpc_ok js (cw_wire cw) socket (Unregister a) w) w)"
| "ctl_main js cw Ctl_List w = on_socket cw (\<lambda>socket. ctl_list js (cw_wire cw) socket w) w"
| "ctl_main js cw Ctl_Reload w = on_socket cw (\<lambda>socket. rpc_ok js (cw_wire cw) socket Reload w) w"
| "ctl_main js cw Ctl_Status w = on_socket cw (\<lambda>socket. ctl_status js (cw_wire cw) socket w) w"

end
