(* ===== verification/Daemon.thy ===== *)
theory Daemon
  imports Control_Plane Ctl
begin

text \<open>
  The daemon program (\<open>src/main.rs\<close>): loading the configuration, the start-up sequence with its
  failures, and the signal loop.  What the environment gives at start-up is the record \<open>start_env\<close>;
  the control socket and the dispatch tasks run beside the loop and are modelled by \<open>serve_connection\<close>
  and the interleaved dispatcher.
\<close>

section \<open>Start-up\<close>

record 'f start_env =
  st_toml :: "string \<Rightarrow> sval option"
  st_text_of :: "path \<Rightarrow> string option"
  st_exists_at :: "path \<Rightarrow> bool"
  st_config_dir :: "path option"
  st_data_dir :: "path option"
  st_runtime_dir :: "path option"
  st_try_new :: "string \<Rightarrow> 'f option"
  st_rust_log :: "string option"
  st_installed :: bool
  st_dedup :: dedup_env
  st_now :: u64
  st_io :: io_env
  st_disk :: disk
  st_creds_ok :: "path \<Rightarrow> bool"
  st_mode_of :: "path \<Rightarrow> u32 option"
  st_connected :: bool
  st_relay :: relay_env
  st_socket :: socket_env
  st_sighup :: bool
  st_sigterm :: bool

definition load_config :: "'f start_env \<Rightarrow> path option \<Rightarrow> daemon_config result" where
  "load_config env p =
     (case p of
        Some q \<Rightarrow> config_load (st_toml env) q (st_text_of env q)
      | None \<Rightarrow>
          let q = default_config_path (st_config_dir env) in
          if st_exists_at env q then config_load (st_toml env) q (st_text_of env q) else Inr default_config)"

datatype start_failure =
    Bad_Config agentd_error
  | Logging_Failed agentd_error
  | Dedup_Failed agentd_error
  | Registry_Failed agentd_error
  | Relay_Failed agentd_error
  | Socket_Failed agentd_error
  | Sighup_Failed
  | Sigterm_Failed

text \<open>The store, the registry and the dispatcher; then the connection and the consumers; then the socket.\<close>

definition open_state :: "toml_codec \<Rightarrow> 'f start_env \<Rightarrow> daemon_config \<Rightarrow> start_failure + dispatcher" where
  "open_state tc env config =
     (case dedup_open (st_dedup env) (resolved_dedup_path (st_data_dir env) config) (st_now env) (dedup_ttl config) of
        Inl e \<Rightarrow> Inl (Dedup_Failed e)
      | Inr store \<Rightarrow>
          (case registry_load tc (st_io env) (resolved_agents_dir (st_config_dir env) config) (st_disk env) of
             (Inl e, d) \<Rightarrow> Inl (Registry_Failed e)
           | (Inr r, d) \<Rightarrow>
               Inr (dispatcher_new r store (slow_handler_warn_secs config) (max_event_bytes config))))"

definition start_relay :: "'f start_env \<Rightarrow> daemon_config \<Rightarrow> dispatcher \<Rightarrow> start_failure + daemon" where
  "start_relay env config D =
     (case fst (connect (st_creds_ok env) (st_mode_of env) (st_connected env) config) of
        Inl e \<Rightarrow> Inl (Relay_Failed e)
      | Inr _ \<Rightarrow>
          let rl = relay_new (stream_name config) (ack_wait_secs config) (ack_progress_interval_secs config) in
          Inr \<lparr>dm_disp = D, dm_relay = snd (sync_consumers (st_relay env) (dp_registry D) rl),
               dm_connected = False\<rparr>)"

definition start_control :: "'f start_env \<Rightarrow> daemon_config \<Rightarrow> daemon \<Rightarrow> start_failure + daemon" where
  "start_control env config w =
     (case fst (bind_socket (st_socket env) (socket_path (st_runtime_dir env) config)) of
        Inl e \<Rightarrow> Inl (Socket_Failed e)
      | Inr _ \<Rightarrow>
          if \<not> st_sighup env then Inl Sighup_Failed
          else if \<not> st_sigterm env then Inl Sigterm_Failed
          else Inr w)"

text \<open>\<open>run\<close> up to its loop; every failure exits with code 1.\<close>

definition daemon_start ::
    "toml_codec \<Rightarrow> 'f start_env \<Rightarrow> path option \<Rightarrow> start_failure + daemon_config \<times> daemon" where
  "daemon_start tc env p =
     (case load_config env p of
        Inl e \<Rightarrow> Inl (Bad_Config e)
      | Inr config \<Rightarrow>
          (case fst (init_logging (st_try_new env) (st_rust_log env) (st_installed env) (log_level config)) of
             Inl e \<Rightarrow> Inl (Logging_Failed e)
           | Inr _ \<Rightarrow>
               (case open_state tc env config of
                  Inl f \<Rightarrow> Inl f
                | Inr D \<Rightarrow>
                    (case start_relay env config D of
                       Inl f \<Rightarrow> Inl f
                     | Inr w \<Rightarrow>
                         (case start_control env config w of
                            Inl f \<Rightarrow> Inl f
                          | Inr w' \<Rightarrow> Inr (config, w'))))))"

section \<open>The signal loop\<close>

text \<open>
  \<open>Hangup\<close> carries the directory as the operator has left it and the environment of its reload.  The
  result: once the daemon stops, the exit code and what was done to the control socket, whether or not its
  removal succeeds.
\<close>

datatype signal = Hangup disk ctl_env | Terminate | Interrupt

definition with_directory :: "disk \<Rightarrow> daemon \<Rightarrow> daemon" where
  "with_directory d w = set_registry ((dm_registry w)\<lparr>reg_disk := d\<rparr>) w"

fun signal_loop :: "toml_codec \<Rightarrow> signal list \<Rightarrow> daemon \<Rightarrow> (nat \<times> socket_op list) option \<times> daemon" where
  "signal_loop tc [] w = (None, w)"
| "signal_loop tc (Hangup d env # sigs) w = signal_loop tc sigs (snd (handle_reload tc env (with_directory d w)))"
| "signal_loop tc (Terminate # sigs) w = (Some (0, [Remove_File]), w\<lparr>dm_relay := shutdown (dm_relay w)\<rparr>)"
| "signal_loop tc (Interrupt # sigs) w = (Some (0, [Remove_File]), w\<lparr>dm_relay := shutdown (dm_relay w)\<rparr>)"

lemma with_directory_sound: "daemon_sound w \<Longrightarrow> disk_ok d \<Longrightarrow> daemon_sound (with_directory d w)"
  by (simp add: with_directory_def daemon_sound_def memory_ok_def get_eq)

section \<open>What start-up establishes\<close>

lemma snd_apply_all:
  "snd (sync_consumers env r rl) = backend.apply_all env (get r) (map Added (filter enabled (snapshot r))) rl"
  by (simp add: sync_consumers_def relay_apply_all)

lemma fold_added: "fold (pull_effect look) (map Added cs) P = P \<union> agent_id ` set cs"
  by (induction cs arbitrary: P) auto

lemma sync_pulls:
  assumes "registry_ok tc r" and "pulled rl = {}"
  shows "pulled (snd (sync_consumers env r rl)) \<subseteq> {a. \<exists>c. get r a = Some c \<and> enabled c}"
    and "relay_good env \<Longrightarrow>
      pulled (snd (sync_consumers env r rl)) = {a. \<exists>c. get r a = Some c \<and> enabled c}"
proof -
  have ids: "agent_id ` {c \<in> set (snapshot r). enabled c} = {a. \<exists>c. get r a = Some c \<and> enabled c}"
    using assms(1) snapshot_set[of r] get_id[of tc r] by (fastforce simp: registry_ok_def image_iff)
  show "pulled (snd (sync_consumers env r rl)) \<subseteq> {a. \<exists>c. get r a = Some c \<and> enabled c}"
    using backend.subscribed_all_bound[of env "get r" "map Added (filter enabled (snapshot r))" rl] assms(2)
    by (simp add: snd_apply_all fold_added ids)
  show "relay_good env \<Longrightarrow>
      pulled (snd (sync_consumers env r rl)) = {a. \<exists>c. get r a = Some c \<and> enabled c}"
    using assms(2) by (simp add: snd_apply_all backend.subscribed_all fold_added ids)
qed

lemma daemon_start_parts:
  assumes "daemon_start tc env p = Inr (config, w)"
  obtains D where "load_config env p = Inr config" "open_state tc env config = Inr D"
    "start_relay env config D = Inr w"
  using assms by (auto simp: daemon_start_def start_control_def split: sum.splits if_splits)

lemma open_state_parts:
  assumes "open_state tc env config = Inr D"
  obtains store d where
    "dedup_open (st_dedup env) (resolved_dedup_path (st_data_dir env) config) (st_now env) (dedup_ttl config) = Inr store"
    "registry_load tc (st_io env) (resolved_agents_dir (st_config_dir env) config) (st_disk env) = (Inr (dp_registry D), d)"
    "dp_dedup D = store"
  using assms by (auto simp: open_state_def dispatcher_new_def split: sum.splits prod.splits)

lemma load_config_valid: "load_config env p = Inr config \<Longrightarrow> config_validate config = Inr ()"
  by (auto simp: load_config_def Let_def default_config_valid dest: config_load_okD
      split: option.splits if_splits)

lemma registry_load_ok:
  assumes "registry_load tc io dir d = (Inr r, d')" and "disk_ok d"
  shows "registry_ok tc r"
  using assms load_registry_ok[of tc io dir d]
  by (auto simp: registry_load_def split: prod.splits sum.splits)

lemma start_relay_fields:
  "start_relay env config D = Inr w \<Longrightarrow>
     dm_disp w = D \<and> dm_relay w = snd (sync_consumers (st_relay env) (dp_registry D)
       (relay_new (stream_name config) (ack_wait_secs config) (ack_progress_interval_secs config)))"
  by (auto simp: start_relay_def Let_def split: sum.splits)

text \<open>A start with the default configuration and one registration, on the given rows; and one on a single row.\<close>

definition demo_start_on :: "dedup_store \<Rightarrow> unit start_env" where
  "demo_start_on rows =
     \<lparr>st_toml = (\<lambda>_. None), st_text_of = (\<lambda>_. None), st_exists_at = (\<lambda>_. False),
      st_config_dir = Some ''/c'', st_data_dir = Some ''/v'', st_runtime_dir = Some ''/r'',
      st_try_new = (\<lambda>_. Some ()), st_rust_log = None, st_installed = True,
      st_dedup = \<lparr>de_parent = Some ''/v/agentd'', de_mkdir = True, de_rows = Some rows,
                  de_journal = True, de_sync = True, de_busy = True, de_schema = True, de_purge = True\<rparr>,
      st_now = 10, st_io = io_good, st_disk = demo_disk [(''a.toml'', Readable ''t'')],
      st_creds_ok = (\<lambda>_. True), st_mode_of = (\<lambda>_. None), st_connected = True,
      st_relay = \<lparr>re_stream = True, re_consumer = (\<lambda>_. True)\<rparr>,
      st_socket = \<lparr>so_exists = False, so_remove = True, so_parent = None, so_mkdir = True, so_bind = True,
                   so_chmod = True\<rparr>,
      st_sighup = True, st_sigterm = True\<rparr>"

abbreviation demo_start :: "unit start_env" where
  "demo_start \<equiv> demo_start_on [((''a'', ''e''), 5)]"

lemma demo_opens:
  "\<exists>s. dedup_open (st_dedup (demo_start_on rows)) p now ttl = Inr s"
  by (simp add: dedup_open_def with_connection_def purge_expired_def demo_start_on_def Let_def)

lemma demo_opens_state: "\<exists>D. open_state demo_codec (demo_start_on rows) default_config = Inr D"
proof -
  obtain s where s: "dedup_open (st_dedup (demo_start_on rows)) (resolved_dedup_path (st_data_dir (demo_start_on rows)) default_config)
      (st_now (demo_start_on rows)) (dedup_ttl default_config) = Inr s"
    using demo_opens by blast
  obtain r d where "registry_load demo_codec io_good (resolved_agents_dir (st_config_dir (demo_start_on rows)) default_config)
      (demo_disk [(''a.toml'', Readable ''t'')]) = (Inr r, d)"
    by (simp add: registry_load_def demo_loads)
  then have "registry_load demo_codec (st_io (demo_start_on rows))
      (resolved_agents_dir (st_config_dir (demo_start_on rows)) default_config) (st_disk (demo_start_on rows)) = (Inr r, d)"
    by (simp add: demo_start_on_def)
  with s show ?thesis by (simp add: open_state_def)
qed

lemma demo_starts: "\<exists>w. daemon_start demo_codec (demo_start_on rows) None = Inr (default_config, w)"
proof -
  obtain D where D: "open_state demo_codec (demo_start_on rows) default_config = Inr D"
    using demo_opens_state by blast
  have config: "load_config (demo_start_on rows) None = Inr default_config"
    by (simp add: load_config_def demo_start_on_def)
  have logging: "fst (init_logging (st_try_new (demo_start_on rows)) (st_rust_log (demo_start_on rows)) (st_installed (demo_start_on rows))
      (log_level default_config)) = Inr ()"
    by (simp add: init_logging_def build_filter_def demo_start_on_def)
  obtain w where w: "start_relay (demo_start_on rows) default_config D = Inr w"
    by (simp add: start_relay_def connect_def demo_start_on_def default_config_def Let_def)
  have "start_control (demo_start_on rows) default_config w = Inr w"
    by (simp add: start_control_def bind_socket_def demo_start_on_def Let_def)
  with D config logging w show ?thesis by (simp add: daemon_start_def)
qed

lemma daemon_start_daemon_ok:
  assumes "daemon_start tc env p = Inr (config, w)" and "disk_ok (st_disk env)"
  shows "daemon_ok tc w"
    "relay_good (st_relay env) \<Longrightarrow>
       pulled (dm_relay w) = {a. \<exists>c. get (dm_registry w) a = Some c \<and> enabled c}"
proof -
  obtain D where D: "load_config env p = Inr config" "open_state tc env config = Inr D"
    "start_relay env config D = Inr w"
    using assms(1) by (rule daemon_start_parts)
  obtain d where "registry_load tc (st_io env) (resolved_agents_dir (st_config_dir env) config) (st_disk env) =
      (Inr (dp_registry D), d)"
    using D(2) by (rule open_state_parts)
  from registry_load_ok[OF this assms(2)] have reg: "registry_ok tc (dp_registry D)" .
  let ?rl = "relay_new (stream_name config) (ack_wait_secs config) (ack_progress_interval_secs config)"
  have "pulled ?rl = {}" by (simp add: pulled_def relay_new_def)
  note sync = sync_pulls[OF reg this, of "st_relay env"]
  have "pulls_ok (snd (sync_consumers (st_relay env) (dp_registry D) ?rl))"
    by (simp add: snd_apply_all pulls_ok_all pulls_ok_new)
  with sync(1) reg start_relay_fields[OF D(3)] show "daemon_ok tc w"
    by (auto simp: daemon_ok_def only_registered_def)
  show "relay_good (st_relay env) \<Longrightarrow>
      pulled (dm_relay w) = {a. \<exists>c. get (dm_registry w) a = Some c \<and> enabled c}"
    using sync(2) start_relay_fields[OF D(3)] by simp
qed

text \<open>
  C26. A daemon that starts has a valid configuration, a registry that is its directory, one pull loop per
  enabled agent when the server answers, and never one for another agent.
\<close>

theorem start_establishes_invariant:
  assumes "daemon_start tc env p = Inr (config, w)" and "disk_ok (st_disk env)"
  shows "config_validate config = Inr () \<and> daemon_ok tc w \<and>
     (relay_good (st_relay env) \<longrightarrow>
        pulled (dm_relay w) = {a. \<exists>c. get (dm_registry w) a = Some c \<and> enabled c})"
proof -
  obtain D where "load_config env p = Inr config"
    using assms(1) by (rule daemon_start_parts)
  from load_config_valid[OF this] daemon_start_daemon_ok[OF assms] show ?thesis by simp
qed

theorem start_establishes_invariant_witness:
  "\<exists>w. daemon_start demo_codec demo_start None = Inr (default_config, w) \<and> daemon_ok demo_codec w"
proof -
  obtain w where w: "daemon_start demo_codec demo_start None = Inr (default_config, w)"
    using demo_starts by blast
  have "disk_ok (st_disk demo_start)" by (simp add: demo_start_on_def disk_ok_def demo_disk_def wf_map_def)
  from start_establishes_invariant[OF w this] w show ?thesis by blast
qed

text \<open>
  History is never discarded silently: the store a daemon starts with has every row of the file but
  the expired ones, and without the file's rows the daemon does not start.
\<close>

theorem start_keeps_history:
  assumes "daemon_start tc env p = Inr (config, w)"
  shows "\<exists>rows. de_rows (st_dedup env) = Some rows \<and>
     dp_dedup (dm_disp w) =
       filter (\<lambda>(k, t). \<not> t <s saturating_sub (st_now env) (dedup_ttl config)) rows"
proof -
  obtain D where D: "open_state tc env config = Inr D" "start_relay env config D = Inr w"
    using assms by (rule daemon_start_parts)
  from D(1) obtain store where
    "dedup_open (st_dedup env) (resolved_dedup_path (st_data_dir env) config) (st_now env) (dedup_ttl config) = Inr store"
    "dp_dedup D = store" by (rule open_state_parts)
  with start_relay_fields[OF D(2)] show ?thesis
    by (auto simp: dedup_open_def with_connection_def purge_expired_def Let_def
        split: option.splits if_splits sum.splits prod.splits)
qed

theorem start_keeps_history_witness:
  "\<exists>w. daemon_start demo_codec demo_start None = Inr (default_config, w) \<and>
     (\<exists>rows. de_rows (st_dedup demo_start) = Some rows \<and> set (dp_dedup (dm_disp w)) \<subseteq> set rows)"
proof -
  obtain w where w: "daemon_start demo_codec demo_start None = Inr (default_config, w)"
    using demo_starts by blast
  from start_keeps_history[OF w] w show ?thesis by auto
qed

text \<open>
  Whatever signals arrive, and however the directory is edited before each reload, at most one loop pulls
  for an agent and only for a registered one; after SIGTERM or Ctrl-C the exit code is 0, the socket is
  removed, nothing pulls any more and no dispatch task is left.
\<close>

theorem signals_keep_invariant:
  assumes "daemon_sound w" and "\<forall>d env. Hangup d env \<in> set sigs \<longrightarrow> disk_ok d"
    and "signal_loop tc sigs w = (code, w')"
  shows "memory_ok (dm_registry w') \<and>
     (code = None \<longrightarrow> pulls_ok (dm_relay w') \<and> only_registered (get (dm_registry w')) (pulled (dm_relay w'))) \<and>
     (code \<noteq> None \<longrightarrow> code = Some (0, [Remove_File]) \<and> pulled (dm_relay w') = {} \<and> rl_dispatch_tasks (dm_relay w') = [] \<and>
        (\<forall>h < length (rl_loops (dm_relay w')). pl_aborted (rl_loops (dm_relay w') ! h)))"
proof -
  have stop: "pulled (shutdown rl) = {} \<and> rl_dispatch_tasks (shutdown rl) = [] \<and>
      (\<forall>h < length (rl_loops (shutdown rl)). pl_aborted (rl_loops (shutdown rl) ! h))" if "pulls_ok rl" for rl
    using stop_pulling_aborts[OF that] by (auto simp: shutdown_def pulled_def) (simp add: stop_pulling_def)
  show ?thesis
    using assms
  proof (induction tc sigs w arbitrary: code w' rule: signal_loop.induct)
    case (2 tc d env sigs w)
    have "daemon_sound (snd (handle_reload tc env (with_directory d w)))"
      using handle_reload_sound[OF with_directory_sound prod.collapse[symmetric]] "2.prems"(1,2) by simp
    moreover have "\<forall>d env. Hangup d env \<in> set sigs \<longrightarrow> disk_ok d" using "2.prems"(2) by auto
    moreover have "signal_loop tc sigs (snd (handle_reload tc env (with_directory d w))) = (code, w')"
      using "2.prems"(3) by simp
    ultimately show ?case by (rule "2.IH")
  qed (auto simp: daemon_sound_def stop)
qed

theorem signals_keep_invariant_witness:
  "pulled (dm_relay (snd (signal_loop demo_codec
     [Hangup (demo_disk [(''a.toml'', Readable ''t'')]) demo_env, Terminate] empty_daemon))) = {}"
proof -
  let ?sigs = "[Hangup (demo_disk [(''a.toml'', Readable ''t'')]) demo_env, Terminate]"
  let ?l = "signal_loop demo_codec ?sigs empty_daemon"
  have sound: "daemon_sound empty_daemon" using empty_daemon_ok(1) by (rule daemon_ok_sound)
  have edits: "\<forall>d env. Hangup d env \<in> set ?sigs \<longrightarrow> disk_ok d"
    by (simp add: disk_ok_def demo_disk_def wf_map_def)
  have "fst ?l = Some (0, [Remove_File])" by simp
  with signals_keep_invariant[OF sound edits prod.collapse[symmetric]] show ?thesis by simp
qed

section \<open>The process\<close>

text \<open>
  \<open>main\<close> and \<open>run\<close> with the signals that arrive: the exit code, once there is one.  The command line is
  taken as clap has parsed it.
\<close>

datatype agentd_command = Run

record agentd_cli =
  cli_config :: "path option"
  cli_command :: agentd_command

definition agentd_run :: "toml_codec \<Rightarrow> 'f start_env \<Rightarrow> path option \<Rightarrow> signal list \<Rightarrow> nat option" where
  "agentd_run tc env config_path sigs =
     (case daemon_start tc env config_path of
        Inl f \<Rightarrow> Some 1
      | Inr (config, w) \<Rightarrow> map_option fst (fst (signal_loop tc sigs w)))"

definition agentd_main :: "toml_codec \<Rightarrow> 'f start_env \<Rightarrow> agentd_cli \<Rightarrow> signal list \<Rightarrow> nat option" where
  "agentd_main tc env cli sigs = (case cli_command cli of Run \<Rightarrow> agentd_run tc env (cli_config cli) sigs)"

lemma signal_loop_ends:
  "map_option fst (fst (signal_loop tc sigs w)) = (if Terminate \<in> set sigs \<or> Interrupt \<in> set sigs then Some 0 else None)"
  by (induction tc sigs w rule: signal_loop.induct) auto

text \<open>
  The exit code of \<open>agentd\<close>: 1 exactly when it does not start, whatever signals arrive; once it has started, 0
  when SIGTERM or Ctrl-C has arrived, and until then it runs, however often it is told to reload.
\<close>

theorem agentd_exit_code:
  "agentd_main tc env cli sigs =
     (if is_ok (daemon_start tc env (cli_config cli))
      then (if Terminate \<in> set sigs \<or> Interrupt \<in> set sigs then Some 0 else None)
      else Some 1)"
  by (cases "cli_command cli") (auto simp: agentd_main_def agentd_run_def signal_loop_ends split: sum.split)

text \<open>An explicit configuration file must exist: without it the daemon does not start.\<close>

lemma explicit_config_needed:
  assumes "cli_config cli = Some q" and "st_text_of env q = None"
  shows "agentd_main tc env cli sigs = Some 1"
  using assms by (simp add: agentd_exit_code daemon_start_def load_config_def config_load_def)

end
