(* ===== verification/Dispatch_Runs.thy ===== *)
theory Dispatch_Runs
  imports Dispatcher
begin

text \<open>
  What one \<open>Dispatcher::dispatch\<close> does when nothing is interleaved: its effects, in order, and the
  state it leaves, on every branch.
\<close>

section \<open>Every dispatch ends\<close>

text \<open>The number of sections that can follow a point.\<close>

fun pc_rank :: "pc \<Rightarrow> nat" where
  "pc_rank Entered = 10"
| "pc_rank (Gated envelope c) = 9"
| "pc_rank (Queued cx) = 8"
| "pc_rank (Admitted cx) = 7"
| "pc_rank (Missed cx) = 6"
| "pc_rank (Claimed cx) = 5"
| "pc_rank (Running cx pid) = 4"
| "pc_rank (Exited cx) = 3"
| "pc_rank (Spawn_Failed cx) = 2"
| "pc_rank (Recorded cx) = 2"
| "pc_rank (Acking cx) = 1"
| "pc_rank (Hit_Acking cx) = 1"
| "pc_rank (Terminating cx) = 1"
| "pc_rank Rejecting = 1"
| "pc_rank (Finished out) = 0"

lemmas section_defs =
  enter_def check_completed_def claim_def spawn_handler_def reap_def record_completion_def
  ack_delivery_def Let_def

lemma advance_rank: "advance json an D dl p = Some (D', p', es) \<Longrightarrow> pc_rank p' < pc_rank p"
  by (cases p)
    (auto simp: section_defs take_permit_def split: sum.splits prod.splits option.splits if_splits bool.splits)

lemma advance_None:
  "advance json an D dl p = None \<longleftrightarrow>
     (\<exists>out. p = Finished out) \<or> (\<exists>cx. p = Queued cx \<and> take_permit (cx_permits cx) D = None)"
  by (cases p) (auto split: prod.splits)

lemma run_task_stuck:
  "pc_rank p \<le> n \<Longrightarrow> run_task n json an D dl p = (D', p', es) \<Longrightarrow> advance json an D' dl p' = None"
proof (induction n arbitrary: D p D' p' es)
  case 0
  then show ?case by (cases p) auto
next
  case (Suc n)
  show ?case
  proof (cases "advance json an D dl p")
    case None
    with Suc.prems show ?thesis by auto
  next
    case (Some r)
    obtain D1 p1 es1 where r: "r = (D1, p1, es1)" by (cases r)
    from advance_rank[OF Some[unfolded r]] Suc.prems(1) have "pc_rank p1 \<le> n" by simp
    with Suc.IH[OF this] Suc.prems(2) Some r show ?thesis by (auto split: prod.splits)
  qed
qed

lemma run_task_enough: "dispatch json an D dl = (D', p', es) \<Longrightarrow> advance json an D' dl p' = None"
  unfolding dispatch_def by (rule run_task_stuck[of Entered 10]) simp_all

section \<open>Stepping through a run\<close>

lemma run_task_done [simp]: "run_task n json an D dl (Finished out) = (D, Finished out, [])"
  by (cases n) simp_all

lemma run_task_Some:
  assumes "advance json an D dl p = Some (D', p', es)"
  shows "run_task (Suc n) json an D dl p =
     (let (D'', p'', es') = run_task n json an D' dl p' in (D'', p'', es @ es'))"
  using assms by (auto split: prod.splits)

section \<open>The gate\<close>

lemma gate_ok_iff:
  "gate json D dl = Inr (e, c) \<longleftrightarrow>
     length (dl_raw dl) \<le> unat (dp_max_event_bytes D) \<and>
     envelope_parse json (dl_raw dl) = Inr e \<and> ev_agent_id e = dl_agent dl \<and>
     get (dp_registry D) (dl_agent dl) = Some c \<and> enabled c"
  by (auto simp: gate_def split: sum.splits option.splits)

section \<open>The semaphore and the in-flight set\<close>

text \<open>The state a dispatch finds after \<open>ensure_state\<close>, and the semaphore it queues on.\<close>

definition settled :: "dispatcher \<Rightarrow> agent_id \<Rightarrow> u32 \<Rightarrow> dispatcher" where
  "settled D a mc = snd (ensure_state a mc D)"

definition permits_of :: "dispatcher \<Rightarrow> agent_id \<Rightarrow> u32 \<Rightarrow> nat" where
  "permits_of D a mc = fst (ensure_state a mc D)"

definition free_slots :: "dispatcher \<Rightarrow> agent_id \<Rightarrow> u32 \<Rightarrow> nat" where
  "free_slots D a mc = sem_available (dp_sems (settled D a mc) ! permits_of D a mc)"

text \<open>A state is well formed when every agent's semaphore exists.\<close>

definition wf_states :: "dispatcher \<Rightarrow> bool" where
  "wf_states D = (\<forall>a st. map_of (dp_states D) a = Some st \<longrightarrow> st_permits st < length (dp_sems D))"

definition events_in_flight :: "dispatcher \<Rightarrow> agent_id \<Rightarrow> string set" where
  "events_in_flight D a =
     (case map_of (dp_states D) a of Some st \<Rightarrow> st_in_flight st | None \<Rightarrow> {})"

lemma ensure_state_eq: "ensure_state a mc D = (permits_of D a mc, settled D a mc)"
  by (simp add: permits_of_def settled_def)

lemma settled_state:
  "\<exists>st. map_of (dp_states (settled D a mc)) a = Some st \<and> st_permits st = permits_of D a mc \<and>
     st_in_flight st = events_in_flight D a"
  by (auto simp: settled_def permits_of_def events_in_flight_def ensure_state_def Let_def
      split: option.splits)

lemma settled_fields [simp]:
  "dp_registry (settled D a mc) = dp_registry D" "dp_dedup (settled D a mc) = dp_dedup D"
  "dp_slow_handler_warn (settled D a mc) = dp_slow_handler_warn D"
  "dp_max_event_bytes (settled D a mc) = dp_max_event_bytes D"
  by (auto simp: settled_def ensure_state_def Let_def split: option.splits)

lemma permits_of_bound: "wf_states D \<Longrightarrow> permits_of D a mc < length (dp_sems (settled D a mc))"
  by (auto simp: wf_states_def settled_def permits_of_def ensure_state_def Let_def
      split: option.splits)

lemma settled_idle: "map_of (dp_states D) a \<noteq> None \<Longrightarrow> settled D a mc = D"
  by (auto simp: settled_def ensure_state_def)

lemma free_slots_new: "map_of (dp_states D) a = None \<Longrightarrow> free_slots D a mc = unat mc"
  by (simp add: free_slots_def settled_def permits_of_def ensure_state_def Let_def)

lemma available_settled:
  "get (dp_registry D) a = Some c \<Longrightarrow> enabled c \<Longrightarrow>
     available a D = (free_slots D a (max_concurrency c), settled D a (max_concurrency c))"
  by (simp add: available_def ensure_state_eq free_slots_def)

lemma take_drop_permit:
  assumes "take_permit k D = Some D'" shows "drop_permit k D' = D"
proof -
  from assms have k: "k < length (dp_sems D)" "0 < sem_available (dp_sems D ! k)"
    and D': "D' = D\<lparr>dp_sems := (dp_sems D)[k := (dp_sems D ! k)\<lparr>sem_available := sem_available (dp_sems D ! k) - 1\<rparr>]\<rparr>"
    by (auto simp: take_permit_def split: if_splits)
  from k have "(dp_sems D ! k)\<lparr>sem_available := sem_available (dp_sems D ! k) - 1 + 1\<rparr> = dp_sems D ! k"
    by simp
  with k show ?thesis by (simp add: D' drop_permit_def)
qed

lemma drop_permit_commute:
  "drop_permit k (D\<lparr>dp_states := x\<rparr>) = (drop_permit k D)\<lparr>dp_states := x\<rparr>"
  "drop_permit k (D\<lparr>dp_dedup := s\<rparr>) = (drop_permit k D)\<lparr>dp_dedup := s\<rparr>"
  by (simp_all add: drop_permit_def)

section \<open>Up to the dedup check\<close>

definition run_ctx :: "dispatcher \<Rightarrow> delivery \<Rightarrow> event_envelope \<Rightarrow> agent_config \<Rightarrow> dispatch_ctx" where
  "run_ctx D dl e c =
     \<lparr>cx_envelope = e, cx_config = c, cx_permits = permits_of D (dl_agent dl) (max_concurrency c)\<rparr>"

definition run_state :: "dispatcher \<Rightarrow> delivery \<Rightarrow> agent_config \<Rightarrow> dispatcher" where
  "run_state D dl c = settled D (dl_agent dl) (max_concurrency c)"

lemma run_ctx_sel [simp]:
  "cx_envelope (run_ctx D dl e c) = e" "cx_config (run_ctx D dl e c) = c"
  by (simp_all add: run_ctx_def)

lemma run_admitted:
  assumes "gate json D dl = Inr (e, c)" and "wf_states D"
    and "0 < free_slots D (dl_agent dl) (max_concurrency c)"
  obtains P where
    "take_permit (cx_permits (run_ctx D dl e c)) (run_state D dl c) = Some P"
    "dp_states P = dp_states (run_state D dl c)" "dp_dedup P = dp_dedup D"
    "dp_slow_handler_warn P = dp_slow_handler_warn D"
    "drop_permit (cx_permits (run_ctx D dl e c)) P = run_state D dl c"
    "dispatch json an D dl =
       (let (D', p', es) = run_task 7 json an P dl (Admitted (run_ctx D dl e c))
        in (D', p', Log Event_Received # es))"
proof -
  let ?cx = "run_ctx D dl e c"
  from permits_of_bound[OF assms(2)] assms(3)
  obtain P where P: "take_permit (cx_permits ?cx) (run_state D dl c) = Some P"
    by (auto simp: take_permit_def run_state_def run_ctx_def free_slots_def)
  then have fields: "dp_states P = dp_states (run_state D dl c)" "dp_dedup P = dp_dedup D"
      "dp_slow_handler_warn P = dp_slow_handler_warn D"
    by (auto simp: take_permit_def run_state_def split: if_splits)
  from assms(1) have "advance json an D dl Entered = Some (D, Gated e c, [Log Event_Received])"
    by (simp add: enter_def)
  moreover have "advance json an D dl (Gated e c) = Some (run_state D dl c, Queued ?cx, [])"
    by (simp add: ensure_state_eq run_state_def run_ctx_def)
  moreover from P have "advance json an (run_state D dl c) dl (Queued ?cx) = Some (P, Admitted ?cx, [])"
    by simp
  ultimately have "dispatch json an D dl =
       (let (D', p', es) = run_task 7 json an P dl (Admitted ?cx) in (D', p', Log Event_Received # es))"
    using run_task_Some[of json an D dl Entered _ _ _ 9]
      run_task_Some[of json an D dl "Gated e c" _ _ _ 8]
      run_task_Some[of json an _ dl "Queued ?cx" _ _ _ 7]
    by (simp add: dispatch_def Let_def split: prod.splits)
  with P fields take_drop_permit[OF P] that show thesis by blast
qed

text \<open>What a failing or missing dedup lookup logs, and how a delivery is acknowledged.\<close>

definition lookup_log :: "answers \<Rightarrow> delivery \<Rightarrow> effect list" where
  "lookup_log an dl = (if an_dedup_read an then [] else [Log (Dedup_Lookup_Failed (dl_agent dl))])"

definition ack_effects :: "answers \<Rightarrow> effect list" where
  "ack_effects an = [Ack_Sent (an_ack an), Log (if an_ack an then Ack_Success else Ack_Failure)]"

definition dedup_hit_for :: "answers \<Rightarrow> dispatcher \<Rightarrow> delivery \<Rightarrow> event_envelope \<Rightarrow> bool" where
  "dedup_hit_for an D dl e =
     (an_dedup_read an \<and> (dl_agent dl, ev_event_id e) \<in> completed_set (dp_dedup D))"

lemma check_completed_eq:
  "check_completed an D dl cx =
     (if dedup_hit_for an D dl (cx_envelope cx) then (D, Hit_Acking cx, [Log Dedup_Hit])
      else (D, Missed cx, lookup_log an dl))"
  using dedup.lookup_ok[of "dp_dedup D" "dl_agent dl" "event_of cx"]
  by (cases "an_dedup_read an")
    (auto simp: check_completed_def dedup_hit_for_def lookup_log_def is_completed_def completed_set_def)

text \<open>A run that misses the dedup store reaches the in-flight check.\<close>

lemma run_missed:
  assumes "dp_dedup P = dp_dedup D" and "\<not> dedup_hit_for an D dl (cx_envelope cx)"
  shows "run_task 7 json an P dl (Admitted cx) =
     (let (D', p', es) = run_task 6 json an P dl (Missed cx) in (D', p', lookup_log an dl @ es))"
proof -
  from assms have "advance json an P dl (Admitted cx) = Some (P, Missed cx, lookup_log an dl)"
    by (simp add: check_completed_eq dedup_hit_for_def)
  from run_task_Some[OF this, of 6] show ?thesis by simp
qed

lemma run_state_state:
  "map_of (dp_states (run_state D dl c)) (dl_agent dl) =
     Some \<lparr>st_permits = cx_permits (run_ctx D dl e c),
           st_in_flight = events_in_flight D (dl_agent dl)\<rparr>"
  using settled_state[of D "dl_agent dl" "max_concurrency c"]
  by (auto simp: run_state_def run_ctx_def)

text \<open>The claim, on the state \<open>ensure_state\<close> left.\<close>

lemma claim_settled:
  assumes "dp_states P = dp_states (run_state D dl c)" and "cx_permits cx = cx_permits (run_ctx D dl e c)"
  shows "claim P dl cx =
     (if event_of cx \<in> events_in_flight D (dl_agent dl)
      then (drop_permit (cx_permits cx) P, Finished Dropped, [Log In_Flight_Duplicate_Dropped])
      else (P\<lparr>dp_states := AList.update (dl_agent dl)
               \<lparr>st_permits = cx_permits cx,
                st_in_flight = insert (event_of cx) (events_in_flight D (dl_agent dl))\<rparr>
               (dp_states (run_state D dl c))\<rparr>, Claimed cx, []))"
proof -
  let ?st = "\<lparr>st_permits = cx_permits cx, st_in_flight = events_in_flight D (dl_agent dl)\<rparr>"
  from assms run_state_state[of D dl c e] have st: "map_of (dp_states P) (dl_agent dl) = Some ?st"
    by simp
  then have "AList.update (dl_agent dl) ?st (dp_states P) = dp_states P" by (simp add: update_triv)
  then show ?thesis
    using st by (simp add: claim_def assms(1)[symmetric])
qed

lemma remove_claimed:
  assumes "dp_states P = AList.update a \<lparr>st_permits = k, st_in_flight = insert e S\<rparr> sts"
    and "map_of sts a = Some \<lparr>st_permits = k, st_in_flight = S\<rparr>" and "e \<notin> S"
  shows "remove_in_flight a e P = P\<lparr>dp_states := sts\<rparr>"
  using assms by (simp add: remove_in_flight_def update_triv)

section \<open>A sample\<close>

text \<open>One agent, one event and a working environment, for the concrete instances of the theorems.\<close>

definition demo_json :: "string \<Rightarrow> sval option" where
  "demo_json s =
     (if s = ''m''
      then Some (VObj [(''version'', VInt 1), (''event_id'', VStr ''e''), (''agent_id'', VStr ''a''),
                       (''type'', VStr ''t''), (''created_at'', VStr ''c''), (''payload'', VNull)])
      else None)"

definition demo_envelope :: event_envelope where
  "demo_envelope = \<lparr>ev_version = 1, ev_event_id = ''e'', ev_agent_id = demo_id, ev_event_type = ''t'',
                    ev_created_at = ''c'', ev_payload = VNull, ev_metadata = None\<rparr>"

definition demo_delivery :: delivery where
  "demo_delivery = \<lparr>dl_agent = demo_id, dl_raw = ''m'', dl_stream_sequence = 7,
                    dl_consumer_sequence = 5, dl_delivery_count = 1\<rparr>"

definition demo_registry :: "agent_config \<Rightarrow> registry" where
  "demo_registry c = \<lparr>reg_dir = ''/d'', reg_agents = [(demo_id, c)],
                      reg_disk = \<lparr>dir_exists = True, files = []\<rparr>\<rparr>"

definition demo_dispatcher :: "agent_config \<Rightarrow> dispatcher" where
  "demo_dispatcher c = dispatcher_new (demo_registry c) [] 600 4096"

definition demo_answers :: answers where
  "demo_answers = \<lparr>an_term = True, an_dedup_read = True, an_spawn = Some 42,
                   an_wait = Some (Exit_Code 0), an_elapsed_ns = 5000000, an_elapsed_again_ns = 5000000,
                   an_dedup_mark = True, an_now = 1000, an_ack = True\<rparr>"

lemmas demo_defs =
  demo_id_def demo_config_def demo_json_def demo_envelope_def demo_delivery_def demo_registry_def
  demo_dispatcher_def demo_answers_def dispatcher_new_def

lemma demo_parse: "envelope_parse demo_json ''m'' = Inr demo_envelope"
  by code_simp

lemma demo_sel [simp]:
  "dl_agent demo_delivery = demo_id" "dl_raw demo_delivery = ''m''" "ev_agent_id demo_envelope = demo_id"
  "ev_event_id demo_envelope = ''e''" "as_str demo_id = ''a''"
  "get (demo_registry c) demo_id = Some c"
  "an_term demo_answers" "an_dedup_read demo_answers" "an_spawn demo_answers = Some 42"
  "an_dedup_mark demo_answers" "an_now demo_answers = 1000" "an_ack demo_answers"
  "an_wait demo_answers = Some (Exit_Code 0)" "an_elapsed_ns demo_answers = 5000000"
  "an_elapsed_again_ns demo_answers = 5000000"
  by (simp_all add: demo_defs get_def as_str_def)

lemma demo_gate_ok:
  "dp_registry D = demo_registry c \<Longrightarrow> enabled c \<Longrightarrow> dp_max_event_bytes D = 4096 \<Longrightarrow>
     gate demo_json D demo_delivery = Inr (demo_envelope, c)"
  by (simp add: gate_ok_iff demo_parse)

lemma demo_wf: "wf_states (demo_dispatcher c)"
  by (simp add: wf_states_def demo_defs)

text \<open>A dispatcher whose only agent has a state: its free permits and its events in flight.\<close>

definition busy_dispatcher :: "nat \<Rightarrow> string set \<Rightarrow> dispatcher" where
  "busy_dispatcher free S =
     (demo_dispatcher demo_config)\<lparr>dp_states := [(demo_id, \<lparr>st_permits = 0, st_in_flight = S\<rparr>)],
        dp_sems := [\<lparr>sem_capacity = 1, sem_available = free\<rparr>]\<rparr>"

lemma busy_facts:
  "gate demo_json (busy_dispatcher free S) demo_delivery = Inr (demo_envelope, demo_config)"
  "wf_states (busy_dispatcher free S)" "free_slots (busy_dispatcher free S) demo_id mc = free"
  "events_in_flight (busy_dispatcher free S) demo_id = S"
  "dp_dedup (busy_dispatcher free S) = []"
  by (simp_all add: busy_dispatcher_def demo_dispatcher_def dispatcher_new_def demo_gate_ok demo_config_def
      wf_states_def free_slots_def settled_def permits_of_def ensure_state_def events_in_flight_def)

section \<open>The branches\<close>

text \<open>A refused delivery is terminated; nothing is spawned, recorded or claimed.\<close>

theorem dispatch_rejects:
  assumes "gate json D dl = Inl l"
  shows "dispatch json an D dl = (D, Finished (Termed (an_term an)), [Log l, Term_Sent (an_term an)])"
  using assms by (simp add: dispatch_def enter_def eval_nat_numeral)

theorem dispatch_rejects_witness:
  "dispatch demo_json demo_answers (busy_dispatcher 1 {}) (demo_delivery\<lparr>dl_raw := ''x''\<rparr>) =
     (busy_dispatcher 1 {}, Finished (Termed True),
      [Log (Invalid_Event (Bad_Envelope (InvalidEnvelope UnparseableJson))), Term_Sent True])"
proof -
  have "gate demo_json (busy_dispatcher 1 {}) (demo_delivery\<lparr>dl_raw := ''x''\<rparr>) =
      Inl (Invalid_Event (Bad_Envelope (InvalidEnvelope UnparseableJson)))"
    by code_simp
  from dispatch_rejects[OF this, of demo_answers] show ?thesis by simp
qed

text \<open>While every permit of the agent is taken, the delivery waits and has no effect.\<close>

theorem dispatch_waits:
  assumes "gate json D dl = Inr (e, c)" and "free_slots D (dl_agent dl) (max_concurrency c) = 0"
  shows "dispatch json an D dl =
     (run_state D dl c, Queued (run_ctx D dl e c), [Log Event_Received])"
  using assms
  by (simp add: dispatch_def enter_def eval_nat_numeral ensure_state_eq take_permit_def
      free_slots_def run_state_def run_ctx_def)

theorem dispatch_waits_witness:
  "snd (snd (dispatch demo_json demo_answers (busy_dispatcher 0 {}) demo_delivery)) = [Log Event_Received]"
  using dispatch_waits[of demo_json "busy_dispatcher 0 {}" demo_delivery demo_envelope demo_config demo_answers]
  by (simp add: busy_facts)

text \<open>An event that is already completed is acknowledged and never spawned again.\<close>

theorem dispatch_dedup_hit:
  assumes "gate json D dl = Inr (e, c)" and "wf_states D"
    and "0 < free_slots D (dl_agent dl) (max_concurrency c)" and "dedup_hit_for an D dl e"
  shows "dispatch json an D dl =
     (run_state D dl c, Finished (Acked (an_ack an)), [Log Event_Received, Log Dedup_Hit] @ ack_effects an)"
proof -
  let ?cx = "run_ctx D dl e c"
  from run_admitted[OF assms(1-3), of an] obtain P where P:
    "dp_dedup P = dp_dedup D" "drop_permit (cx_permits ?cx) P = run_state D dl c"
    "dispatch json an D dl = (let (D', p', es) = run_task 7 json an P dl (Admitted ?cx)
        in (D', p', Log Event_Received # es))" by blast
  from P(1) assms(4) have "advance json an P dl (Admitted ?cx) = Some (P, Hit_Acking ?cx, [Log Dedup_Hit])"
    by (simp add: check_completed_eq dedup_hit_for_def)
  from run_task_Some[OF this, of 6] P(2,3) show ?thesis
    by (simp add: eval_nat_numeral ack_delivery_def ack_effects_def)
qed

theorem dispatch_dedup_hit_witness:
  "snd (snd (dispatch demo_json demo_answers ((busy_dispatcher 1 {})\<lparr>dp_dedup := [((''a'', ''e''), 3)]\<rparr>)
      demo_delivery)) = [Log Event_Received, Log Dedup_Hit, Ack_Sent True, Log Ack_Success]"
proof -
  let ?D = "(busy_dispatcher 1 {})\<lparr>dp_dedup := [((''a'', ''e''), 3)]\<rparr>"
  have "gate demo_json ?D demo_delivery = Inr (demo_envelope, demo_config)"
    "wf_states ?D" "0 < free_slots ?D (dl_agent demo_delivery) (max_concurrency demo_config)"
    by (simp_all add: busy_dispatcher_def demo_dispatcher_def dispatcher_new_def demo_gate_ok demo_config_def
        wf_states_def free_slots_def settled_def permits_of_def ensure_state_def)
  moreover have "dedup_hit_for demo_answers ?D demo_delivery demo_envelope"
    by (simp add: dedup_hit_for_def completed_set_def)
  ultimately show ?thesis
    using dispatch_dedup_hit[of demo_json ?D demo_delivery demo_envelope demo_config demo_answers]
    by (simp add: ack_effects_def)
qed

text \<open>A second copy of an event that is in flight is dropped without ack or term.\<close>

theorem dispatch_in_flight_drop:
  assumes "gate json D dl = Inr (e, c)" and "wf_states D"
    and "0 < free_slots D (dl_agent dl) (max_concurrency c)" and "\<not> dedup_hit_for an D dl e"
    and "ev_event_id e \<in> events_in_flight D (dl_agent dl)"
  shows "dispatch json an D dl =
     (run_state D dl c, Finished Dropped,
      Log Event_Received # lookup_log an dl @ [Log In_Flight_Duplicate_Dropped])"
proof -
  let ?cx = "run_ctx D dl e c"
  from run_admitted[OF assms(1-3), of an] obtain P where P:
    "dp_states P = dp_states (run_state D dl c)"
    "dp_dedup P = dp_dedup D" "drop_permit (cx_permits ?cx) P = run_state D dl c"
    "dispatch json an D dl = (let (D', p', es) = run_task 7 json an P dl (Admitted ?cx)
        in (D', p', Log Event_Received # es))" by blast
  from claim_settled[OF P(1) refl] assms(5) have
    "advance json an P dl (Missed ?cx) =
       Some (drop_permit (cx_permits ?cx) P, Finished Dropped, [Log In_Flight_Duplicate_Dropped])"
    by simp
  from run_task_Some[OF this, of 5] run_missed[OF P(2), of an dl ?cx json] assms(4) P(3,4)
  show ?thesis by simp
qed

theorem dispatch_in_flight_drop_witness:
  "snd (snd (dispatch demo_json demo_answers (busy_dispatcher 1 {''e''}) demo_delivery)) =
     [Log Event_Received, Log In_Flight_Duplicate_Dropped]"
  using dispatch_in_flight_drop[of demo_json "busy_dispatcher 1 {''e''}" demo_delivery demo_envelope
      demo_config demo_answers]
  by (simp add: busy_facts dedup_hit_for_def completed_set_def lookup_log_def)

text \<open>A claim, and what leaving the in-flight set gives back.\<close>

lemma claimed_state:
  assumes "dp_states P = dp_states (run_state D dl c)" and "cx = run_ctx D dl e c"
    and "event_of cx \<notin> events_in_flight D (dl_agent dl)"
  obtains C where
    "advance json an P dl (Missed cx) = Some (C, Claimed cx, [])"
    "dp_dedup C = dp_dedup P" "dp_slow_handler_warn C = dp_slow_handler_warn P"
    "remove_in_flight (dl_agent dl) (event_of cx) C = P"
    "\<And>s. remove_in_flight (dl_agent dl) (event_of cx) (C\<lparr>dp_dedup := s\<rparr>) = P\<lparr>dp_dedup := s\<rparr>"
proof -
  let ?sts = "AList.update (dl_agent dl)
     \<lparr>st_permits = cx_permits cx,
      st_in_flight = insert (event_of cx) (events_in_flight D (dl_agent dl))\<rparr>
     (dp_states (run_state D dl c))"
  let ?C = "P\<lparr>dp_states := ?sts\<rparr>"
  from claim_settled[OF assms(1) refl, of e] assms(2,3)
  have "advance json an P dl (Missed cx) = Some (?C, Claimed cx, [])" by simp
  moreover from remove_claimed[of ?C, OF _ run_state_state[of D dl c e]] assms
  have "remove_in_flight (dl_agent dl) (event_of cx) ?C = P" by simp
  moreover from remove_claimed[of "?C\<lparr>dp_dedup := s\<rparr>" for s, OF _ run_state_state[of D dl c e]] assms
  have "remove_in_flight (dl_agent dl) (event_of cx) (?C\<lparr>dp_dedup := s\<rparr>) = P\<lparr>dp_dedup := s\<rparr>" for s
    by simp
  ultimately show thesis using that[of ?C] by simp
qed

text \<open>
  C24. A handler that cannot be spawned: the delivery is terminated, the event is not recorded as
  completed and leaves the in-flight set.
\<close>

theorem dispatch_spawn_failure:
  assumes "gate json D dl = Inr (e, c)" and "wf_states D"
    and "0 < free_slots D (dl_agent dl) (max_concurrency c)" and "\<not> dedup_hit_for an D dl e"
    and "ev_event_id e \<notin> events_in_flight D (dl_agent dl)" and "an_spawn an = None"
  shows "dispatch json an D dl =
     (run_state D dl c, Finished (Termed (an_term an)),
      Log Event_Received # lookup_log an dl @
      [Log (Handler_Spawn_Failed (handler c)), Term_Sent (an_term an)])"
proof -
  let ?cx = "run_ctx D dl e c"
  from run_admitted[OF assms(1-3), of an] obtain P where P:
    "dp_states P = dp_states (run_state D dl c)"
    "dp_dedup P = dp_dedup D" "drop_permit (cx_permits ?cx) P = run_state D dl c"
    "dispatch json an D dl = (let (D', p', es) = run_task 7 json an P dl (Admitted ?cx)
        in (D', p', Log Event_Received # es))" by blast
  from claimed_state[OF P(1) refl] assms(5) obtain C where
    C: "advance json an P dl (Missed ?cx) = Some (C, Claimed ?cx, [])"
    and rem: "remove_in_flight (dl_agent dl) (ev_event_id e) C = P"
    by (metis run_ctx_sel(1))
  have "run_task 5 json an C dl (Claimed ?cx) =
      (run_state D dl c, Finished (Termed (an_term an)),
       [Log (Handler_Spawn_Failed (handler c)), Term_Sent (an_term an)])"
    using assms(6) rem P(3) by (simp add: eval_nat_numeral spawn_handler_def)
  with run_task_Some[OF C, of 5] run_missed[OF P(2), of an dl ?cx json] assms(4) P(4)
  show ?thesis by simp
qed

theorem dispatch_spawn_failure_witness:
  "snd (snd (dispatch demo_json (demo_answers\<lparr>an_spawn := None\<rparr>) (busy_dispatcher 1 {}) demo_delivery)) =
     [Log Event_Received, Log (Handler_Spawn_Failed ''/h''), Term_Sent True]"
  using dispatch_spawn_failure[of demo_json "busy_dispatcher 1 {}" demo_delivery demo_envelope
      demo_config "demo_answers\<lparr>an_spawn := None\<rparr>"]
  by (simp add: busy_facts dedup_hit_for_def completed_set_def lookup_log_def demo_config_def)

text \<open>What a handler that ran logs when it exits.\<close>

definition exit_log :: "answers \<Rightarrow> dispatcher \<Rightarrow> delivery \<Rightarrow> effect list" where
  "exit_log an D dl =
     (let duration_ms = of_nat (an_elapsed_ns an div 1000000) in
      (case an_wait an of
         Some st \<Rightarrow> [Log (Handler_Exited (exit_status_of st) duration_ms)]
       | None \<Rightarrow> [Log (Wait_Failed (dl_agent dl)), Log (Handler_Exited (- 1) duration_ms)]) @
      (if unat (dp_slow_handler_warn D) * 1000000000 < an_elapsed_again_ns an
       then [Log (Slow_Handler (dl_agent dl) duration_ms)] else []))"

definition mark_log :: "answers \<Rightarrow> delivery \<Rightarrow> effect list" where
  "mark_log an dl = (if an_dedup_mark an then [] else [Log (Dedup_Mark_Failed (dl_agent dl))])"

lemma record_completion_eq:
  "record_completion an D dl cx =
     (D\<lparr>dp_dedup := snd (mark_completed (an_dedup_mark an) (an_now an) (dp_dedup D) (dl_agent dl) (event_of cx))\<rparr>,
      Recorded cx, mark_log an dl)"
  by (simp add: record_completion_def mark_completed_def mark_log_def)

text \<open>
  C23. A handler that is spawned: whatever its exit status and whatever the dedup store answers, the
  completion is recorded before the delivery is acknowledged, and nothing else of the state changes.
\<close>

theorem dispatch_success:
  assumes "gate json D dl = Inr (e, c)" and "wf_states D"
    and "0 < free_slots D (dl_agent dl) (max_concurrency c)" and "\<not> dedup_hit_for an D dl e"
    and "ev_event_id e \<notin> events_in_flight D (dl_agent dl)" and "an_spawn an = Some pid"
  shows "dispatch json an D dl =
     ((run_state D dl c)\<lparr>dp_dedup :=
         snd (mark_completed (an_dedup_mark an) (an_now an) (dp_dedup D) (dl_agent dl) (ev_event_id e))\<rparr>,
      Finished (Acked (an_ack an)),
      Log Event_Received # lookup_log an dl @
      [Spawn (handler_command dl (run_ctx D dl e c)), Log (Handler_Spawned (handler c) pid)] @
      exit_log an D dl @ mark_log an dl @ ack_effects an)"
proof -
  let ?cx = "run_ctx D dl e c"
  from run_admitted[OF assms(1-3), of an] obtain P where P:
    "dp_states P = dp_states (run_state D dl c)" "dp_dedup P = dp_dedup D"
    "dp_slow_handler_warn P = dp_slow_handler_warn D"
    "drop_permit (cx_permits ?cx) P = run_state D dl c"
    "dispatch json an D dl = (let (D', p', es) = run_task 7 json an P dl (Admitted ?cx)
        in (D', p', Log Event_Received # es))" by blast
  from claimed_state[OF P(1) refl] assms(5) obtain C where
    C: "advance json an P dl (Missed ?cx) = Some (C, Claimed ?cx, [])" "dp_dedup C = dp_dedup P"
      "dp_slow_handler_warn C = dp_slow_handler_warn P"
    and rem: "\<And>s. remove_in_flight (dl_agent dl) (ev_event_id e) (C\<lparr>dp_dedup := s\<rparr>) = P\<lparr>dp_dedup := s\<rparr>"
    by (metis run_ctx_sel(1))
  have reap: "reap an C dl ?cx = (C, Exited ?cx, exit_log an D dl)"
    using C(3) P(3) by (simp add: reap_def exit_log_def Let_def)
  have "run_task 5 json an C dl (Claimed ?cx) =
      ((drop_permit (cx_permits ?cx) P)\<lparr>dp_dedup :=
         snd (mark_completed (an_dedup_mark an) (an_now an) (dp_dedup D) (dl_agent dl) (ev_event_id e))\<rparr>,
       Finished (Acked (an_ack an)),
       [Spawn (handler_command dl ?cx), Log (Handler_Spawned (handler c) pid)] @
       exit_log an D dl @ mark_log an dl @ ack_effects an)"
    using assms(6) rem reap C(2) P(2)
    by (simp add: eval_nat_numeral spawn_handler_def record_completion_eq ack_delivery_def
        ack_effects_def drop_permit_commute)
  with run_task_Some[OF C(1), of 5] run_missed[OF P(2), of an dl ?cx json] assms(4) P(4,5)
  show ?thesis by simp
qed

theorem dispatch_success_witness:
  "dp_dedup (fst (dispatch demo_json demo_answers (busy_dispatcher 1 {}) demo_delivery)) =
     [((''a'', ''e''), 1000)]"
  using dispatch_success[of demo_json "busy_dispatcher 1 {}" demo_delivery demo_envelope
      demo_config demo_answers 42]
  by (simp add: busy_facts dedup_hit_for_def completed_set_def mark_completed_def)

end
