(* ===== verification/Dispatch_System.thy ===== *)
theory Dispatch_System
  imports Dispatch_Runs Systems
begin

text \<open>
  All dispatch tasks of a running daemon, interleaved.  A task moves from one point of \<open>dispatch\<close> to
  the next (\<open>advance\<close>); between two such sections the relay may hand over another delivery, a pull
  loop may ask for free slots, and the control plane may change the registry and, as a separate step
  of its own, have the dispatcher forget the states of the agents it changed.

  \<open>A\<close> is a set of agents the control plane leaves alone while the system runs, \<open>Ok\<close> the answers of the
  environment that occur: what follows is stated for the agents in \<open>A\<close>, with \<open>A = UNIV\<close> a daemon that is not
  reconfigured and \<open>A = {}\<close> one that is reconfigured at will.
\<close>

section \<open>States and steps\<close>

record dsys =
  sys_disp :: dispatcher
  sys_tasks :: "(delivery \<times> pc) list"
  sys_log :: "(nat \<times> effect) list"

text \<open>What the registry guarantees of the registrations it hands out (\<open>registry_ok\<close>).\<close>

definition sound_registry :: "registry \<Rightarrow> bool" where
  "sound_registry r = (\<forall>a c. get r a = Some c \<longrightarrow> agent_id c = a \<and> valid_config c)"

lemma registry_ok_sound: "registry_ok tc r \<Longrightarrow> sound_registry r"
  by (auto simp: sound_registry_def registry_ok_def dest: get_id)

definition sys_init :: "dsys \<Rightarrow> bool" where
  "sys_init s =
     (sound_registry (dp_registry (sys_disp s)) \<and> dp_states (sys_disp s) = [] \<and> dp_sems (sys_disp s) = [] \<and>
      sys_tasks s = [] \<and> sys_log s = [])"

lemma dispatcher_new_init:
  "sound_registry r \<Longrightarrow>
     sys_init \<lparr>sys_disp = dispatcher_new r d slow maxb, sys_tasks = [], sys_log = []\<rparr>"
  by (simp add: sys_init_def dispatcher_new_def)

inductive task_step :: "(string \<Rightarrow> sval option) \<Rightarrow> (answers \<Rightarrow> bool) \<Rightarrow> dsys \<Rightarrow> dsys \<Rightarrow> bool"
  for json :: "string \<Rightarrow> sval option" and Ok :: "answers \<Rightarrow> bool" where
  task_stepI: "i < length (sys_tasks s) \<Longrightarrow> sys_tasks s ! i = (dl, p) \<Longrightarrow> Ok an \<Longrightarrow>
     advance json an (sys_disp s) dl p = Some (D', p', es) \<Longrightarrow>
     task_step json Ok s
       (s\<lparr>sys_disp := D', sys_tasks := (sys_tasks s)[i := (dl, p')],
          sys_log := sys_log s @ map (Pair i) es\<rparr>)"

inductive sys_step :: "(string \<Rightarrow> sval option) \<Rightarrow> (answers \<Rightarrow> bool) \<Rightarrow> agent_id set \<Rightarrow> dsys \<Rightarrow> dsys \<Rightarrow> bool"
  for json :: "string \<Rightarrow> sval option" and Ok :: "answers \<Rightarrow> bool" and A :: "agent_id set" where
  work: "task_step json Ok s s' \<Longrightarrow> sys_step json Ok A s s'"
| arrive: "sys_step json Ok A s (s\<lparr>sys_tasks := sys_tasks s @ [(dl, Entered)]\<rparr>)"
| poll: "sys_step json Ok A s (s\<lparr>sys_disp := snd (available a (sys_disp s))\<rparr>)"
| reconfigure: "sound_registry r \<Longrightarrow> \<forall>a \<in> A. get r a = get (dp_registry (sys_disp s)) a \<Longrightarrow>
     sys_step json Ok A s (s\<lparr>sys_disp := (sys_disp s)\<lparr>dp_registry := r\<rparr>\<rparr>)"
| forget: "\<forall>c \<in> set cs. change_agent_id c \<notin> A \<Longrightarrow>
     sys_step json Ok A s (s\<lparr>sys_disp := dispatcher_apply_changes cs (sys_disp s)\<rparr>)"

inductive_cases task_stepE: "task_step json Ok s s'"
inductive_cases sys_stepE: "sys_step json Ok A s s'"

text \<open>Answers that occur fewer allow fewer steps.\<close>

lemma task_step_mono:
  "task_step json Ok s s' \<Longrightarrow> (\<And>an. Ok an \<Longrightarrow> Ok' an) \<Longrightarrow> task_step json Ok' s s'"
  by (erule task_stepE) (auto intro: task_stepI)

lemma sys_step_mono:
  assumes "sys_step json Ok A s s'" and "\<And>an. Ok an \<Longrightarrow> Ok' an"
  shows "sys_step json Ok' A s s'"
  using assms(1) by (rule sys_stepE) (auto intro: sys_step.intros task_step_mono[OF _ assms(2)])

lemma sys_steps_mono:
  assumes "(sys_step json Ok A)\<^sup>*\<^sup>* s s'" and "\<And>an. Ok an \<Longrightarrow> Ok' an"
  shows "(sys_step json Ok' A)\<^sup>*\<^sup>* s s'"
  using assms(1)
  by (induction rule: rtranclp_induct) (auto intro: sys_step_mono[OF _ assms(2)] rtranclp.rtrancl_into_rtrancl)

abbreviation sys_reachable ::
    "(string \<Rightarrow> sval option) \<Rightarrow> (answers \<Rightarrow> bool) \<Rightarrow> agent_id set \<Rightarrow> dsys \<Rightarrow> bool" where
  "sys_reachable json Ok A \<equiv> reachable sys_init (sys_step json Ok A)"

section \<open>What a task holds\<close>

text \<open>The context of a task past the gate, its semaphore, and its entry of the in-flight set.\<close>

fun ctx_of :: "pc \<Rightarrow> dispatch_ctx option" where
  "ctx_of (Queued cx) = Some cx"
| "ctx_of (Admitted cx) = Some cx"
| "ctx_of (Hit_Acking cx) = Some cx"
| "ctx_of (Missed cx) = Some cx"
| "ctx_of (Claimed cx) = Some cx"
| "ctx_of (Spawn_Failed cx) = Some cx"
| "ctx_of (Terminating cx) = Some cx"
| "ctx_of (Running cx pid) = Some cx"
| "ctx_of (Exited cx) = Some cx"
| "ctx_of (Recorded cx) = Some cx"
| "ctx_of (Acking cx) = Some cx"
| "ctx_of p = None"

fun queued :: "pc \<Rightarrow> bool" where
  "queued (Queued cx) = True"
| "queued p = False"

definition holds :: "pc \<Rightarrow> nat option" where
  "holds p = (if queued p then None else map_option cx_permits (ctx_of p))"

fun claims :: "pc \<Rightarrow> dispatch_ctx option" where
  "claims (Claimed cx) = Some cx"
| "claims (Spawn_Failed cx) = Some cx"
| "claims (Running cx pid) = Some cx"
| "claims (Exited cx) = Some cx"
| "claims (Recorded cx) = Some cx"
| "claims p = None"

fun config_of :: "pc \<Rightarrow> agent_config option" where
  "config_of (Gated e c) = Some c"
| "config_of p = map_option cx_config (ctx_of p)"

lemma holds_ctx: "holds p = Some k \<Longrightarrow> \<exists>cx. ctx_of p = Some cx \<and> cx_permits cx = k"
  by (auto simp: holds_def split: if_splits)

lemma claims_ctx: "claims p = Some cx \<Longrightarrow> ctx_of p = Some cx \<and> holds p = Some (cx_permits cx)"
  by (cases p) (auto simp: holds_def)

section \<open>Permits\<close>

definition permit_inv :: "dsys \<Rightarrow> bool" where
  "permit_inv s =
     (sound_registry (dp_registry (sys_disp s)) \<and> wf_states (sys_disp s) \<and>
      (\<forall>k < length (dp_sems (sys_disp s)).
         0 < sem_capacity (dp_sems (sys_disp s) ! k) \<and>
         sem_available (dp_sems (sys_disp s) ! k) + count_where (\<lambda>(dl, p). holds p = Some k) (sys_tasks s) =
           sem_capacity (dp_sems (sys_disp s) ! k)) \<and>
      (\<forall>(dl, p) \<in> set (sys_tasks s).
         (\<forall>cx. ctx_of p = Some cx \<longrightarrow> cx_permits cx < length (dp_sems (sys_disp s))) \<and>
         (\<forall>c. config_of p = Some c \<longrightarrow> max_concurrency c \<noteq> 0)))"

text \<open>What one section does to the semaphores, seen from outside.\<close>

definition sems_moved :: "semaphore list \<Rightarrow> nat option \<Rightarrow> semaphore list \<Rightarrow> nat option \<Rightarrow> bool" where
  "sems_moved S h S' h' =
     (length S \<le> length S' \<and>
      (\<forall>k < length S. sem_capacity (S' ! k) = sem_capacity (S ! k) \<and>
         sem_available (S' ! k) + (if h' = Some k then 1 else 0) =
         sem_available (S ! k) + (if h = Some k then 1 else 0)) \<and>
      (\<forall>k < length S'. length S \<le> k \<longrightarrow> h' \<noteq> Some k \<and> 0 < sem_capacity (S' ! k) \<and>
         sem_available (S' ! k) = sem_capacity (S' ! k)))"

lemma sems_moved_old:
  "sems_moved S h S' h' \<Longrightarrow> k < length S \<Longrightarrow>
     sem_capacity (S' ! k) = sem_capacity (S ! k) \<and>
     sem_available (S' ! k) + (if h' = Some k then 1 else 0) =
       sem_available (S ! k) + (if h = Some k then 1 else 0)"
  by (simp add: sems_moved_def)

lemma sems_moved_new:
  "sems_moved S h S' h' \<Longrightarrow> length S \<le> k \<Longrightarrow> k < length S' \<Longrightarrow>
     h' \<noteq> Some k \<and> 0 < sem_capacity (S' ! k) \<and> sem_available (S' ! k) = sem_capacity (S' ! k)"
  by (simp add: sems_moved_def)

lemma sems_same: "sems_moved S h S h"
  by (simp add: sems_moved_def)

lemma ensure_state_moved:
  "ensure_state a mc D = (k, D') \<Longrightarrow> mc \<noteq> 0 \<Longrightarrow> sems_moved (dp_sems D) None (dp_sems D') None"
  by (auto simp: ensure_state_def Let_def sems_moved_def nth_append unat_gt_0 less_Suc_eq
      split: option.splits)

lemma take_permit_moved:
  "take_permit k D = Some D' \<Longrightarrow> sems_moved (dp_sems D) None (dp_sems D') (Some k)"
  by (auto simp: take_permit_def sems_moved_def nth_list_update split: if_splits)

lemma drop_permit_moved:
  "k < length (dp_sems D) \<Longrightarrow> sems_moved (dp_sems D) (Some k) (dp_sems (drop_permit k D)) None"
  by (auto simp: drop_permit_def sems_moved_def nth_list_update)

lemma remove_in_flight_sems [simp]:
  "dp_sems (remove_in_flight a e D) = dp_sems D" "dp_registry (remove_in_flight a e D) = dp_registry D"
  "dp_dedup (remove_in_flight a e D) = dp_dedup D"
  by (auto simp: remove_in_flight_def split: option.splits)

lemma drop_permit_sel [simp]:
  "dp_registry (drop_permit k D) = dp_registry D" "dp_dedup (drop_permit k D) = dp_dedup D"
  "dp_states (drop_permit k D) = dp_states D"
  by (simp_all add: drop_permit_def)

lemma take_permit_sel:
  "take_permit k D = Some D' \<Longrightarrow>
     dp_registry D' = dp_registry D \<and> dp_dedup D' = dp_dedup D \<and> dp_states D' = dp_states D"
  by (auto simp: take_permit_def split: if_splits)

lemma ensure_state_sel:
  "ensure_state a mc D = (k, D') \<Longrightarrow> dp_registry D' = dp_registry D \<and> dp_dedup D' = dp_dedup D"
  by (auto simp: ensure_state_def Let_def split: option.splits)

lemma record_sel:
  "record_completion an D dl cx = (D', p', es) \<Longrightarrow>
     dp_registry D' = dp_registry D \<and> dp_states D' = dp_states D \<and> dp_sems D' = dp_sems D"
  by (auto simp: record_completion_eq)

lemma advance_registry: "advance json an D dl p = Some (D', p', es) \<Longrightarrow> dp_registry D' = dp_registry D"
  by (cases p)
    (auto simp: section_defs record_completion_eq[unfolded section_defs]
      dest: ensure_state_sel take_permit_sel split: sum.splits prod.splits option.splits if_splits bool.splits)

lemma drop_permit_other:
  "drop_permit k (D\<lparr>dp_states := x\<rparr>) = (drop_permit k D)\<lparr>dp_states := x\<rparr>"
  by (simp add: drop_permit_def)

lemma advance_sems:
  assumes "advance json an D dl p = Some (D', p', es)"
    and "\<forall>cx. ctx_of p = Some cx \<longrightarrow> cx_permits cx < length (dp_sems D)"
    and "\<forall>c. config_of p = Some c \<longrightarrow> max_concurrency c \<noteq> 0"
  shows "sems_moved (dp_sems D) (holds p) (dp_sems D') (holds p')"
  using assms
proof (cases p)
  case (Gated e c)
  with assms show ?thesis by (auto simp: holds_def dest: ensure_state_moved split: prod.splits)
next
  case (Queued cx)
  with assms show ?thesis by (auto simp: holds_def dest: take_permit_moved)
next
  case (Missed cx)
  with assms drop_permit_moved[of "cx_permits cx" D] sems_same[of "dp_sems D" "Some (cx_permits cx)"]
  show ?thesis by (auto simp: holds_def claim_def Let_def drop_permit_other split: if_splits)
next
  case (Exited cx)
  with assms show ?thesis by (auto simp: holds_def record_completion_eq sems_same)
next
  case (Hit_Acking cx)
  with assms show ?thesis by (auto simp: holds_def ack_delivery_def drop_permit_moved)
next
  case (Acking cx)
  with assms show ?thesis by (auto simp: holds_def ack_delivery_def drop_permit_moved)
next
  case (Terminating cx)
  with assms show ?thesis by (auto simp: holds_def drop_permit_moved)
qed (auto simp: holds_def sems_same enter_def check_completed_eq spawn_handler_def reap_def Let_def
    split: sum.splits prod.splits option.splits if_splits)

lemma ctx_step:
  assumes "advance json an D dl p = Some (D', p', es)" and "ctx_of p' = Some cx"
  shows "ctx_of p = Some cx \<or>
     (\<exists>e c. p = Gated e c \<and> p' = Queued cx \<and> cx_envelope cx = e \<and> cx_config cx = c \<and>
        ensure_state (dl_agent dl) (max_concurrency c) D = (cx_permits cx, D'))"
  using assms
  by (cases p)
    (auto simp: section_defs record_completion_eq[unfolded section_defs]
      split: sum.splits prod.splits option.splits if_splits bool.splits)

lemma config_step:
  assumes "advance json an D dl p = Some (D', p', es)" and "config_of p' = Some c"
  shows "config_of p = Some c \<or>
     (\<exists>e. p = Entered \<and> p' = Gated e c \<and> gate json D dl = Inr (e, c))"
  using assms
  by (cases p)
    (auto simp: section_defs record_completion_eq[unfolded section_defs]
      split: sum.splits prod.splits option.splits if_splits bool.splits)

text \<open>How a section changes the states of the agents.\<close>

lemma states_step:
  assumes "advance json an D dl p = Some (D', p', es)"
  shows "(\<exists>e c k. p = Gated e c \<and> ensure_state (dl_agent dl) (max_concurrency c) D = (k, D')) \<or>
     (\<exists>cx. p = Missed cx \<and> dp_states D' = dp_states (fst (claim D dl cx))) \<or>
     (\<exists>cx. (p = Spawn_Failed cx \<or> p = Recorded cx) \<and>
        D' = remove_in_flight (dl_agent dl) (event_of cx) D) \<or>
     (dp_states D' = dp_states D \<and> claims p' = claims p)"
  using assms
  by (cases p)
    (auto simp: section_defs record_completion_eq[unfolded section_defs]
      dest: take_permit_sel split: sum.splits prod.splits option.splits if_splits bool.splits)

definition permits_map :: "dispatcher \<Rightarrow> agent_id \<Rightarrow> nat option" where
  "permits_map D a = map_option st_permits (map_of (dp_states D) a)"

lemma wf_states_alt: "wf_states D \<longleftrightarrow> (\<forall>a k. permits_map D a = Some k \<longrightarrow> k < length (dp_sems D))"
  by (auto simp: wf_states_def permits_map_def)

lemma permits_map_ensure:
  "ensure_state a mc D = (k, D') \<Longrightarrow> permits_map D' = (permits_map D)(a \<mapsto> k)"
  by (auto simp: permits_map_def ensure_state_def Let_def fun_eq_iff split: option.splits)

lemma permits_map_claim:
  "permits_map (fst (claim D dl cx)) =
     (case permits_map D (dl_agent dl) of
        Some k \<Rightarrow> permits_map D | None \<Rightarrow> (permits_map D)(dl_agent dl \<mapsto> cx_permits cx))"
  by (auto simp: permits_map_def claim_def Let_def fun_eq_iff split: option.splits)

lemma permits_map_remove [simp]: "permits_map (remove_in_flight a e D) = permits_map D"
  by (auto simp: permits_map_def remove_in_flight_def fun_eq_iff split: option.splits)

lemma permits_map_cong: "dp_states D' = dp_states D \<Longrightarrow> permits_map D' = permits_map D"
  by (simp add: permits_map_def fun_eq_iff)

lemma ensure_state_bound: "wf_states D \<Longrightarrow> ensure_state a mc D = (k, D') \<Longrightarrow> k < length (dp_sems D')"
  using permits_of_bound[of D a mc] by (simp add: permits_of_def settled_def)

lemma wf_states_advance:
  assumes "advance json an D dl p = Some (D', p', es)" and "wf_states D"
    and "\<forall>cx. ctx_of p = Some cx \<longrightarrow> cx_permits cx < length (dp_sems D)"
    and "\<forall>c. config_of p = Some c \<longrightarrow> max_concurrency c \<noteq> 0"
  shows "wf_states D'"
proof -
  from advance_sems[OF assms(1,3,4)] have len: "length (dp_sems D) \<le> length (dp_sems D')"
    by (simp add: sems_moved_def)
  from states_step[OF assms(1)] show ?thesis
  proof (elim disjE exE conjE)
    fix e c k assume "p = Gated e c" and e: "ensure_state (dl_agent dl) (max_concurrency c) D = (k, D')"
    from ensure_state_bound[OF assms(2) e] assms(2) len show ?thesis
      by (auto simp: wf_states_alt permits_map_ensure[OF e] split: if_splits intro: less_le_trans)
  next
    fix cx assume "p = Missed cx" and st: "dp_states D' = dp_states (fst (claim D dl cx))"
    with assms(2,3) len show ?thesis
      by (auto simp: wf_states_alt permits_map_cong[OF st] permits_map_claim
          split: if_splits option.splits intro: less_le_trans)
  next
    assume "dp_states D' = dp_states D"
    from assms(2) len show ?thesis
      by (auto simp: wf_states_alt permits_map_cong[OF \<open>dp_states D' = dp_states D\<close>] intro: less_le_trans)
  qed (use assms(2) in \<open>auto simp: wf_states_alt\<close>)
qed

text \<open>Steps that touch no task: a delivery arrives, a poll, a reconfiguration.\<close>

lemma permits_map_forget:
  "permits_map (dispatcher_apply_changes cs D) a =
     (if a \<in> change_agent_id ` set cs then None else permits_map D a)"
proof -
  have "map_of (remove_states cs sts) a = (if a \<in> change_agent_id ` set cs then None else map_of sts a)" for sts
    by (induction cs arbitrary: sts) auto
  then show ?thesis by (simp add: permits_map_def dispatcher_apply_changes_def)
qed

lemma available_step:
  assumes "sound_registry (dp_registry D)"
  obtains "snd (available a D) = D"
  | mc k where "ensure_state a mc D = (k, snd (available a D))" "mc \<noteq> 0"
      "\<exists>c. get (dp_registry D) a = Some c \<and> mc = max_concurrency c"
proof (cases "get (dp_registry D) a")
  case None
  then show thesis using that(1) by (simp add: available_def)
next
  case (Some c)
  then have mc: "max_concurrency c \<noteq> 0"
    using assms by (auto simp: sound_registry_def valid_config_def agent_config_validate_ok)
  show thesis
  proof (cases "enabled c")
    case True
    from available_settled[OF Some True] Some mc show thesis
      by (intro that(2)[of "max_concurrency c"]) (auto simp: ensure_state_eq)
  next
    case False
    with Some that(1) show thesis by (simp add: available_def)
  qed
qed

lemma gate_sound:
  "sound_registry (dp_registry D) \<Longrightarrow> gate json D dl = Inr (e, c) \<Longrightarrow> max_concurrency c \<noteq> 0"
  by (auto simp: gate_ok_iff sound_registry_def valid_config_def agent_config_validate_ok)

lemma permit_inv_work:
  assumes "task_step json Ok s s'" and inv: "permit_inv s"
  shows "permit_inv s'"
proof -
  from assms(1) obtain i dl p an D' p' es where s': "s' = s\<lparr>sys_disp := D',
      sys_tasks := (sys_tasks s)[i := (dl, p')], sys_log := sys_log s @ map (Pair i) es\<rparr>"
    and i: "i < length (sys_tasks s)" "sys_tasks s ! i = (dl, p)"
    and adv: "advance json an (sys_disp s) dl p = Some (D', p', es)"
    by (rule task_stepE)
  let ?S = "dp_sems (sys_disp s)" and ?S' = "dp_sems D'"
  have mem: "(dl, p) \<in> set (sys_tasks s)" using i by (metis nth_mem)
  have ctx: "\<forall>cx. ctx_of p = Some cx \<longrightarrow> cx_permits cx < length ?S"
    and cfg: "\<forall>c. config_of p = Some c \<longrightarrow> max_concurrency c \<noteq> 0"
    using inv mem by (auto simp: permit_inv_def)
  from advance_sems[OF adv ctx cfg] have moved: "sems_moved ?S (holds p) ?S' (holds p')" .
  then have len: "length ?S \<le> length ?S'" by (simp add: sems_moved_def)
  have wf: "wf_states (sys_disp s)" using inv by (simp add: permit_inv_def)
  have count: "count_where (\<lambda>(dl, p). holds p = Some k) ((sys_tasks s)[i := (dl, p')]) +
      (if holds p = Some k then 1 else 0) =
      count_where (\<lambda>(dl, p). holds p = Some k) (sys_tasks s) + (if holds p' = Some k then 1 else 0)" for k
    using count_where_update[OF i(1), of "\<lambda>(dl, p). holds p = Some k" "(dl, p')"] i(2) by simp
  have new: "count_where (\<lambda>(dl, p). holds p = Some k) (sys_tasks s) = 0" if "length ?S \<le> k" for k
    using inv that by (force simp: permit_inv_def count_where_zero dest: holds_ctx)
  have sems: "0 < sem_capacity (?S' ! k) \<and>
      sem_available (?S' ! k) + count_where (\<lambda>(dl, p). holds p = Some k) ((sys_tasks s)[i := (dl, p')]) =
      sem_capacity (?S' ! k)" if k: "k < length ?S'" for k
  proof (cases "k < length ?S")
    case True
    with inv have "0 < sem_capacity (?S ! k)"
      "sem_available (?S ! k) + count_where (\<lambda>(dl, p). holds p = Some k) (sys_tasks s) = sem_capacity (?S ! k)"
      by (auto simp: permit_inv_def)
    with sems_moved_old[OF moved True] count[of k] show ?thesis by (auto split: if_splits)
  next
    case False
    with sems_moved_new[OF moved _ k] count[of k] new[of k] show ?thesis by auto
  qed
  have ctx': "cx_permits cx < length ?S'" if "ctx_of p' = Some cx" for cx
    using ctx_step[OF adv that] ctx len ensure_state_bound[OF wf] by (auto intro: less_le_trans)
  have cfg': "max_concurrency c \<noteq> 0" if "config_of p' = Some c" for c
    using config_step[OF adv that] cfg inv gate_sound by (auto simp: permit_inv_def)
  show ?thesis
    using inv sems ctx' cfg' len wf_states_advance[OF adv wf ctx cfg] advance_registry[OF adv]
    by (auto simp: s' permit_inv_def dest!: set_update_subset_insert[THEN subsetD] intro: less_le_trans)
qed

text \<open>The states of the agents may shrink, the semaphores may grow by fresh ones.\<close>

lemma permit_inv_grow:
  assumes inv: "permit_inv s" and moved: "sems_moved (dp_sems (sys_disp s)) None (dp_sems D') None"
    and "sound_registry (dp_registry D')" and "wf_states D'"
  shows "permit_inv (s\<lparr>sys_disp := D'\<rparr>)"
proof -
  let ?S = "dp_sems (sys_disp s)" and ?S' = "dp_sems D'"
  have len: "length ?S \<le> length ?S'" using moved by (simp add: sems_moved_def)
  have new: "count_where (\<lambda>(dl, p). holds p = Some k) (sys_tasks s) = 0" if "length ?S \<le> k" for k
    using inv that by (force simp: permit_inv_def count_where_zero dest: holds_ctx)
  have "0 < sem_capacity (?S' ! k) \<and>
      sem_available (?S' ! k) + count_where (\<lambda>(dl, p). holds p = Some k) (sys_tasks s) =
      sem_capacity (?S' ! k)" if k: "k < length ?S'" for k
  proof (cases "k < length ?S")
    case True
    with sems_moved_old[OF moved True] inv show ?thesis by (simp add: permit_inv_def)
  next
    case False
    with sems_moved_new[OF moved _ k] new[of k] show ?thesis by simp
  qed
  with assms len show ?thesis by (fastforce simp: permit_inv_def intro: less_le_trans)
qed

lemma permit_inv_init: "sys_init s \<Longrightarrow> permit_inv s"
  by (simp add: sys_init_def permit_inv_def wf_states_def)

lemma permit_inv_step:
  assumes "sys_step json Ok A s s'" and inv: "permit_inv s"
  shows "permit_inv s'"
  using assms(1)
proof (rule sys_stepE)
  assume "task_step json Ok s s'"
  then show ?thesis using inv by (rule permit_inv_work)
next
  fix dl assume "s' = s\<lparr>sys_tasks := sys_tasks s @ [(dl, Entered)]\<rparr>"
  with inv show ?thesis by (simp add: permit_inv_def holds_def)
next
  fix a assume s': "s' = s\<lparr>sys_disp := snd (available a (sys_disp s))\<rparr>"
  have sound: "sound_registry (dp_registry (sys_disp s))" and wf: "wf_states (sys_disp s)"
    using inv by (simp_all add: permit_inv_def)
  from sound show ?thesis
  proof (rule available_step[of _ a])
    assume "snd (available a (sys_disp s)) = sys_disp s"
    with inv show ?thesis by (simp add: s')
  next
    fix mc k assume e: "ensure_state a mc (sys_disp s) = (k, snd (available a (sys_disp s)))" "mc \<noteq> 0"
    from ensure_state_moved[OF e] have "length (dp_sems (sys_disp s)) \<le> length (dp_sems (snd (available a (sys_disp s))))"
      by (simp add: sems_moved_def)
    with wf ensure_state_bound[OF wf e(1)] have "wf_states (snd (available a (sys_disp s)))"
      by (auto simp: wf_states_alt permits_map_ensure[OF e(1)] intro: less_le_trans)
    with ensure_state_sel[OF e(1)] sound show ?thesis
      by (simp add: s' permit_inv_grow[OF inv ensure_state_moved[OF e]])
  qed
next
  fix r assume "s' = s\<lparr>sys_disp := (sys_disp s)\<lparr>dp_registry := r\<rparr>\<rparr>" "sound_registry r"
  with inv show ?thesis by (simp add: permit_inv_def wf_states_def)
next
  fix cs assume "s' = s\<lparr>sys_disp := dispatcher_apply_changes cs (sys_disp s)\<rparr>"
  moreover have "dp_sems (dispatcher_apply_changes cs D) = dp_sems D"
    "dp_registry (dispatcher_apply_changes cs D) = dp_registry D" for D
    by (simp_all add: dispatcher_apply_changes_def)
  ultimately show ?thesis using inv
    by (auto simp: permit_inv_def wf_states_alt permits_map_forget)
qed

interpretation permits: invariant sys_init "sys_step json Ok A" permit_inv for json Ok A
  by unfold_locales (auto intro: permit_inv_init permit_inv_step)

section \<open>Progress\<close>

definition all_done :: "dsys \<Rightarrow> bool" where
  "all_done s = (\<forall>(dl, p) \<in> set (sys_tasks s). \<exists>out. p = Finished out)"

definition work_left :: "dsys \<Rightarrow> nat" where
  "work_left s = sum_list (map (\<lambda>(dl, p). pc_rank p) (sys_tasks s))"

lemma sum_list_update_less:
  fixes f :: "'a \<Rightarrow> nat"
  assumes "i < length xs" and "f y < f (xs ! i)"
  shows "sum_list (map f (xs[i := y])) < sum_list (map f xs)"
  using assms
proof (induction xs arbitrary: i)
  case (Cons x xs)
  then show ?case by (cases i) auto
qed simp

lemma task_step_less: "task_step json Ok s s' \<Longrightarrow> work_left s' < work_left s"
  by (erule task_stepE) (auto simp: work_left_def intro!: sum_list_update_less dest: advance_rank)

text \<open>A semaphore that is exhausted is held by some task, and a task that holds a permit can go on.\<close>

lemma holder_advances: "holds p \<noteq> None \<Longrightarrow> advance json an D dl p \<noteq> None"
  by (cases p) (auto simp: holds_def)

lemma work_possible:
  assumes inv: "permit_inv s" and "\<not> all_done s" and "Ok an"
  shows "\<exists>s'. task_step json Ok s s'"
proof -
  have step: "\<exists>s'. task_step json Ok s s'"
    if "(dl, p) \<in> set (sys_tasks s)" "advance json an (sys_disp s) dl p \<noteq> None" for dl p
  proof -
    from that(1) obtain i where "i < length (sys_tasks s)" "sys_tasks s ! i = (dl, p)"
      by (auto simp: in_set_conv_nth)
    moreover from that(2) obtain D' p' es where
      "advance json an (sys_disp s) dl p = Some (D', p', es)" by auto
    ultimately show ?thesis using assms(3) by (blast intro: task_stepI)
  qed
  from assms(2) obtain dl p where p: "(dl, p) \<in> set (sys_tasks s)" "\<nexists>out. p = Finished out"
    by (auto simp: all_done_def)
  show ?thesis
  proof (cases "advance json an (sys_disp s) dl p")
    case None
    with p(2) obtain cx where cx: "p = Queued cx" "take_permit (cx_permits cx) (sys_disp s) = None"
      by (auto simp: advance_None)
    from inv p(1) cx(1) have k: "cx_permits cx < length (dp_sems (sys_disp s))"
      by (force simp: permit_inv_def)
    with cx(2) have "sem_available (dp_sems (sys_disp s) ! cx_permits cx) = 0"
      by (auto simp: take_permit_def split: if_splits)
    with inv k have "count_where (\<lambda>(dl, p). holds p = Some (cx_permits cx)) (sys_tasks s) \<noteq> 0"
      by (auto simp: permit_inv_def)
    then obtain dl' p' where "(dl', p') \<in> set (sys_tasks s)" "holds p' = Some (cx_permits cx)"
      by (auto simp: count_where_zero)
    then show ?thesis using step[of dl' p'] holder_advances[of p'] by simp
  qed (use step p(1) in auto)
qed

lemma task_progress: "Ok an \<Longrightarrow> progress (task_step json Ok) permit_inv all_done work_left"
  by unfold_locales (auto intro: permit_inv_work task_step_less work_possible)

interpretation dispatching: progress "task_step json (\<lambda>_. True)" permit_inv all_done work_left for json
  by (rule task_progress) (rule TrueI)

lemma task_steps_sys: "(task_step json Ok)\<^sup>*\<^sup>* s s' \<Longrightarrow> (sys_step json Ok A)\<^sup>*\<^sup>* s s'"
  by (induction rule: rtranclp_induct) (auto intro: work rtranclp.rtrancl_into_rtrancl)

end
