(* ===== verification/Dispatch_Schedules.thy ===== *)
theory Dispatch_Schedules
  imports Dispatch_System
begin

text \<open>
  Explicit schedules: a list of steps of the interleaved dispatcher that can be run by evaluation,
  and the reachability of the state it ends in.  They give concrete reachable states.
\<close>

section \<open>Running a schedule\<close>

datatype sched_event =
    Do nat answers
  | Deliver delivery
  | Reconfigure registry
  | Forget "change list"

fun sched_step :: "(string \<Rightarrow> sval option) \<Rightarrow> sched_event \<Rightarrow> dsys \<Rightarrow> dsys option" where
  "sched_step json (Do i an) s =
     (if i < length (sys_tasks s)
      then (case sys_tasks s ! i of (dl, p) \<Rightarrow>
              (case advance json an (sys_disp s) dl p of
                 None \<Rightarrow> None
               | Some (D', p', es) \<Rightarrow>
                   Some (s\<lparr>sys_disp := D', sys_tasks := (sys_tasks s)[i := (dl, p')],
                           sys_log := sys_log s @ map (Pair i) es\<rparr>)))
      else None)"
| "sched_step json (Deliver dl) s = Some (s\<lparr>sys_tasks := sys_tasks s @ [(dl, Entered)]\<rparr>)"
| "sched_step json (Reconfigure r) s = Some (s\<lparr>sys_disp := (sys_disp s)\<lparr>dp_registry := r\<rparr>\<rparr>)"
| "sched_step json (Forget cs) s = Some (s\<lparr>sys_disp := dispatcher_apply_changes cs (sys_disp s)\<rparr>)"

fun sched_run :: "(string \<Rightarrow> sval option) \<Rightarrow> sched_event list \<Rightarrow> dsys \<Rightarrow> dsys option" where
  "sched_run json [] s = Some s"
| "sched_run json (ev # evs) s =
     (case sched_step json ev s of None \<Rightarrow> None | Some s' \<Rightarrow> sched_run json evs s')"

fun admissible :: "(answers \<Rightarrow> bool) \<Rightarrow> agent_id set \<Rightarrow> sched_event \<Rightarrow> bool" where
  "admissible Ok A (Do i an) = Ok an"
| "admissible Ok A (Deliver dl) = True"
| "admissible Ok A (Reconfigure r) = (sound_registry r \<and> A = {})"
| "admissible Ok A (Forget cs) = (A = {})"

lemma sched_step_sys:
  "sched_step json ev s = Some s' \<Longrightarrow> admissible Ok A ev \<Longrightarrow> sys_step json Ok A s s'"
  by (cases ev)
    (auto intro: work arrive reconfigure forget task_stepI split: if_splits prod.splits option.splits)

lemma sched_run_reachable:
  "sched_run json evs s = Some s' \<Longrightarrow> \<forall>ev \<in> set evs. admissible Ok A ev \<Longrightarrow>
     sys_reachable json Ok A s \<Longrightarrow> sys_reachable json Ok A s'"
  by (induction evs arbitrary: s)
    (auto split: option.splits, blast intro: reachable_step sched_step_sys)

definition demo_system :: "agent_config \<Rightarrow> dsys" where
  "demo_system c = \<lparr>sys_disp = demo_dispatcher c, sys_tasks = [], sys_log = []\<rparr>"

lemma demo_sound:
  "agent_id c = demo_id \<Longrightarrow> max_concurrency c \<noteq> 0 \<Longrightarrow> handler c = ''/h'' \<Longrightarrow>
     working_directory c = None \<Longrightarrow> sound_registry (demo_registry c)"
  by (auto simp: sound_registry_def demo_registry_def get_def valid_config_def
      agent_config_validate_ok is_absolute_def split: if_splits) (simp_all add: demo_id_def, code_simp)

lemma demo_reachable:
  assumes "sched_run demo_json evs (demo_system c) = Some s" and "\<forall>ev \<in> set evs. admissible Ok A ev"
    and "sound_registry (demo_registry c)"
  shows "sys_reachable demo_json Ok A s"
proof -
  have "sys_init (demo_system c)"
    using assms(3) by (simp add: sys_init_def demo_system_def demo_dispatcher_def dispatcher_new_def)
  with sched_run_reachable[OF assms(1,2)] show ?thesis by (blast intro: reachable_init)
qed

abbreviation task :: "nat \<Rightarrow> nat \<Rightarrow> sched_event list" where
  "task i n \<equiv> replicate n (Do i demo_answers)"

lemma replicate_numeral: "replicate (numeral k) x = x # replicate (pred_numeral k) x"
  by (simp add: numeral_eq_Suc)

lemmas schedule_simps =
  section_defs demo_gate_ok demo_system_def demo_dispatcher_def dispatcher_new_def ensure_state_def
  is_completed_def mark_completed_def take_permit_def drop_permit_def remove_in_flight_def
  dispatcher_apply_changes_def replicate_numeral

text \<open>One delivery, \<open>n\<close> sections into its dispatch.\<close>

definition demo_run :: "nat \<Rightarrow> sched_event list" where
  "demo_run n = Deliver demo_delivery # task 0 n"

lemma demo_config_sound: "sound_registry (demo_registry demo_config)"
  by (rule demo_sound) (simp_all add: demo_config_def)

text \<open>After six sections the handler runs, after ten the delivery is acknowledged.\<close>

lemma demo_running:
  obtains s where "sched_run demo_json (demo_run 6) (demo_system demo_config) = Some s"
    "\<exists>cx. sys_tasks s = [(demo_delivery, Running cx 42)] \<and> event_of cx = ''e''"
    "get (dp_registry (sys_disp s)) demo_id = Some demo_config"
  using that by (simp add: demo_run_def schedule_simps demo_config_def)

lemma demo_finished:
  obtains s where "sched_run demo_json (demo_run 10) (demo_system demo_config) = Some s"
    "sys_tasks s = [(demo_delivery, Finished (Acked True))]"
    "get (dp_registry (sys_disp s)) demo_id = Some demo_config"
  using that by (simp add: demo_run_def schedule_simps demo_config_def)

lemma demo_run_reachable:
  "sched_run demo_json (demo_run n) (demo_system demo_config) = Some s \<Longrightarrow> Ok demo_answers \<Longrightarrow>
     sys_reachable demo_json Ok A s"
  by (erule demo_reachable[OF _ _ demo_config_sound]) (auto simp: demo_run_def)

text \<open>An agent with two permits, and two copies of one delivery.\<close>

definition race_config :: agent_config where
  "race_config = demo_config\<lparr>max_concurrency := 2\<rparr>"

definition two_copies :: "sched_event list" where
  "two_copies = [Deliver demo_delivery, Deliver demo_delivery] @ task 0 6 @ task 1 4"

text \<open>The handler of the first runs, the second has its permit and has missed the event in the store.\<close>

lemma two_copies_run:
  obtains s cx cx' where "sched_run demo_json two_copies (demo_system race_config) = Some s"
    "sys_tasks s = [(demo_delivery, Running cx 42), (demo_delivery, Missed cx')]"
    "event_of cx = ''e''" "event_of cx' = ''e''"
  using that by (simp add: two_copies_def schedule_simps race_config_def demo_config_def)

lemma two_copies_reachable:
  assumes "sched_run demo_json two_copies (demo_system race_config) = Some s" and "Ok demo_answers"
  shows "sys_reachable demo_json Ok A s"
proof (rule demo_reachable[OF assms(1)])
  show "\<forall>ev \<in> set two_copies. admissible Ok A ev" using assms(2) by (auto simp: two_copies_def)
  show "sound_registry (demo_registry race_config)"
    by (rule demo_sound) (simp_all add: race_config_def demo_config_def)
qed

section \<open>Every delivery is resolved\<close>

text \<open>Every delivery is resolved: once no more arrive, the tasks alone finish.\<close>

theorem deliveries_resolve:
  assumes "sys_reachable json Ok A s"
  shows "\<exists>s'. (task_step json (\<lambda>_. True))\<^sup>*\<^sup>* s s' \<and> all_done s'"
  using dispatching.goal_reached permits.inv_reachable[OF assms] by blast

theorem deliveries_resolve_witness:
  "\<exists>s s'. sched_run demo_json (demo_run 6) (demo_system demo_config) = Some s \<and>
     (task_step demo_json (\<lambda>_. True))\<^sup>*\<^sup>* s s' \<and> all_done s'"
proof -
  obtain s where s: "sched_run demo_json (demo_run 6) (demo_system demo_config) = Some s"
    by (rule demo_running)
  have "sys_reachable demo_json (\<lambda>_. True) UNIV s" using s by (rule demo_run_reachable) simp
  from deliveries_resolve[OF this] s show ?thesis by blast
qed

text \<open>C22. No schedule runs on for ever or gets stuck before the tasks have finished.\<close>

theorem every_schedule_ends:
  assumes "sys_reachable json Ok A s" and "(task_step json (\<lambda>_. True) ^^ n) s s'"
  shows "n \<le> work_left s \<and> (all_done s' \<or> (\<exists>t. task_step json (\<lambda>_. True) s' t))"
proof
  show "n \<le> work_left s" using dispatching.work_bounded[OF assms(2)] by simp
  have "(task_step json (\<lambda>_. True))\<^sup>*\<^sup>* s s'" using assms(2) by (rule relpowp_imp_rtranclp)
  with dispatching.stuck_goal permits.inv_reachable[OF assms(1)]
  show "all_done s' \<or> (\<exists>t. task_step json (\<lambda>_. True) s' t)" by blast
qed

theorem every_schedule_ends_witness:
  "\<exists>s. sched_run demo_json (demo_run 6) (demo_system demo_config) = Some s \<and>
     (all_done s \<or> (\<exists>t. task_step demo_json (\<lambda>_. True) s t))"
proof -
  obtain s where s: "sched_run demo_json (demo_run 6) (demo_system demo_config) = Some s"
    by (rule demo_running)
  have "sys_reachable demo_json (\<lambda>_. True) UNIV s" using s by (rule demo_run_reachable) simp
  from every_schedule_ends[OF this, of 0 s] s show ?thesis by auto
qed

end
