(* ===== verification/Dispatch_Agents.thy ===== *)
theory Dispatch_Agents
  imports Dispatch_Schedules
begin

text \<open>
  What the interleaved dispatcher keeps for each agent whose registration is left alone: the
  concurrency limit, and an in-flight set that is exactly the events being handled.
\<close>

section \<open>The concurrency limit\<close>

definition limit_inv :: "agent_id set \<Rightarrow> dsys \<Rightarrow> bool" where
  "limit_inv A s =
     (\<forall>a \<in> A.
        (\<forall>k. permits_map (sys_disp s) a = Some k \<longrightarrow>
           k < length (dp_sems (sys_disp s)) \<and>
           (\<exists>c. get (dp_registry (sys_disp s)) a = Some c \<and>
              sem_capacity (dp_sems (sys_disp s) ! k) = unat (max_concurrency c))) \<and>
        (\<forall>(dl, p) \<in> set (sys_tasks s). dl_agent dl = a \<longrightarrow>
           (\<forall>c. config_of p = Some c \<longrightarrow> get (dp_registry (sys_disp s)) a = Some c) \<and>
           (\<forall>cx. ctx_of p = Some cx \<longrightarrow> permits_map (sys_disp s) a = Some (cx_permits cx))))"

text \<open>A state that is created gets a semaphore of the size asked for.\<close>

lemma ensure_state_cases:
  assumes "ensure_state a mc D = (k, D')"
  obtains "permits_map D a = Some k" "D' = D"
  | "permits_map D a = None" "k = length (dp_sems D)"
    "dp_sems D' = dp_sems D @ [\<lparr>sem_capacity = unat mc, sem_available = unat mc\<rparr>]"
  using assms
  by (cases "map_of (dp_states D) a") (auto simp: ensure_state_def permits_map_def Let_def)

definition limit_ok :: "dispatcher \<Rightarrow> agent_id \<Rightarrow> bool" where
  "limit_ok D a =
     (\<forall>k. permits_map D a = Some k \<longrightarrow> k < length (dp_sems D) \<and>
        (\<exists>c. get (dp_registry D) a = Some c \<and> sem_capacity (dp_sems D ! k) = unat (max_concurrency c)))"

lemma limit_inv_alt:
  "limit_inv A s \<longleftrightarrow>
     (\<forall>a \<in> A. limit_ok (sys_disp s) a \<and>
        (\<forall>(dl, p) \<in> set (sys_tasks s). dl_agent dl = a \<longrightarrow>
           (\<forall>c. config_of p = Some c \<longrightarrow> get (dp_registry (sys_disp s)) a = Some c) \<and>
           (\<forall>cx. ctx_of p = Some cx \<longrightarrow> permits_map (sys_disp s) a = Some (cx_permits cx))))"
  by (simp add: limit_inv_def limit_ok_def)

lemma limit_ok_ensure:
  assumes e: "ensure_state b mc D = (k, D')" and "limit_ok D a"
    and "a = b \<Longrightarrow> \<exists>c. get (dp_registry D) a = Some c \<and> mc = max_concurrency c"
  shows "limit_ok D' a \<and> (\<forall>j. permits_map D a = Some j \<longrightarrow> permits_map D' a = Some j)"
  using e
proof (rule ensure_state_cases)
  assume n: "permits_map D b = None" "k = length (dp_sems D)"
    "dp_sems D' = dp_sems D @ [\<lparr>sem_capacity = unat mc, sem_available = unat mc\<rparr>]"
  from ensure_state_sel[OF e] have "dp_registry D' = dp_registry D" by simp
  with n assms(2,3) show ?thesis
    by (auto simp: limit_ok_def permits_map_ensure[OF e] nth_append)
qed (use assms(2) in auto)

lemma limit_ok_moved:
  assumes "limit_ok D a" and "sems_moved (dp_sems D) h (dp_sems D') h'"
    and "dp_registry D' = dp_registry D" and "permits_map D' a = permits_map D a"
  shows "limit_ok D' a"
  using assms by (auto simp: limit_ok_def sems_moved_def)

lemma limit_ok_advance:
  assumes adv: "advance json an D dl p = Some (D', p', es)" and "limit_ok D a"
    and ctx: "\<forall>cx. ctx_of p = Some cx \<longrightarrow> cx_permits cx < length (dp_sems D)"
    and cfg: "\<forall>c. config_of p = Some c \<longrightarrow> max_concurrency c \<noteq> 0"
    and mine: "dl_agent dl = a \<Longrightarrow>
       (\<forall>c. config_of p = Some c \<longrightarrow> get (dp_registry D) a = Some c) \<and>
       (\<forall>cx. ctx_of p = Some cx \<longrightarrow> permits_map D a = Some (cx_permits cx))"
  shows "limit_ok D' a \<and> (\<forall>j. permits_map D a = Some j \<longrightarrow> permits_map D' a = Some j)"
proof -
  note moved = advance_sems[OF adv ctx cfg]
  note same = limit_ok_moved[OF assms(2) moved advance_registry[OF adv]]
  from states_step[OF adv] show ?thesis
  proof (elim disjE exE conjE)
    fix e c k assume "p = Gated e c" "ensure_state (dl_agent dl) (max_concurrency c) D = (k, D')"
    with limit_ok_ensure[OF this(2) assms(2)] mine show ?thesis by fastforce
  next
    fix cx assume p: "p = Missed cx" "dp_states D' = dp_states (fst (claim D dl cx))"
    have "permits_map D' a = permits_map D a"
      using mine p(1) by (cases "dl_agent dl = a")
        (auto simp: permits_map_cong[OF p(2)] permits_map_claim split: option.splits)
    with same show ?thesis by simp
  next
    assume "dp_states D' = dp_states D"
    from same permits_map_cong[OF this] show ?thesis by simp
  qed (use same in auto)
qed

lemma limit_inv_work:
  assumes "task_step json Ok s s'" and base: "permit_inv s" and inv: "limit_inv A s"
  shows "limit_inv A s'"
proof -
  from assms(1) obtain i dl p an D' p' es where s': "s' = s\<lparr>sys_disp := D',
      sys_tasks := (sys_tasks s)[i := (dl, p')], sys_log := sys_log s @ map (Pair i) es\<rparr>"
    and i: "i < length (sys_tasks s)" "sys_tasks s ! i = (dl, p)"
    and adv: "advance json an (sys_disp s) dl p = Some (D', p', es)"
    by (rule task_stepE)
  let ?D = "sys_disp s"
  have mem: "(dl, p) \<in> set (sys_tasks s)" using i by (metis nth_mem)
  have ctx: "\<forall>cx. ctx_of p = Some cx \<longrightarrow> cx_permits cx < length (dp_sems ?D)"
    and cfg: "\<forall>c. config_of p = Some c \<longrightarrow> max_concurrency c \<noteq> 0"
    using base mem by (auto simp: permit_inv_def)
  note reg = advance_registry[OF adv]
  have main: "limit_ok D' a \<and> (\<forall>j. permits_map ?D a = Some j \<longrightarrow> permits_map D' a = Some j)"
    if "a \<in> A" for a
    using limit_ok_advance[OF adv _ ctx cfg, of a] inv that mem by (fastforce simp: limit_inv_alt)
  have cfg': "get (dp_registry ?D) (dl_agent dl) = Some c" if "dl_agent dl \<in> A" "config_of p' = Some c" for c
    using config_step[OF adv that(2)] inv that(1) mem
    by (fastforce simp: limit_inv_alt gate_ok_iff)
  have ctx': "permits_map D' (dl_agent dl) = Some (cx_permits cx)"
    if "dl_agent dl \<in> A" "ctx_of p' = Some cx" for cx
    using ctx_step[OF adv that(2)]
  proof (elim disjE exE conjE)
    assume "ctx_of p = Some cx"
    with inv that(1) mem main show ?thesis by (fastforce simp: limit_inv_alt)
  next
    fix e c assume "ensure_state (dl_agent dl) (max_concurrency c) ?D = (cx_permits cx, D')"
    from permits_map_ensure[OF this] show ?thesis by simp
  qed
  show ?thesis
    unfolding limit_inv_alt
  proof (intro ballI conjI)
    fix a assume a: "a \<in> A"
    show "limit_ok (sys_disp s') a" using main[OF a] by (simp add: s')
    fix x assume "x \<in> set (sys_tasks s')"
    then have "x = (dl, p') \<or> x \<in> set (sys_tasks s)"
      by (auto simp: s' dest: set_update_subset_insert[THEN subsetD])
    then show "case x of (dl, p) \<Rightarrow> dl_agent dl = a \<longrightarrow>
        (\<forall>c. config_of p = Some c \<longrightarrow> get (dp_registry (sys_disp s')) a = Some c) \<and>
        (\<forall>cx. ctx_of p = Some cx \<longrightarrow> permits_map (sys_disp s') a = Some (cx_permits cx))"
      using inv a main[OF a] cfg' ctx' reg by (fastforce simp: s' limit_inv_alt)
  qed
qed

lemma limit_inv_init: "sys_init s \<Longrightarrow> limit_inv A s"
  by (simp add: sys_init_def limit_inv_def permits_map_def)

lemma limit_inv_step:
  assumes "sys_step json Ok A s s'" and base: "permit_inv s" and inv: "limit_inv A s"
  shows "limit_inv A s'"
  using assms(1)
proof (rule sys_stepE)
  assume "task_step json Ok s s'"
  then show ?thesis using base inv by (rule limit_inv_work)
next
  fix dl assume "s' = s\<lparr>sys_tasks := sys_tasks s @ [(dl, Entered)]\<rparr>"
  with inv show ?thesis by (simp add: limit_inv_def)
next
  fix b assume s': "s' = s\<lparr>sys_disp := snd (available b (sys_disp s))\<rparr>"
  have sound: "sound_registry (dp_registry (sys_disp s))" using base by (simp add: permit_inv_def)
  then show ?thesis
  proof (rule available_step[of _ b])
    assume "snd (available b (sys_disp s)) = sys_disp s"
    with inv show ?thesis by (simp add: s')
  next
    fix mc k assume e: "ensure_state b mc (sys_disp s) = (k, snd (available b (sys_disp s)))"
      and c: "\<exists>c. get (dp_registry (sys_disp s)) b = Some c \<and> mc = max_concurrency c"
    have "limit_ok (snd (available b (sys_disp s))) a \<and>
        (\<forall>j. permits_map (sys_disp s) a = Some j \<longrightarrow>
           permits_map (snd (available b (sys_disp s))) a = Some j)" if "a \<in> A" for a
      using limit_ok_ensure[OF e, of a] c inv that by (auto simp: limit_inv_alt)
    with inv ensure_state_sel[OF e] show ?thesis
      by (simp add: s' limit_inv_alt) fastforce
  qed
next
  fix r assume s': "s' = s\<lparr>sys_disp := (sys_disp s)\<lparr>dp_registry := r\<rparr>\<rparr>"
    and r: "\<forall>a \<in> A. get r a = get (dp_registry (sys_disp s)) a"
  have "permits_map (D\<lparr>dp_registry := r\<rparr>) = permits_map D" for D
    by (rule permits_map_cong) simp
  with inv r show ?thesis by (simp add: s' limit_inv_def)
next
  fix cs assume s': "s' = s\<lparr>sys_disp := dispatcher_apply_changes cs (sys_disp s)\<rparr>"
    and "\<forall>c \<in> set cs. change_agent_id c \<notin> A"
  then have "permits_map (dispatcher_apply_changes cs D) a = permits_map D a" if "a \<in> A" for a D
    using that by (auto simp: permits_map_forget)
  with inv show ?thesis by (simp add: s' limit_inv_def) (simp add: dispatcher_apply_changes_def)
qed

interpretation limits: strengthened_invariant sys_init "sys_step json Ok A" permit_inv "limit_inv A"
  for json Ok A
  by unfold_locales (auto intro: limit_inv_init limit_inv_step)

text \<open>Tasks of one agent that hold a permit, among them every task with a running handler.\<close>

definition holding :: "agent_id \<Rightarrow> dsys \<Rightarrow> nat" where
  "holding a s = count_where (\<lambda>(dl, p). dl_agent dl = a \<and> holds p \<noteq> None) (sys_tasks s)"

fun running :: "pc \<Rightarrow> bool" where
  "running (Running cx pid) = True"
| "running p = False"

definition handlers_running :: "agent_id \<Rightarrow> dsys \<Rightarrow> nat" where
  "handlers_running a s = count_where (\<lambda>(dl, p). dl_agent dl = a \<and> running p) (sys_tasks s)"

lemma running_holds: "running p \<Longrightarrow> holds p \<noteq> None"
  by (cases p) (auto simp: holds_def)

lemma handlers_holding: "handlers_running a s \<le> holding a s"
  unfolding handlers_running_def holding_def
  by (rule count_where_mono) (auto dest: running_holds)

lemma holding_bound:
  assumes "permit_inv s" and inv: "limit_inv A s" and a: "a \<in> A"
    and c: "get (dp_registry (sys_disp s)) a = Some c"
  shows "holding a s \<le> unat (max_concurrency c)"
proof (cases "permits_map (sys_disp s) a")
  case None
  have "\<not> (dl_agent dl = a \<and> holds p \<noteq> None)" if "(dl, p) \<in> set (sys_tasks s)" for dl p
    using inv a that None by (fastforce simp: limit_inv_def dest: holds_ctx)
  then have "holding a s = 0" by (auto simp: holding_def count_where_zero)
  then show ?thesis by simp
next
  case (Some k)
  have "holding a s \<le> count_where (\<lambda>(dl, p). holds p = Some k) (sys_tasks s)"
    unfolding holding_def
  proof (rule count_where_mono)
    fix x assume "x \<in> set (sys_tasks s)" "case x of (dl, p) \<Rightarrow> dl_agent dl = a \<and> holds p \<noteq> None"
    with inv a Some show "case x of (dl, p) \<Rightarrow> holds p = Some k"
      by (fastforce simp: limit_inv_def dest: holds_ctx)
  qed
  also have "\<dots> \<le> sem_capacity (dp_sems (sys_disp s) ! k)"
    using assms(1) inv a Some by (fastforce simp: permit_inv_def limit_inv_def)
  also have "\<dots> = unat (max_concurrency c)"
    using inv a Some c by (fastforce simp: limit_inv_def)
  finally show ?thesis .
qed

lemma running_bound:
  assumes "sys_reachable json Ok A s" and "a \<in> A"
    and "get (dp_registry (sys_disp s)) a = Some c"
  shows "handlers_running a s \<le> unat (max_concurrency c)"
  using handlers_holding[of a s] limits.both.inv_reachable[OF assms(1)]
    holding_bound[OF _ _ assms(2,3)] by fastforce

text \<open>C8. At most \<open>max_concurrency\<close> handlers of an agent run at once.\<close>

theorem concurrency_limit:
  assumes "sys_reachable json Ok A s" and "a \<in> A"
    and "get (dp_registry (sys_disp s)) a = Some c"
  shows "handlers_running a s \<le> unat (max_concurrency c)"
  using assms by (rule running_bound)

theorem concurrency_limit_witness:
  "\<exists>s. sched_run demo_json (demo_run 6) (demo_system demo_config) = Some s \<and>
     handlers_running demo_id s = 1 \<and> handlers_running demo_id s \<le> unat (max_concurrency demo_config)"
proof -
  obtain s where s: "sched_run demo_json (demo_run 6) (demo_system demo_config) = Some s"
    "\<exists>cx. sys_tasks s = [(demo_delivery, Running cx 42)] \<and> event_of cx = ''e''"
    "get (dp_registry (sys_disp s)) demo_id = Some demo_config"
    by (rule demo_running)
  have "sys_reachable demo_json (\<lambda>_. True) UNIV s" using s(1) by (rule demo_run_reachable) simp
  from concurrency_limit[OF this UNIV_I s(3)] s show ?thesis by (auto simp: handlers_running_def)
qed

section \<open>The in-flight set\<close>

definition claimed_event :: "pc \<Rightarrow> string option" where
  "claimed_event p = map_option event_of (claims p)"

definition claimants :: "agent_id \<Rightarrow> string \<Rightarrow> dsys \<Rightarrow> nat" where
  "claimants a e s =
     count_where (\<lambda>(dl, p). dl_agent dl = a \<and> claimed_event p = Some e) (sys_tasks s)"

definition flight_inv :: "agent_id set \<Rightarrow> dsys \<Rightarrow> bool" where
  "flight_inv A s =
     (\<forall>a \<in> A. \<forall>e. claimants a e s = of_bool (e \<in> events_in_flight (sys_disp s) a))"

lemma flight_states: "dp_states D' = dp_states D \<Longrightarrow> events_in_flight D' = events_in_flight D"
  by (simp add: events_in_flight_def fun_eq_iff)

lemma flight_ensure: "ensure_state a mc D = (k, D') \<Longrightarrow> events_in_flight D' = events_in_flight D"
  by (auto simp: events_in_flight_def ensure_state_def Let_def fun_eq_iff split: option.splits if_splits)

lemma flight_claim:
  "events_in_flight (fst (claim D dl cx)) =
     (events_in_flight D)(dl_agent dl := insert (event_of cx) (events_in_flight D (dl_agent dl)))"
  by (auto simp: claim_def Let_def events_in_flight_def fun_eq_iff split: option.splits)

lemma flight_remove:
  "events_in_flight (remove_in_flight a e D) =
     (events_in_flight D)(a := events_in_flight D a - {e})"
  by (auto simp: remove_in_flight_def events_in_flight_def fun_eq_iff split: option.splits)

lemma flight_forget:
  "a \<notin> change_agent_id ` set cs \<Longrightarrow>
     events_in_flight (dispatcher_apply_changes cs D) a = events_in_flight D a"
proof -
  assume a: "a \<notin> change_agent_id ` set cs"
  then have "map_of (remove_states cs sts) a = map_of sts a" for sts
    by (induction cs arbitrary: sts) auto
  then show ?thesis by (simp add: events_in_flight_def dispatcher_apply_changes_def)
qed

lemma claim_result:
  "claim D dl cx = (D', p', es) \<Longrightarrow>
     (if event_of cx \<in> events_in_flight D (dl_agent dl) then p' = Finished Dropped else p' = Claimed cx)"
  by (auto simp: claim_def Let_def events_in_flight_def split: option.splits if_splits)

text \<open>A section moves the in-flight set and the claim of its task together.\<close>

lemma flight_advance:
  assumes adv: "advance json an D dl p = Some (D', p', es)"
    and own: "\<And>e. claimed_event p = Some e \<Longrightarrow> e \<in> events_in_flight D (dl_agent dl)"
  shows "of_bool (e \<in> events_in_flight D' (dl_agent dl)) + of_bool (claimed_event p = Some e) =
         of_bool (e \<in> events_in_flight D (dl_agent dl)) + (of_bool (claimed_event p' = Some e) :: nat)"
  using states_step[OF adv]
proof (elim disjE exE conjE)
  fix ev c k assume "p = Gated ev c" and e: "ensure_state (dl_agent dl) (max_concurrency c) D = (k, D')"
  moreover from this adv have "claims p' = None" by auto
  ultimately show ?thesis by (simp add: flight_ensure claimed_event_def)
next
  fix cx assume p: "p = Missed cx" and st: "dp_states D' = dp_states (fst (claim D dl cx))"
  from adv p have "claim D dl cx = (D', p', es)" by simp
  from claim_result[OF this] p show ?thesis
    by (auto simp: flight_states[OF st] flight_claim claimed_event_def split: if_splits)
next
  fix cx assume p: "p = Spawn_Failed cx" and D': "D' = remove_in_flight (dl_agent dl) (event_of cx) D"
  from adv p have "claims p' = None" by auto
  with p own show ?thesis by (auto simp: D' flight_remove claimed_event_def)
next
  fix cx assume p: "p = Recorded cx" and D': "D' = remove_in_flight (dl_agent dl) (event_of cx) D"
  from adv p have "claims p' = None" by auto
  with p own show ?thesis by (auto simp: D' flight_remove claimed_event_def)
next
  assume st: "dp_states D' = dp_states D" and "claims p' = claims p"
  then show ?thesis by (simp add: flight_states[OF st] claimed_event_def)
qed

lemma flight_other:
  assumes adv: "advance json an D dl p = Some (D', p', es)" and "b \<noteq> dl_agent dl"
  shows "events_in_flight D' b = events_in_flight D b"
  using states_step[OF adv]
proof (elim disjE exE conjE)
  fix cx assume "dp_states D' = dp_states (fst (claim D dl cx))"
  from flight_states[OF this] assms(2) show ?thesis by (simp add: flight_claim)
next
  assume "dp_states D' = dp_states D"
  from flight_states[OF this] show ?thesis by simp
qed (use assms(2) in \<open>simp_all add: flight_ensure flight_remove\<close>)

lemma flight_inv_work:
  assumes "task_step json Ok s s'" and inv: "flight_inv A s"
  shows "flight_inv A s'"
proof -
  from assms(1) obtain i dl p an D' p' es where s': "s' = s\<lparr>sys_disp := D',
      sys_tasks := (sys_tasks s)[i := (dl, p')], sys_log := sys_log s @ map (Pair i) es\<rparr>"
    and i: "i < length (sys_tasks s)" "sys_tasks s ! i = (dl, p)"
    and adv: "advance json an (sys_disp s) dl p = Some (D', p', es)"
    by (rule task_stepE)
  have mem: "(dl, p) \<in> set (sys_tasks s)" using i by (metis nth_mem)
  show ?thesis
    unfolding flight_inv_def
  proof (intro ballI allI)
    fix a e assume a: "a \<in> A"
    have count: "claimants a e s' + of_bool (dl_agent dl = a \<and> claimed_event p = Some e) =
        claimants a e s + of_bool (dl_agent dl = a \<and> claimed_event p' = Some e)"
      using count_where_update[OF i(1), of "\<lambda>(dl, p). dl_agent dl = a \<and> claimed_event p = Some e" "(dl, p')"]
        i(2) by (simp add: claimants_def s' of_bool_def)
    have own: "x \<in> events_in_flight (sys_disp s) (dl_agent dl)"
      if "dl_agent dl = a" "claimed_event p = Some x" for x
    proof (rule ccontr)
      assume "x \<notin> events_in_flight (sys_disp s) (dl_agent dl)"
      with inv a that have "claimants a x s = 0" by (simp add: flight_inv_def)
      with mem that show False by (auto simp: claimants_def count_where_zero)
    qed
    show "claimants a e s' = of_bool (e \<in> events_in_flight (sys_disp s') a)"
    proof (cases "dl_agent dl = a")
      case True
      have "claimants a e s = of_bool (e \<in> events_in_flight (sys_disp s) a)"
        using inv a by (simp add: flight_inv_def)
      with flight_advance[OF adv own[OF True], of e] count show ?thesis
        by (simp add: True s')
    next
      case False
      with flight_other[OF adv, of a] have "events_in_flight D' a = events_in_flight (sys_disp s) a"
        by blast
      with False count inv a show ?thesis by (simp add: flight_inv_def s')
    qed
  qed
qed

lemma flight_inv_step:
  assumes "sys_step json Ok A s s'" and inv: "flight_inv A s"
  shows "flight_inv A s'"
  using assms(1)
proof (rule sys_stepE)
  assume "task_step json Ok s s'"
  then show ?thesis using inv by (rule flight_inv_work)
next
  fix dl assume "s' = s\<lparr>sys_tasks := sys_tasks s @ [(dl, Entered)]\<rparr>"
  with inv show ?thesis by (simp add: flight_inv_def claimants_def claimed_event_def)
next
  fix b assume s': "s' = s\<lparr>sys_disp := snd (available b (sys_disp s))\<rparr>"
  have "events_in_flight (snd (available b D)) = events_in_flight D" for D
    by (auto simp: available_def ensure_state_eq flight_ensure[OF ensure_state_eq] split: option.splits)
  with inv show ?thesis by (simp add: s' flight_inv_def claimants_def)
next
  fix r assume "s' = s\<lparr>sys_disp := (sys_disp s)\<lparr>dp_registry := r\<rparr>\<rparr>"
  with inv show ?thesis by (simp add: flight_inv_def claimants_def events_in_flight_def)
next
  fix cs assume "s' = s\<lparr>sys_disp := dispatcher_apply_changes cs (sys_disp s)\<rparr>"
    and "\<forall>c \<in> set cs. change_agent_id c \<notin> A"
  moreover from this(2) have "a \<notin> change_agent_id ` set cs" if "a \<in> A" for a using that by auto
  ultimately show ?thesis using inv by (simp add: flight_inv_def claimants_def flight_forget)
qed

lemma flight_inv_init: "sys_init s \<Longrightarrow> flight_inv A s"
  by (simp add: sys_init_def flight_inv_def claimants_def events_in_flight_def)

interpretation flights: invariant sys_init "sys_step json Ok A" "flight_inv A" for json Ok A
  by unfold_locales (auto intro: flight_inv_init flight_inv_step)

text \<open>
  C9. For an agent that is left alone, no event is handled twice at the same time: in every interleaving, with any
  number of permits and redelivered copies and with a store that fails at will, a task that has claimed its event
  (from the claim to the record of its completion) excludes every other task of the agent from claiming it.
\<close>

theorem no_concurrent_duplicates:
  assumes "sys_reachable json Ok A s" and "a \<in> A"
    and "i < length (sys_tasks s)" and "sys_tasks s ! i = (dl, p)" and "dl_agent dl = a"
    and "j < length (sys_tasks s)" and "sys_tasks s ! j = (dl', p')" and "dl_agent dl' = a"
    and "i \<noteq> j" and "claimed_event p = Some e"
  shows "claimed_event p' \<noteq> Some e"
proof
  assume "claimed_event p' = Some e"
  with assms(3-10) have "2 \<le> claimants a e s"
    unfolding claimants_def
    by (cases "i < j") (auto intro: count_where_two[of i j] count_where_two[of j i])
  moreover have "claimants a e s \<le> 1"
    using flights.inv_reachable[OF assms(1)] assms(2) by (simp add: flight_inv_def)
  ultimately show False by simp
qed

theorem no_concurrent_duplicates_witness:
  "\<exists>s cx cx'. sched_run demo_json two_copies (demo_system race_config) = Some s \<and>
     sys_tasks s = [(demo_delivery, Running cx 42), (demo_delivery, Missed cx')] \<and>
     event_of cx' = event_of cx \<and> claimed_event (Missed cx') \<noteq> Some (event_of cx)"
proof -
  obtain s cx cx' where s: "sched_run demo_json two_copies (demo_system race_config) = Some s"
    "sys_tasks s = [(demo_delivery, Running cx 42), (demo_delivery, Missed cx')]"
    "event_of cx = ''e''" "event_of cx' = ''e''"
    by (rule two_copies_run)
  have "sys_reachable demo_json (\<lambda>_. True) UNIV s" using s(1) by (rule two_copies_reachable) simp
  moreover have "claimed_event (Running cx 42) = Some (event_of cx)" by (simp add: claimed_event_def)
  ultimately have "claimed_event (Missed cx') \<noteq> Some (event_of cx)"
    using no_concurrent_duplicates[where i = 0 and j = 1 and a = demo_id and dl = demo_delivery
        and dl' = demo_delivery and p = "Running cx 42" and p' = "Missed cx'"] s(2) by simp
  with s show ?thesis by metis
qed

text \<open>Nothing leaks: when all tasks have finished every permit is back and nothing is in flight.\<close>

theorem quiescent_clean:
  assumes "sys_reachable json Ok A s" and "all_done s"
  shows "(\<forall>k < length (dp_sems (sys_disp s)).
            sem_available (dp_sems (sys_disp s) ! k) = sem_capacity (dp_sems (sys_disp s) ! k)) \<and>
         (\<forall>a \<in> A. in_flight a (sys_disp s) = 0)"
proof (intro conjI allI impI ballI)
  fix k assume k: "k < length (dp_sems (sys_disp s))"
  have "count_where (\<lambda>(dl, p). holds p = Some k) (sys_tasks s) = 0"
    using assms(2) by (auto simp: count_where_zero all_done_def holds_def)
  with k permits.inv_reachable[OF assms(1)]
  show "sem_available (dp_sems (sys_disp s) ! k) = sem_capacity (dp_sems (sys_disp s) ! k)"
    by (auto simp: permit_inv_def)
next
  fix a assume a: "a \<in> A"
  have "claimants a e s = 0" for e
    using assms(2) by (auto simp: claimants_def count_where_zero all_done_def claimed_event_def)
  with a flights.inv_reachable[OF assms(1)] have "events_in_flight (sys_disp s) a = {}"
    by (auto simp: flight_inv_def)
  then show "in_flight a (sys_disp s) = 0"
    by (simp add: in_flight_def events_in_flight_def split: option.splits)
qed

theorem quiescent_clean_witness:
  "\<exists>s. sched_run demo_json (demo_run 10) (demo_system demo_config) = Some s \<and>
     in_flight demo_id (sys_disp s) = 0"
proof -
  obtain s where s: "sched_run demo_json (demo_run 10) (demo_system demo_config) = Some s"
    "sys_tasks s = [(demo_delivery, Finished (Acked True))]"
    by (rule demo_finished)
  have "sys_reachable demo_json (\<lambda>_. True) UNIV s" using s(1) by (rule demo_run_reachable) simp
  moreover have "all_done s" using s(2) by (simp add: all_done_def)
  ultimately show ?thesis using quiescent_clean[of demo_json "\<lambda>_. True" UNIV s] s(1) by blast
qed

end
