(* ===== verification/Dispatch_History.thy ===== *)
theory Dispatch_History
  imports Dispatch_Agents
begin

text \<open>
  What the interleaved dispatcher has done by the time a state is reached: the history of each
  delivery, what an acknowledgement implies, and how often the handler of an event is spawned.
\<close>

section \<open>The history of a delivery\<close>

fun is_action :: "effect \<Rightarrow> bool" where
  "is_action (Log l) = False"
| "is_action e = True"

definition history :: "nat \<Rightarrow> dsys \<Rightarrow> effect list" where
  "history i s = filter is_action (map snd (filter (\<lambda>(j, e). j = i) (sys_log s)))"

text \<open>The actions a task has taken when it stands at a point.\<close>

fun history_ok :: "delivery \<Rightarrow> pc \<Rightarrow> effect list \<Rightarrow> bool" where
  "history_ok dl (Running cx pid) h = (h = [Spawn (handler_command dl cx)])"
| "history_ok dl (Exited cx) h = (h = [Spawn (handler_command dl cx)])"
| "history_ok dl (Recorded cx) h = (h = [Spawn (handler_command dl cx)])"
| "history_ok dl (Acking cx) h = (h = [Spawn (handler_command dl cx)])"
| "history_ok dl (Finished (Termed b)) h = (h = [Term_Sent b])"
| "history_ok dl (Finished (Acked b)) h =
     (h = [Ack_Sent b] \<or> (\<exists>cx. h = [Spawn (handler_command dl cx), Ack_Sent b]))"
| "history_ok dl (Finished Dropped) h = (h = [])"
| "history_ok dl p h = (h = [])"

definition history_inv :: "dsys \<Rightarrow> bool" where
  "history_inv s =
     ((\<forall>i < length (sys_tasks s). history_ok (fst (sys_tasks s ! i)) (snd (sys_tasks s ! i)) (history i s)) \<and>
      (\<forall>(j, e) \<in> set (sys_log s). j < length (sys_tasks s)))"

lemma history_ok_advance:
  "advance json an D dl p = Some (D', p', es) \<Longrightarrow> history_ok dl p h \<Longrightarrow>
     history_ok dl p' (h @ filter is_action es)"
  by (cases p)
    (auto simp: enter_def check_completed_eq claim_def spawn_handler_def reap_def record_completion_eq
      ack_delivery_def Let_def lookup_log_def mark_log_def
      split: sum.splits prod.splits option.splits if_splits)

lemma history_work:
  "history j (s\<lparr>sys_disp := D', sys_tasks := ts, sys_log := sys_log s @ map (Pair i) es\<rparr>) =
     history j s @ (if j = i then filter is_action es else [])"
  by (auto simp: history_def filter_map o_def)

lemma history_inv_work:
  assumes "task_step json Ok s s'" and inv: "history_inv s"
  shows "history_inv s'"
proof -
  from assms(1) obtain i dl p an D' p' es where s': "s' = s\<lparr>sys_disp := D',
      sys_tasks := (sys_tasks s)[i := (dl, p')], sys_log := sys_log s @ map (Pair i) es\<rparr>"
    and i: "i < length (sys_tasks s)" "sys_tasks s ! i = (dl, p)"
    and adv: "advance json an (sys_disp s) dl p = Some (D', p', es)"
    by (rule task_stepE)
  have "history_ok dl p (history i s)" using inv i by (fastforce simp: history_inv_def)
  from history_ok_advance[OF adv this] inv i show ?thesis
    unfolding s' history_inv_def history_work by (auto simp: nth_list_update)
qed

lemma history_inv_step:
  assumes "sys_step json Ok A s s'" and inv: "history_inv s"
  shows "history_inv s'"
  using assms(1)
proof (rule sys_stepE)
  assume "task_step json Ok s s'"
  then show ?thesis using inv by (rule history_inv_work)
next
  fix dl assume s': "s' = s\<lparr>sys_tasks := sys_tasks s @ [(dl, Entered)]\<rparr>"
  have "filter (\<lambda>(j, e). j = length (sys_tasks s)) (sys_log s) = []"
    using inv by (fastforce simp: history_inv_def filter_empty_conv)
  then have "history (length (sys_tasks s)) s = []" by (simp add: history_def)
  with inv show ?thesis
    by (fastforce simp: s' history_inv_def history_def nth_append less_Suc_eq)
qed (use inv in \<open>simp_all add: history_inv_def history_def\<close>)

lemma history_inv_init: "sys_init s \<Longrightarrow> history_inv s"
  by (simp add: sys_init_def history_inv_def)

interpretation histories: invariant sys_init "sys_step json Ok A" history_inv for json Ok A
  by unfold_locales (auto intro: history_inv_init history_inv_step)

text \<open>
  C2. Each delivery is resolved at most once; one that is terminated never reached its handler; a
  finished one was acknowledged, terminated, or dropped without any action.
\<close>

theorem delivery_protocol:
  assumes "sys_reachable json Ok A s" and "i < length (sys_tasks s)"
    and "sys_tasks s ! i = (dl, Finished out)"
  shows "(\<exists>b. out = Termed b \<and> history i s = [Term_Sent b]) \<or>
     (\<exists>b. out = Acked b \<and> history i s = [Ack_Sent b]) \<or>
     (\<exists>b cx. out = Acked b \<and> history i s = [Spawn (handler_command dl cx), Ack_Sent b]) \<or>
     (out = Dropped \<and> history i s = [])"
proof -
  have "history_ok dl (Finished out) (history i s)"
    using histories.inv_reachable[OF assms(1)] assms(2,3) by (auto simp: history_inv_def)
  then show ?thesis by (cases out) auto
qed

theorem delivery_protocol_witness:
  "\<exists>s cx. sched_run demo_json (demo_run 10) (demo_system demo_config) = Some s \<and>
     (history 0 s = [Ack_Sent True] \<or> history 0 s = [Spawn (handler_command demo_delivery cx), Ack_Sent True])"
proof -
  obtain s where s: "sched_run demo_json (demo_run 10) (demo_system demo_config) = Some s"
    "sys_tasks s = [(demo_delivery, Finished (Acked True))]"
    by (rule demo_finished)
  have "sys_reachable demo_json (\<lambda>_. True) UNIV s" using s(1) by (rule demo_run_reachable) simp
  from delivery_protocol[OF this, of 0 demo_delivery "Acked True"] s show ?thesis by auto
qed

text \<open>Before it finishes, a delivery is neither acknowledged nor terminated.\<close>

theorem unresolved_while_running:
  assumes "sys_reachable json Ok A s" and "i < length (sys_tasks s)"
    and "sys_tasks s ! i = (dl, p)" and "\<nexists>out. p = Finished out"
  shows "history i s = [] \<or> (\<exists>cx. history i s = [Spawn (handler_command dl cx)])"
proof -
  have "history_ok dl p (history i s)"
    using histories.inv_reachable[OF assms(1)] assms(2,3) by (fastforce simp: history_inv_def)
  with assms(4) show ?thesis by (cases p) auto
qed

theorem unresolved_while_running_witness:
  "\<exists>s cx. sched_run demo_json (demo_run 6) (demo_system demo_config) = Some s \<and>
     (history 0 s = [] \<or> history 0 s = [Spawn (handler_command demo_delivery cx)])"
proof -
  obtain s cx where s: "sched_run demo_json (demo_run 6) (demo_system demo_config) = Some s"
    "sys_tasks s = [(demo_delivery, Running cx 42)]"
    using demo_running by metis
  have "sys_reachable demo_json (\<lambda>_. True) UNIV s" using s(1) by (rule demo_run_reachable) simp
  from unresolved_while_running[OF this, of 0 demo_delivery "Running cx 42"] s show ?thesis by auto
qed

section \<open>Acknowledged events are recorded\<close>

definition store_ok :: "answers \<Rightarrow> bool" where
  "store_ok an = (an_dedup_read an \<and> an_dedup_mark an)"

text \<open>A store whose lookups are answered, while its writes may fail.\<close>

definition lookup_ok :: "answers \<Rightarrow> bool" where
  "lookup_ok an = an_dedup_read an"

lemma store_ok_lookup: "store_ok an \<Longrightarrow> lookup_ok an"
  by (simp add: store_ok_def lookup_ok_def)

fun past_record :: "pc \<Rightarrow> bool" where
  "past_record (Hit_Acking cx) = True"
| "past_record (Recorded cx) = True"
| "past_record (Acking cx) = True"
| "past_record (Finished (Acked b)) = True"
| "past_record p = False"

definition recorded :: "(string \<Rightarrow> sval option) \<Rightarrow> dsys \<Rightarrow> delivery \<Rightarrow> bool" where
  "recorded json s dl =
     (\<exists>e. envelope_parse json (dl_raw dl) = Inr e \<and> ev_agent_id e = dl_agent dl \<and>
        (dl_agent dl, ev_event_id e) \<in> completed_set (dp_dedup (sys_disp s)))"

definition envelope_of :: "pc \<Rightarrow> event_envelope option" where
  "envelope_of p = (case p of Gated e c \<Rightarrow> Some e | _ \<Rightarrow> map_option cx_envelope (ctx_of p))"

definition record_inv :: "(string \<Rightarrow> sval option) \<Rightarrow> dsys \<Rightarrow> bool" where
  "record_inv json s =
     (\<forall>(dl, p) \<in> set (sys_tasks s).
        (\<forall>e. envelope_of p = Some e \<longrightarrow>
           envelope_parse json (dl_raw dl) = Inr e \<and> ev_agent_id e = dl_agent dl) \<and>
        (past_record p \<longrightarrow> recorded json s dl))"

lemma dedup_mono:
  "advance json an D dl p = Some (D', p', es) \<Longrightarrow> completed_set (dp_dedup D) \<subseteq> completed_set (dp_dedup D')"
  by (cases p)
    (auto intro: dedup.mark_mono[THEN subsetD] simp: enter_def check_completed_eq claim_def spawn_handler_def reap_def record_completion_eq
      ack_delivery_def Let_def
      dest!: ensure_state_sel take_permit_sel split: sum.splits prod.splits option.splits if_splits)

lemma envelope_step:
  "advance json an D dl p = Some (D', p', es) \<Longrightarrow> envelope_of p' = Some e \<Longrightarrow>
     envelope_of p = Some e \<or> (p = Entered \<and> (\<exists>c. gate json D dl = Inr (e, c)))"
  by (cases p)
    (auto simp: envelope_of_def enter_def check_completed_eq claim_def spawn_handler_def reap_def
      record_completion_eq ack_delivery_def Let_def
      split: sum.splits prod.splits option.splits if_splits)

lemma past_record_step:
  assumes "advance json an D dl p = Some (D', p', es)" and "store_ok an" and "past_record p'"
  shows "past_record p \<or>
     (\<exists>e. envelope_of p = Some e \<and> (dl_agent dl, ev_event_id e) \<in> completed_set (dp_dedup D'))"
  using assms
  by (cases p)
    (auto simp: envelope_of_def enter_def check_completed_eq dedup_hit_for_def claim_def spawn_handler_def
      reap_def record_completion_eq dedup.mark_completes store_ok_def ack_delivery_def Let_def
      split: sum.splits prod.splits option.splits if_splits)

lemma recorded_mono:
  "recorded json s dl \<Longrightarrow>
     completed_set (dp_dedup (sys_disp s)) \<subseteq> completed_set (dp_dedup (sys_disp s')) \<Longrightarrow> recorded json s' dl"
  by (auto simp: recorded_def)

lemma record_inv_work:
  assumes "task_step json store_ok s s'" and inv: "record_inv json s"
  shows "record_inv json s'"
proof -
  from assms(1) obtain i dl p an D' p' es where s': "s' = s\<lparr>sys_disp := D',
      sys_tasks := (sys_tasks s)[i := (dl, p')], sys_log := sys_log s @ map (Pair i) es\<rparr>"
    and i: "i < length (sys_tasks s)" "sys_tasks s ! i = (dl, p)" and ok: "store_ok an"
    and adv: "advance json an (sys_disp s) dl p = Some (D', p', es)"
    by (rule task_stepE)
  have mem: "(dl, p) \<in> set (sys_tasks s)" using i by (metis nth_mem)
  have mono: "completed_set (dp_dedup (sys_disp s)) \<subseteq> completed_set (dp_dedup (sys_disp s'))"
    using dedup_mono[OF adv] by (simp add: s')
  have env: "envelope_parse json (dl_raw dl) = Inr e \<and> ev_agent_id e = dl_agent dl"
    if "envelope_of p = Some e" for e
    using inv mem that by (auto simp: record_inv_def)
  have env': "envelope_parse json (dl_raw dl) = Inr e \<and> ev_agent_id e = dl_agent dl"
    if "envelope_of p' = Some e" for e
    using envelope_step[OF adv that] env by (auto simp: gate_ok_iff)
  have rec: "recorded json s' dl" if "past_record p'"
    using past_record_step[OF adv ok that]
  proof (elim disjE exE conjE)
    assume "past_record p"
    with inv mem have "recorded json s dl" by (auto simp: record_inv_def)
    then show ?thesis using mono by (rule recorded_mono)
  next
    fix e assume "envelope_of p = Some e" "(dl_agent dl, ev_event_id e) \<in> completed_set (dp_dedup D')"
    with env show ?thesis by (auto simp: recorded_def s')
  qed
  show ?thesis
    unfolding record_inv_def
  proof (rule ballI)
    fix x assume "x \<in> set (sys_tasks s')"
    then have "x = (dl, p') \<or> x \<in> set (sys_tasks s)"
      by (auto simp: s' dest: set_update_subset_insert[THEN subsetD])
    with inv env' rec mono show "case x of (dl, p) \<Rightarrow>
        (\<forall>e. envelope_of p = Some e \<longrightarrow>
           envelope_parse json (dl_raw dl) = Inr e \<and> ev_agent_id e = dl_agent dl) \<and>
        (past_record p \<longrightarrow> recorded json s' dl)"
      by (auto simp: record_inv_def intro: recorded_mono)
  qed
qed

lemma available_dedup [simp]: "dp_dedup (snd (available a D)) = dp_dedup D"
  by (auto simp: available_def ensure_state_eq split: option.splits)

lemma forget_dedup [simp]: "dp_dedup (dispatcher_apply_changes cs D) = dp_dedup D"
  by (simp add: dispatcher_apply_changes_def)

lemma record_inv_step:
  assumes "sys_step json store_ok A s s'" and inv: "record_inv json s"
  shows "record_inv json s'"
  using assms(1)
proof (rule sys_stepE)
  assume "task_step json store_ok s s'"
  then show ?thesis using inv by (rule record_inv_work)
qed (use inv in \<open>auto simp: record_inv_def recorded_def envelope_of_def\<close>)

lemma record_inv_init: "sys_init s \<Longrightarrow> record_inv json s"
  by (simp add: sys_init_def record_inv_def)

interpretation records: invariant sys_init "sys_step json store_ok A" "record_inv json" for json A
  by unfold_locales (auto intro: record_inv_init record_inv_step)

text \<open>C10. While the store works, a delivery is acknowledged only when its event is recorded.\<close>

theorem acked_is_recorded:
  assumes "sys_reachable json store_ok A s" and "(dl, Finished (Acked b)) \<in> set (sys_tasks s)"
  shows "\<exists>e. envelope_parse json (dl_raw dl) = Inr e \<and>
     is_completed True (dp_dedup (sys_disp s)) (dl_agent dl) (ev_event_id e) = Inr True"
proof -
  have "recorded json s dl"
    using records.inv_reachable[OF assms(1)] assms(2) by (fastforce simp: record_inv_def)
  then show ?thesis by (auto simp: recorded_def dedup.lookup_ok)
qed

theorem acked_is_recorded_witness:
  "\<exists>s. sched_run demo_json (demo_run 10) (demo_system demo_config) = Some s \<and>
     is_completed True (dp_dedup (sys_disp s)) demo_id ''e'' = Inr True"
proof -
  obtain s where s: "sched_run demo_json (demo_run 10) (demo_system demo_config) = Some s"
    "sys_tasks s = [(demo_delivery, Finished (Acked True))]"
    by (rule demo_finished)
  have "sys_reachable demo_json store_ok UNIV s"
    using s(1) by (rule demo_run_reachable) (simp add: store_ok_def)
  from acked_is_recorded[OF this, of demo_delivery True] s show ?thesis by (auto simp: demo_parse)
qed

section \<open>Serial agents: one handler run per event\<close>

definition spawn_key :: "spawn_request \<Rightarrow> string \<times> string" where
  "spawn_key r = (snd (sp_env r ! 0), snd (sp_env r ! 1))"

definition is_spawn :: "agent_id \<Rightarrow> string \<Rightarrow> effect \<Rightarrow> bool" where
  "is_spawn a e eff = (case eff of Spawn r \<Rightarrow> spawn_key r = (as_str a, e) | _ \<Rightarrow> False)"

definition spawns :: "agent_id \<Rightarrow> string \<Rightarrow> dsys \<Rightarrow> nat" where
  "spawns a e s = count_where (\<lambda>(j, eff). is_spawn a e eff) (sys_log s)"

lemma spawn_key_command [simp]: "spawn_key (handler_command dl cx) = (as_str (dl_agent dl), event_of cx)"
  by (simp add: spawn_key_def handler_command_def)

text \<open>The context of a task whose handler was spawned and not yet recorded, or about to be spawned.\<close>

fun spawned_ctx :: "pc \<Rightarrow> dispatch_ctx option" where
  "spawned_ctx (Running cx pid) = Some cx"
| "spawned_ctx (Exited cx) = Some cx"
| "spawned_ctx p = None"

fun pending_ctx :: "pc \<Rightarrow> dispatch_ctx option" where
  "pending_ctx (Missed cx) = Some cx"
| "pending_ctx (Claimed cx) = Some cx"
| "pending_ctx p = None"

lemma spawned_holds: "spawned_ctx p = Some cx \<Longrightarrow> holds p \<noteq> None"
  by (cases p) (auto simp: holds_def)

lemma pending_holds: "pending_ctx p = Some cx \<Longrightarrow> holds p \<noteq> None"
  by (cases p) (auto simp: holds_def)

lemma completed_step:
  assumes "advance json an D dl p = Some (D', p', es)" and "store_ok an"
  shows "completed_set (dp_dedup D') =
     completed_set (dp_dedup D) \<union> (case p of Exited cx \<Rightarrow> {(dl_agent dl, event_of cx)} | _ \<Rightarrow> {})"
  using assms
  by (cases p)
    (auto simp: enter_def check_completed_eq claim_def spawn_handler_def reap_def record_completion_eq
      ack_delivery_def Let_def store_ok_def dedup.mark_completes
      dest!: ensure_state_sel take_permit_sel split: sum.splits prod.splits option.splits if_splits)

lemma spawned_step:
  assumes "advance json an D dl p = Some (D', p', es)" and "spawned_ctx p = Some cx"
  shows "spawned_ctx p' = Some cx \<or> p = Exited cx"
  using assms by (cases p) (auto simp: reap_def Let_def)

lemma pending_step:
  assumes "advance json an D dl p = Some (D', p', es)" and "lookup_ok an" and "pending_ctx p' = Some cx"
  shows "pending_ctx p = Some cx \<or> (dl_agent dl, event_of cx) \<notin> completed_set (dp_dedup D)"
  using assms
  by (cases p)
    (auto simp: enter_def check_completed_eq dedup_hit_for_def claim_def spawn_handler_def reap_def
      record_completion_eq ack_delivery_def Let_def lookup_ok_def
      split: sum.splits prod.splits option.splits if_splits)

lemma spawn_step:
  assumes "advance json an D dl p = Some (D', p', es)"
  shows "count_where (is_spawn a e) es =
     of_bool (\<exists>cx. p = Claimed cx \<and> spawned_ctx p' = Some cx \<and> dl_agent dl = a \<and> event_of cx = e)"
  using assms
  by (cases p)
    (auto simp: is_spawn_def enter_def check_completed_eq claim_def spawn_handler_def reap_def
      record_completion_eq ack_delivery_def Let_def lookup_log_def mark_log_def
      split: sum.splits prod.splits option.splits if_splits)

definition serial_ok :: "agent_id \<Rightarrow> dsys \<Rightarrow> bool" where
  "serial_ok a s =
     (\<forall>e. spawns a e s \<le> 1 \<and>
        (spawns a e s = 0 \<or> (a, e) \<in> completed_set (dp_dedup (sys_disp s)) \<or>
         (\<exists>j < length (sys_tasks s). dl_agent (fst (sys_tasks s ! j)) = a \<and>
            map_option event_of (spawned_ctx (snd (sys_tasks s ! j))) = Some e)) \<and>
        (\<forall>j < length (sys_tasks s). dl_agent (fst (sys_tasks s ! j)) = a \<longrightarrow>
            map_option event_of (pending_ctx (snd (sys_tasks s ! j))) = Some e \<longrightarrow>
            (a, e) \<notin> completed_set (dp_dedup (sys_disp s))))"

lemma bex_set_nth: "(\<exists>x \<in> set xs. P x) \<longleftrightarrow> (\<exists>j < length xs. P (xs ! j))"
  by (metis in_set_conv_nth)

lemma serial_ok_alt:
  "serial_ok a s \<longleftrightarrow>
     (\<forall>e. spawns a e s \<le> 1 \<and>
        (spawns a e s = 0 \<or> (a, e) \<in> completed_set (dp_dedup (sys_disp s)) \<or>
         (\<exists>x \<in> set (sys_tasks s). dl_agent (fst x) = a \<and>
            map_option event_of (spawned_ctx (snd x)) = Some e)) \<and>
        (\<forall>x \<in> set (sys_tasks s). dl_agent (fst x) = a \<longrightarrow>
            map_option event_of (pending_ctx (snd x)) = Some e \<longrightarrow>
            (a, e) \<notin> completed_set (dp_dedup (sys_disp s))))"
  unfolding serial_ok_def all_set_conv_all_nth bex_set_nth by (rule refl)

definition serial_inv :: "agent_id set \<Rightarrow> dsys \<Rightarrow> bool" where
  "serial_inv A s =
     (\<forall>a \<in> A. (\<exists>c. get (dp_registry (sys_disp s)) a = Some c \<and> max_concurrency c = 1) \<longrightarrow> serial_ok a s)"

lemma one_holder:
  assumes "holding a s \<le> 1" and "i < length (sys_tasks s)" and "j < length (sys_tasks s)"
    and "dl_agent (fst (sys_tasks s ! i)) = a" and "dl_agent (fst (sys_tasks s ! j)) = a"
    and "holds (snd (sys_tasks s ! i)) \<noteq> None" and "holds (snd (sys_tasks s ! j)) \<noteq> None"
  shows "i = j"
proof (rule ccontr)
  assume "i \<noteq> j"
  with assms(2-7) have "2 \<le> holding a s"
    unfolding holding_def
    by (cases "i < j")
      (auto simp: case_prod_unfold intro: count_where_two[of i j] count_where_two[of j i])
  with assms(1) show False by simp
qed

lemma serial_ok_work:
  assumes "task_step json store_ok s s'" and one: "holding a s \<le> 1" and inv: "serial_ok a s"
  shows "serial_ok a s'"
proof -
  from assms(1) obtain i dl p an D' p' es where s': "s' = s\<lparr>sys_disp := D',
      sys_tasks := (sys_tasks s)[i := (dl, p')], sys_log := sys_log s @ map (Pair i) es\<rparr>"
    and i: "i < length (sys_tasks s)" "sys_tasks s ! i = (dl, p)" and ok: "store_ok an"
    and adv: "advance json an (sys_disp s) dl p = Some (D', p', es)"
    by (rule task_stepE)
  let ?C = "completed_set (dp_dedup (sys_disp s))" and ?C' = "completed_set (dp_dedup D')"
  note comp = completed_step[OF adv ok]
  have uniq: "j = i" if "j < length (sys_tasks s)" "dl_agent (fst (sys_tasks s ! j)) = a"
      "holds (snd (sys_tasks s ! j)) \<noteq> None" "dl_agent dl = a" "holds p \<noteq> None" for j
    using one_holder[OF one that(1) i(1) that(2) _ that(3)] that(4,5) i(2) by simp
  have count: "spawns a e s' = spawns a e s + of_bool (\<exists>cx. p = Claimed cx \<and>
      spawned_ctx p' = Some cx \<and> dl_agent dl = a \<and> event_of cx = e)" for e
  proof -
    have "spawns a e s' = spawns a e s + count_where (is_spawn a e) es"
      by (simp add: spawns_def s' count_where_def filter_map o_def)
    then show ?thesis by (simp add: spawn_step[OF adv])
  qed
  show ?thesis
    unfolding serial_ok_def
  proof (intro allI conjI impI)
    fix e
    have fresh: "spawns a e s = 0" if "p = Claimed cx" "dl_agent dl = a" "event_of cx = e" for cx
    proof -
      have "(a, e) \<notin> ?C" using inv i that by (fastforce simp: serial_ok_def)
      moreover have "map_option event_of (spawned_ctx (snd (sys_tasks s ! j))) \<noteq> Some e"
        if "j < length (sys_tasks s)" "dl_agent (fst (sys_tasks s ! j)) = a" for j
        using uniq[OF that] spawned_holds[of "snd (sys_tasks s ! j)"] \<open>p = Claimed cx\<close> \<open>dl_agent dl = a\<close> i(2)
        by (auto simp: holds_def)
      ultimately show ?thesis using inv unfolding serial_ok_def by blast
    qed
    show "spawns a e s' \<le> 1"
      using inv fresh count[of e] by (cases "spawns a e s' = spawns a e s") (auto simp: serial_ok_def)
    show "spawns a e s' = 0 \<or> (a, e) \<in> completed_set (dp_dedup (sys_disp s')) \<or>
       (\<exists>j < length (sys_tasks s'). dl_agent (fst (sys_tasks s' ! j)) = a \<and>
          map_option event_of (spawned_ctx (snd (sys_tasks s' ! j))) = Some e)"
    proof (cases "spawns a e s = 0")
      case True
      with count[of e] i show ?thesis
        by (cases "spawns a e s' = 0") (auto simp: s' intro!: exI[of _ i])
    next
      case False
      from inv have "spawns a e s = 0 \<or> (a, e) \<in> ?C \<or>
          (\<exists>j < length (sys_tasks s). dl_agent (fst (sys_tasks s ! j)) = a \<and>
             map_option event_of (spawned_ctx (snd (sys_tasks s ! j))) = Some e)"
        by (simp add: serial_ok_def)
      with False consider "(a, e) \<in> ?C"
        | j where "j < length (sys_tasks s)" "dl_agent (fst (sys_tasks s ! j)) = a"
            "map_option event_of (spawned_ctx (snd (sys_tasks s ! j))) = Some e"
        by auto
      then show ?thesis
      proof cases
        case 1
        then show ?thesis by (simp add: s' comp)
      next
        case (2 j)
        show ?thesis
        proof (cases "j = i")
          case True
          with 2 i obtain cx where "spawned_ctx p = Some cx" "event_of cx = e" "dl_agent dl = a" by auto
          with spawned_step[OF adv] i comp show ?thesis
            by (fastforce simp: s' intro!: exI[of _ i])
        next
          case False
          with 2 show ?thesis by (auto simp: s' intro!: exI[of _ j])
        qed
      qed
    qed
    fix j assume j: "j < length (sys_tasks s')" "dl_agent (fst (sys_tasks s' ! j)) = a"
      "map_option event_of (pending_ctx (snd (sys_tasks s' ! j))) = Some e"
    show "(a, e) \<notin> completed_set (dp_dedup (sys_disp s'))"
    proof (cases "j = i")
      case True
      with j i obtain cx where cx: "pending_ctx p' = Some cx" "event_of cx = e" "dl_agent dl = a"
        by (auto simp: s')
      from pending_step[OF adv store_ok_lookup[OF ok] cx(1)] cx inv i have "(a, e) \<notin> ?C"
        by (fastforce simp: serial_ok_def)
      moreover from adv cx(1) have "?C' = ?C"
        unfolding comp by (cases p) (auto simp: record_completion_eq)
      ultimately show ?thesis by (simp add: s')
    next
      case False
      with j have old: "j < length (sys_tasks s)" "dl_agent (fst (sys_tasks s ! j)) = a"
          "map_option event_of (pending_ctx (snd (sys_tasks s ! j))) = Some e"
        by (auto simp: s')
      with inv have "(a, e) \<notin> ?C" unfolding serial_ok_def by blast
      moreover have "p \<noteq> Exited cx \<or> dl_agent dl \<noteq> a" for cx
        using uniq[OF old(1,2)] old(3) False by (auto simp: holds_def dest: pending_holds)
      ultimately show ?thesis by (auto simp: s' comp split: pc.splits)
    qed
  qed
qed

lemma serial_inv_step:
  assumes step: "sys_step json store_ok A s s'" and base: "permit_inv s \<and> limit_inv A s"
    and inv: "serial_inv A s"
  shows "serial_inv A s'"
proof -
  have reg: "get (dp_registry (sys_disp s')) a = get (dp_registry (sys_disp s)) a" if "a \<in> A" for a
    using step
    by (rule sys_stepE)
      (use that in \<open>auto elim!: task_stepE dest: advance_registry simp: dispatcher_apply_changes_def
        available_def ensure_state_eq split: option.splits\<close>)
  show ?thesis
    unfolding serial_inv_def
  proof (intro ballI impI)
    fix a assume a: "a \<in> A"
      and "\<exists>c. get (dp_registry (sys_disp s')) a = Some c \<and> max_concurrency c = 1"
    with reg[OF a] obtain c where c: "get (dp_registry (sys_disp s)) a = Some c" "max_concurrency c = 1"
      by auto
    with base a holding_bound[of s A a c] have one: "holding a s \<le> 1" by simp
    have old: "serial_ok a s" using inv a c by (auto simp: serial_inv_def)
    from step show "serial_ok a s'"
    proof (rule sys_stepE)
      assume "task_step json store_ok s s'"
      then show ?thesis using one old by (rule serial_ok_work)
    next
      fix dl assume s': "s' = s\<lparr>sys_tasks := sys_tasks s @ [(dl, Entered)]\<rparr>"
      show ?thesis
        using old by (simp add: s' serial_ok_alt spawns_def)
    qed (use old in \<open>simp_all add: serial_ok_alt spawns_def\<close>)
  qed
qed

lemma serial_inv_init: "sys_init s \<Longrightarrow> serial_inv A s"
  by (simp add: sys_init_def serial_inv_def serial_ok_def spawns_def)

interpretation serial: strengthened_invariant sys_init "sys_step json store_ok A"
    "\<lambda>s. permit_inv s \<and> limit_inv A s" "serial_inv A" for json A
  by unfold_locales
    (auto intro: permit_inv_init limit_inv_init serial_inv_init permit_inv_step limit_inv_step serial_inv_step)

lemma serial_bound:
  assumes "sys_reachable json store_ok A s" and "a \<in> A"
    and "get (dp_registry (sys_disp s)) a = Some c" and "max_concurrency c = DEFAULT_CONCURRENCY"
  shows "spawns a e s \<le> 1"
  using serial.extra_reachable[OF assms(1)] assms(2-4)
  by (auto simp: serial_inv_def serial_ok_def DEFAULT_CONCURRENCY_def)

text \<open>
  C1. For an agent with the default concurrency of one, a working store and no reconfiguration, the
  handler of an event is spawned once at most, however often the event is delivered.
\<close>

theorem serial_at_most_once:
  assumes "sys_reachable json store_ok A s" and "a \<in> A"
    and "get (dp_registry (sys_disp s)) a = Some c" and "max_concurrency c = DEFAULT_CONCURRENCY"
  shows "spawns a e s \<le> 1"
  using assms by (rule serial_bound)

theorem serial_at_most_once_witness:
  "\<exists>s. sched_run demo_json (demo_run 10) (demo_system demo_config) = Some s \<and> spawns demo_id ''e'' s \<le> 1"
proof -
  obtain s where s: "sched_run demo_json (demo_run 10) (demo_system demo_config) = Some s"
    "get (dp_registry (sys_disp s)) demo_id = Some demo_config"
    by (rule demo_finished)
  have "sys_reachable demo_json store_ok UNIV s"
    using s(1) by (rule demo_run_reachable) (simp add: store_ok_def)
  from serial_at_most_once[OF this UNIV_I s(2)] s(1) show ?thesis
    by (simp add: demo_config_def DEFAULT_CONCURRENCY_def)
qed

end
