(* ===== verification/Daemon_System.thy ===== *)
theory Daemon_System
  imports Daemon Dispatch_History
begin

text \<open>
  The running daemon as one system: the dispatch tasks, the pull loops of the relay, the control
  operations and the shutdown (\<open>src/main.rs\<close>, \<open>src/control.rs\<close>, \<open>src/relay.rs\<close>, \<open>src/dispatcher.rs\<close>), interleaved.
  A control operation is cut where the code cuts it: its registry half is atomic under the registry's
  mutation lock, then the dispatcher forgets the changed agents, then the relay takes the changes one by
  one, awaiting the server for each consumer it binds.  The shutdown first aborts the pull loops, then takes the lock on the set of dispatch tasks and
  keeps it until the last task has been joined, while control operations may still run.

  The dispatcher of this system is the interleaved dispatcher of \<open>Dispatch_System\<close>: every step is a step,
  or a short sequence of steps, of that machine, so what is proved there holds of the daemon.
\<close>

section \<open>The registry half of a request\<close>

fun registry_half :: "toml_codec \<Rightarrow> io_env \<Rightarrow> request \<Rightarrow> registry \<Rightarrow> change list option \<times> registry" where
  "registry_half tc io (Register c) r =
     (case register tc io c r of (Inl e, r') \<Rightarrow> (None, r') | (Inr _, r') \<Rightarrow> (Some [Added c], r'))"
| "registry_half tc io (Update c) r =
     (case update tc io c r of (Inl e, r') \<Rightarrow> (None, r') | (Inr _, r') \<Rightarrow> (Some [Updated c], r'))"
| "registry_half tc io (Unregister a) r =
     (case unregister io a r of (Inl e, r') \<Rightarrow> (None, r') | (Inr _, r') \<Rightarrow> (Some [Removed a], r'))"
| "registry_half tc io Reload r =
     (case reload tc io r of (Inl e, r') \<Rightarrow> (None, r') | (Inr cs, r') \<Rightarrow> (Some cs, r'))"
| "registry_half tc io List r = (None, r)"
| "registry_half tc io Status r = (None, r)"

text \<open>A request that nothing interrupts is its registry half and then its changes.\<close>

lemma handle_request_halves:
  "snd (handle_request tc se env w rq) =
     (case registry_half tc (ce_io env) rq (dm_registry w) of
        (None, r) \<Rightarrow> set_registry r w
      | (Some cs, r) \<Rightarrow> daemon_apply env cs (set_registry r w))"
  by (cases rq)
    (auto simp: handle_register_def handle_update_def handle_unregister_def handle_reload_def set_registry_def
      split: prod.splits sum.splits)

section \<open>The system\<close>

text \<open>\<open>Binding\<close>: the relay awaits the consumer of an agent for a change, with the changes after it.\<close>

datatype ctl_pc =
    To_Dispatcher "change list"
  | To_Relay "change list"
  | Binding change agent_id u32 "change list"

datatype phase = Serving | Stopping | Draining | Exited

record fsys =
  fs_daemon :: daemon
  fs_tasks :: "(delivery \<times> pc) list"
  fs_log :: "(nat \<times> effect) list"
  fs_ctl :: "ctl_pc list"
  fs_phase :: phase

text \<open>The deliveries a step of a pull loop has handed over.\<close>

definition handed_over :: "relay \<Rightarrow> relay \<Rightarrow> delivery list" where
  "handed_over rl rl' = drop (length (rl_dispatch_tasks rl)) (rl_dispatch_tasks rl')"

definition changed_ids :: "change list \<Rightarrow> agent_id set" where
  "changed_ids cs = change_agent_id ` set cs"

abbreviation fs_disp :: "fsys \<Rightarrow> dispatcher" where
  "fs_disp s \<equiv> dm_disp (fs_daemon s)"

abbreviation fs_relay :: "fsys \<Rightarrow> relay" where
  "fs_relay s \<equiv> dm_relay (fs_daemon s)"

text \<open>\<open>A\<close>: the agents the control plane leaves alone.  \<open>Ok\<close>: the answers to the dispatch tasks that occur.\<close>

inductive full_step :: "toml_codec \<Rightarrow> (string \<Rightarrow> sval option) \<Rightarrow> (answers \<Rightarrow> bool) \<Rightarrow> agent_id set \<Rightarrow> fsys \<Rightarrow> fsys \<Rightarrow> bool"
  for tc :: toml_codec and json :: "string \<Rightarrow> sval option" and Ok :: "answers \<Rightarrow> bool" and A :: "agent_id set" where
  full_task: "fs_phase s \<noteq> Exited \<Longrightarrow> i < length (fs_tasks s) \<Longrightarrow> fs_tasks s ! i = (dl, p) \<Longrightarrow> Ok an \<Longrightarrow>
     advance json an (fs_disp s) dl p = Some (D', p', es) \<Longrightarrow>
     full_step tc json Ok A s
       (s\<lparr>fs_daemon := (fs_daemon s)\<lparr>dm_disp := D'\<rparr>, fs_tasks := (fs_tasks s)[i := (dl, p')],
          fs_log := fs_log s @ map (Pair i) es\<rparr>)"
| full_loop: "fs_phase s \<noteq> Exited \<Longrightarrow> (fs_phase s = Draining \<Longrightarrow> \<not> la_lock la) \<Longrightarrow>
     loop_step la h (fs_disp s, fs_relay s) = Some (D', rl') \<Longrightarrow>
     full_step tc json Ok A s
       (s\<lparr>fs_daemon := (fs_daemon s)\<lparr>dm_disp := D', dm_relay := rl'\<rparr>,
          fs_tasks := fs_tasks s @ map (\<lambda>dl. (dl, Entered)) (handed_over (fs_relay s) rl')\<rparr>)"
| full_mutate: "fs_phase s \<noteq> Exited \<Longrightarrow> valid_request rq \<Longrightarrow>
     registry_half tc io rq (dp_registry (fs_disp s)) = (chs, r') \<Longrightarrow>
     (\<And>cs. chs = Some cs \<Longrightarrow> changed_ids cs \<inter> A = {}) \<Longrightarrow>
     full_step tc json Ok A s
       (s\<lparr>fs_daemon := set_registry r' (fs_daemon s),
          fs_ctl := fs_ctl s @ (case chs of None \<Rightarrow> [] | Some cs \<Rightarrow> [To_Dispatcher cs])\<rparr>)"
| full_forget: "fs_phase s \<noteq> Exited \<Longrightarrow> i < length (fs_ctl s) \<Longrightarrow> fs_ctl s ! i = To_Dispatcher cs \<Longrightarrow>
     full_step tc json Ok A s
       (s\<lparr>fs_daemon := (fs_daemon s)\<lparr>dm_disp := dispatcher_apply_changes cs (fs_disp s)\<rparr>,
          fs_ctl := (fs_ctl s)[i := To_Relay cs]\<rparr>)"
| full_begin: "fs_phase s \<noteq> Exited \<Longrightarrow> i < length (fs_ctl s) \<Longrightarrow> fs_ctl s ! i = To_Relay (x # xs) \<Longrightarrow>
     begin_change (get (dp_registry (fs_disp s))) x (fs_relay s) = (rl', bind) \<Longrightarrow>
     full_step tc json Ok A s
       (s\<lparr>fs_daemon := (fs_daemon s)\<lparr>dm_relay := rl'\<rparr>,
          fs_ctl := (fs_ctl s)[i := (case bind of None \<Rightarrow> To_Relay xs | Some (a, mc) \<Rightarrow> Binding x a mc xs)]\<rparr>)"
| full_end: "fs_phase s \<noteq> Exited \<Longrightarrow> i < length (fs_ctl s) \<Longrightarrow> fs_ctl s ! i = Binding x a mc xs \<Longrightarrow>
     full_step tc json Ok A s
       (s\<lparr>fs_daemon := (fs_daemon s)\<lparr>dm_relay := end_change (bind_consumer env a mc (fs_relay s)) x (fs_relay s)\<rparr>,
          fs_ctl := (fs_ctl s)[i := To_Relay xs]\<rparr>)"
| full_edit: "fs_phase s \<noteq> Exited \<Longrightarrow> disk_ok d \<Longrightarrow>
     full_step tc json Ok A s (s\<lparr>fs_daemon := with_directory d (fs_daemon s)\<rparr>)"
| full_event: "fs_phase s \<noteq> Exited \<Longrightarrow>
     full_step tc json Ok A s
       (s\<lparr>fs_daemon := (fs_daemon s)\<lparr>dm_connected := fst (on_nats_event url ev (dm_connected (fs_daemon s)))\<rparr>\<rparr>)"
| full_stop: "fs_phase s = Serving \<Longrightarrow>
     full_step tc json Ok A s
       (s\<lparr>fs_daemon := (fs_daemon s)\<lparr>dm_relay := stop_pulling (fs_relay s)\<rparr>, fs_phase := Stopping\<rparr>)"
| full_drain: "fs_phase s = Stopping \<Longrightarrow> full_step tc json Ok A s (s\<lparr>fs_phase := Draining\<rparr>)"
| full_exit: "fs_phase s = Draining \<Longrightarrow> \<forall>(dl, p) \<in> set (fs_tasks s). \<exists>out. p = Finished out \<Longrightarrow>
     full_step tc json Ok A s (s\<lparr>fs_phase := Exited\<rparr>)"

inductive_cases full_stepE: "full_step tc json Ok A s s'"

text \<open>The daemon as \<open>run\<close> starts it.\<close>

definition full_init :: "fsys \<Rightarrow> bool" where
  "full_init s =
     ((\<exists>tc (env :: unit start_env) p config.
         daemon_start tc env p = Inr (config, fs_daemon s) \<and> disk_ok (st_disk env)) \<and>
      fs_tasks s = [] \<and> fs_log s = [] \<and> fs_ctl s = [] \<and> fs_phase s = Serving)"

text \<open>The running daemon right after its start.\<close>

definition fresh_system :: "daemon \<Rightarrow> fsys" where
  "fresh_system w = \<lparr>fs_daemon = w, fs_tasks = [], fs_log = [], fs_ctl = [], fs_phase = Serving\<rparr>"

lemma fresh_system_init:
  "daemon_start tc (env :: unit start_env) p = Inr (config, w) \<Longrightarrow> disk_ok (st_disk env) \<Longrightarrow> full_init (fresh_system w)"
  by (auto simp: full_init_def fresh_system_def)

abbreviation full_reachable where
  "full_reachable tc json Ok A \<equiv> reachable full_init (full_step tc json Ok A)"

section \<open>The registry keeps its shape\<close>

definition registry_sound :: "registry \<Rightarrow> bool" where
  "registry_sound r = (memory_ok r \<and> sound_registry r)"

lemma registry_ok_registry_sound: "registry_ok tc r \<Longrightarrow> registry_sound r"
  by (simp add: registry_sound_def registry_ok_memory registry_ok_sound)

lemma registry_sound_insert:
  assumes "registry_sound r" "valid_config c" "disk_ok d"
  shows "registry_sound (r\<lparr>reg_disk := d, reg_agents := AList.update (agent_id c) c (reg_agents r)\<rparr>)"
  using assms
  by (auto simp: registry_sound_def memory_ok_def keyed_def sound_registry_def get_def split: if_splits)

lemma registry_sound_delete:
  assumes "registry_sound r" "disk_ok d"
  shows "registry_sound (r\<lparr>reg_disk := d, reg_agents := AList.delete a (reg_agents r)\<rparr>)"
  using assms
  by (auto simp: registry_sound_def memory_ok_def keyed_def sound_registry_def get_def split: if_splits)

lemma registry_sound_disk:
  "registry_sound r \<Longrightarrow> disk_ok d \<Longrightarrow> registry_sound (r\<lparr>reg_disk := d\<rparr>)"
  by (simp add: registry_sound_def memory_ok_def sound_registry_def get_def)

lemma registry_sound_disk_ok: "registry_sound r \<Longrightarrow> disk_ok (reg_disk r)"
  by (simp add: registry_sound_def memory_ok_def)

lemma registry_half_sound:
  assumes "registry_sound r" "valid_request rq" "registry_half tc io rq r = (chs, r')"
  shows "registry_sound r'"
proof (cases rq)
  case (Register c)
  with assms show ?thesis
    by (auto simp: register_def valid_config_def split: sum.splits prod.splits if_splits
        intro!: registry_sound_insert registry_sound_disk
        dest: persist_disk_ok[OF registry_sound_disk_ok[OF assms(1)]])
next
  case (Update c)
  with assms show ?thesis
    by (auto simp: update_def valid_config_def split: sum.splits prod.splits if_splits
        intro!: registry_sound_insert registry_sound_disk
        dest: persist_disk_ok[OF registry_sound_disk_ok[OF assms(1)]])
next
  case (Unregister a)
  have "disk_ok ((reg_disk r)\<lparr>files := AList.delete (file_name a) (files (reg_disk r))\<rparr>)"
    using registry_sound_disk_ok[OF assms(1)] by (auto simp: disk_ok_def)
  with Unregister assms registry_sound_delete show ?thesis
    by (auto simp: unregister_def split: if_splits)
next
  case Reload
  show ?thesis
  proof (cases "reload tc io r")
    case (Pair res r1)
    show ?thesis
    proof (cases res)
      case (Inl e)
      with Pair obtain d where "load tc io (reg_dir r) (reg_disk r) = (Inl e, d)" "r1 = r\<lparr>reg_disk := d\<rparr>"
        by (auto simp: reload_def split: sum.splits prod.splits)
      with load_disk_ok[of tc io "reg_dir r" "reg_disk r" "Inl e" d] registry_sound_disk_ok[OF assms(1)]
        registry_sound_disk[OF assms(1)] Reload assms(3) Pair Inl
      show ?thesis by auto
    next
      case (Inr cs)
      with Pair edited_reload(1)[of r tc io cs r1] assms(1) have "registry_ok tc r1"
        by (simp add: registry_sound_def)
      with registry_ok_registry_sound Reload assms(3) Pair Inr show ?thesis by auto
    qed
  qed
qed (use assms in auto)

text \<open>An agent that no reported change names keeps its registration.\<close>

lemma registry_half_frame:
  assumes "registry_sound r" "registry_half tc io rq r = (chs, r')"
    and "\<And>cs. chs = Some cs \<Longrightarrow> a \<notin> changed_ids cs"
  shows "get r' a = get r a"
proof (cases rq)
  case (Register c)
  with assms show ?thesis
    by (auto simp: changed_ids_def dest!: register_get split: sum.splits prod.splits)
next
  case (Update c)
  with assms show ?thesis
    by (auto simp: changed_ids_def dest!: update_get split: sum.splits prod.splits)
next
  case (Unregister b)
  with assms show ?thesis
    by (auto simp: changed_ids_def dest!: unregister_get split: sum.splits prod.splits)
next
  case Reload
  show ?thesis
  proof (cases "reload tc io r")
    case (Pair res r1)
    show ?thesis
    proof (cases res)
      case (Inl e)
      with Pair Reload assms(2) show ?thesis
        by (auto simp: reload_def get_def split: sum.splits prod.splits)
    next
      case (Inr cs)
      with Pair Reload assms(2,3) have a: "r1 = r'" "a \<notin> change_agent_id ` set cs"
        by (auto simp: changed_ids_def)
      have k: "keyed (reg_agents r)" "memory_ok r" using assms(1) by (simp_all add: registry_sound_def memory_ok_def)
      note e = edited_reload[OF k(2) Pair[unfolded Inr]]
      have "fold patch cs (map_of (reg_agents r)) = map_of (reg_agents r1)"
        unfolding e(3) by (rule reload_changes_patch[OF k(1) e(2)])
      with fold_patch_other[OF a(2), of "map_of (reg_agents r)"] a(1) show ?thesis by (simp add: get_def)
    qed
  qed
qed (use assms in auto)

section \<open>The dispatcher inside the daemon\<close>

definition dispatcher_view :: "fsys \<Rightarrow> dsys" where
  "dispatcher_view s = \<lparr>sys_disp = fs_disp s, sys_tasks = fs_tasks s, sys_log = fs_log s\<rparr>"

fun ctl_changes :: "ctl_pc \<Rightarrow> change list" where
  "ctl_changes (To_Dispatcher cs) = cs"
| "ctl_changes (To_Relay cs) = cs"
| "ctl_changes (Binding x a mc cs) = x # cs"

definition full_inv :: "agent_id set \<Rightarrow> fsys \<Rightarrow> bool" where
  "full_inv A s =
     (registry_sound (dp_registry (fs_disp s)) \<and> pulls_ok (fs_relay s) \<and>
      (\<forall>c \<in> set (fs_ctl s). changed_ids (ctl_changes c) \<inter> A = {}))"

lemma daemon_start_disp:
  assumes "daemon_start tc env p = Inr (config, w)"
  shows "dp_states (dm_disp w) = [] \<and> dp_sems (dm_disp w) = []"
proof -
  obtain D where D: "open_state tc env config = Inr D" "start_relay env config D = Inr w"
    using assms by (rule daemon_start_parts)
  then have "dp_states D = [] \<and> dp_sems D = []"
    by (auto simp: open_state_def dispatcher_new_def split: sum.splits prod.splits)
  with start_relay_fields[OF D(2)] show ?thesis by simp
qed

lemma daemon_start_ok:
  assumes "daemon_start tc env p = Inr (config, w)" and "disk_ok (st_disk env)"
  shows "registry_ok tc (dm_registry w)" "pulls_ok (dm_relay w)"
  using daemon_start_daemon_ok[OF assms] by (simp_all add: daemon_ok_def)

lemma full_inv_init: "full_init s \<Longrightarrow> full_inv A s"
  by (auto simp: full_init_def full_inv_def dest: daemon_start_ok intro: registry_ok_registry_sound)

lemma full_init_sys: "full_init s \<Longrightarrow> sys_init (dispatcher_view s)"
  by (auto simp: full_init_def sys_init_def dispatcher_view_def
      dest: daemon_start_disp daemon_start_ok(1) intro: registry_ok_sound)

lemma loop_step_effect:
  assumes "loop_step la h (D, rl) = Some (D', rl')"
  shows "(D' = snd (available (pl_agent (rl_loops rl ! h)) D) \<and> handed_over rl rl' = []) \<or>
     (D' = D \<and> (handed_over rl rl' = [] \<or>
        la_lock la \<and> (\<exists>dl. handed_over rl rl' = [dl])))"
  using assms
  by (cases "pl_pc (rl_loops rl ! h)")
    (auto simp: loop_step_def handed_over_def poll_slots_def
      split: if_splits option.splits fetch_answer.splits item_answer.splits prod.splits)

lemma available_registry: "dp_registry (snd (available a D)) = dp_registry D"
  by (auto simp: available_def dest: ensure_state_sel split: option.splits prod.splits)

lemma changed_ids_Cons: "changed_ids (x # xs) = insert (change_agent_id x) (changed_ids xs)"
  by (simp add: changed_ids_def)

lemma with_directory_sel [simp]:
  "dm_disp (with_directory d w) = (dm_disp w)\<lparr>dp_registry := (dm_registry w)\<lparr>reg_disk := d\<rparr>\<rparr>"
  "dm_relay (with_directory d w) = dm_relay w"
  by (simp_all add: with_directory_def set_registry_def)

lemma full_inv_ctl:
  "full_inv A s \<Longrightarrow> i < length (fs_ctl s) \<Longrightarrow> changed_ids (ctl_changes (fs_ctl s ! i)) \<inter> A = {}"
  by (simp add: full_inv_def)

lemma full_inv_ctl_update:
  "full_inv A s \<Longrightarrow> changed_ids (ctl_changes c) \<inter> A = {} \<Longrightarrow>
     \<forall>c \<in> set ((fs_ctl s)[i := c]). changed_ids (ctl_changes c) \<inter> A = {}"
  using set_update_subset_insert[of "fs_ctl s" i c] by (auto simp: full_inv_def)

lemma full_inv_step:
  assumes "full_step tc json Ok A s s'" and "full_inv A s"
  shows "full_inv A s'"
  using assms(1)
proof cases
  case (full_task i dl p an D' p' es)
  with assms(2) advance_registry[OF full_task(6)] show ?thesis by (simp add: full_inv_def)
next
  case (full_loop la h D' rl')
  from full_loop(4) have "pulls_ok rl'"
    using pulls_ok_loop[of la h "(fs_disp s, fs_relay s)" "(D', rl')"] assms(2) by (simp add: full_inv_def)
  moreover have "dp_registry D' = dp_registry (fs_disp s)"
    using loop_step_effect[OF full_loop(4)] available_registry by auto
  ultimately show ?thesis using assms(2) full_loop(1) by (simp add: full_inv_def)
next
  case (full_mutate rq io chs r')
  with assms(2) registry_half_sound[OF _ full_mutate(3,4)] show ?thesis
    by (auto simp: full_inv_def set_registry_def split: option.splits)
next
  case (full_forget i cs)
  then have "changed_ids (ctl_changes (To_Relay cs)) \<inter> A = {}" using full_inv_ctl[OF assms(2), of i] by simp
  from full_inv_ctl_update[OF assms(2) this, of i] show ?thesis
    using assms(2) full_forget(1) by (simp add: full_inv_def dispatcher_apply_changes_def)
next
  case (full_begin i x xs rl' bind)
  then have "changed_ids (ctl_changes (case bind of None \<Rightarrow> To_Relay xs | Some (a, mc) \<Rightarrow> Binding x a mc xs)) \<inter> A = {}"
    using full_inv_ctl[OF assms(2), of i] by (auto simp: changed_ids_Cons split: option.splits)
  from full_inv_ctl_update[OF assms(2) this, of i] show ?thesis
    using assms(2) full_begin(1) pulls_ok_begin[of "fs_relay s" "get (dp_registry (fs_disp s))" x] full_begin(5)
    by (simp add: full_inv_def)
next
  case (full_end i x a mc xs env)
  then have "changed_ids (ctl_changes (To_Relay xs)) \<inter> A = {}"
    using full_inv_ctl[OF assms(2), of i] by (simp add: changed_ids_Cons)
  from full_inv_ctl_update[OF assms(2) this, of i] show ?thesis
    using assms(2) full_end(1) by (simp add: full_inv_def pulls_ok_end)
next
  case (full_edit d)
  with assms(2) registry_sound_disk show ?thesis by (auto simp: full_inv_def)
next
  case full_stop
  with assms(2) pulls_ok_stop_pulling show ?thesis by (auto simp: full_inv_def)
qed (use assms(2) in \<open>auto simp: full_inv_def\<close>)

lemma full_step_sys1:
  assumes "full_step tc json Ok A s s'" and inv: "full_inv A s"
  shows "dispatcher_view s' = dispatcher_view s \<or> sys_step json Ok A (dispatcher_view s) (dispatcher_view s')"
  using assms(1)
proof cases
  case (full_task i dl p an D' p' es)
  then have "task_step json Ok (dispatcher_view s) (dispatcher_view s')"
    using task_stepI[of i "dispatcher_view s" dl p Ok an json D' p' es] by (simp add: dispatcher_view_def)
  then show ?thesis by (blast intro: work)
next
  case (full_loop la h D' rl')
  from loop_step_effect[OF full_loop(4)] show ?thesis
  proof (elim disjE conjE exE)
    assume "D' = snd (available (pl_agent (rl_loops (fs_relay s) ! h)) (fs_disp s))" "handed_over (fs_relay s) rl' = []"
    with full_loop(1) poll[of json Ok A "dispatcher_view s"] show ?thesis
      by (auto simp: dispatcher_view_def)
  next
    assume "D' = fs_disp s" "handed_over (fs_relay s) rl' = []"
    with full_loop(1) show ?thesis by (simp add: dispatcher_view_def)
  next
    fix dl assume "D' = fs_disp s" "handed_over (fs_relay s) rl' = [dl]"
    with full_loop(1) arrive[of json Ok A "dispatcher_view s" dl] show ?thesis
      by (auto simp: dispatcher_view_def)
  qed
next
  case (full_mutate rq io chs r')
  have "registry_sound r'" "\<forall>a \<in> A. get r' a = get (dp_registry (fs_disp s)) a"
    using inv registry_half_sound[OF _ full_mutate(3,4)] registry_half_frame[OF _ full_mutate(4)] full_mutate(5)
    by (auto simp: full_inv_def)
  then have "sys_step json Ok A (dispatcher_view s) ((dispatcher_view s)\<lparr>sys_disp := (fs_disp s)\<lparr>dp_registry := r'\<rparr>\<rparr>)"
    using reconfigure[of r' A "dispatcher_view s" json Ok] by (simp add: dispatcher_view_def registry_sound_def)
  with full_mutate(1) show ?thesis by (auto simp: dispatcher_view_def set_registry_def)
next
  case (full_forget i cs)
  with full_inv_ctl[OF inv, of i] have "changed_ids cs \<inter> A = {}" by simp
  then have "\<forall>c \<in> set cs. change_agent_id c \<notin> A" by (auto simp: changed_ids_def)
  with full_forget(1) forget[of cs A json Ok "dispatcher_view s"] show ?thesis
    by (auto simp: dispatcher_view_def)
next
  case (full_edit d)
  have "get ((dp_registry (fs_disp s))\<lparr>reg_disk := d\<rparr>) a = get (dp_registry (fs_disp s)) a" for a
    by (simp add: get_def)
  moreover have "registry_sound ((dp_registry (fs_disp s))\<lparr>reg_disk := d\<rparr>)"
    using inv full_edit(3) registry_sound_disk by (simp add: full_inv_def)
  ultimately show ?thesis
    using full_edit(1) reconfigure[of "(dp_registry (fs_disp s))\<lparr>reg_disk := d\<rparr>" A "dispatcher_view s" json Ok]
    by (auto simp: dispatcher_view_def registry_sound_def)
qed (auto simp: dispatcher_view_def)

lemma full_step_sys:
  "full_step tc json Ok A s s' \<Longrightarrow> full_inv A s \<Longrightarrow>
     (sys_step json Ok A)\<^sup>*\<^sup>* (dispatcher_view s) (dispatcher_view s')"
  by (drule (1) full_step_sys1) auto

interpretation fulls: simulation full_init "full_step tc json Ok A" "full_inv A" sys_init "sys_step json Ok A"
    dispatcher_view for tc json Ok A
  by unfold_locales (auto intro: full_inv_init full_inv_step full_init_sys full_step_sys)

lemmas full_reachable_inv = fulls.inv_reachable
lemmas full_reachable_sys = fulls.simulated

section \<open>The shutdown\<close>

lemma full_step_from_exited: "full_step tc json Ok A s s' \<Longrightarrow> fs_phase s \<noteq> Exited"
  by (erule full_stepE) auto

interpretation exits: invariant full_init "full_step tc json Ok A"
    "\<lambda>s. fs_phase s = Exited \<longrightarrow> all_done (dispatcher_view s)" for tc json Ok A
proof unfold_locales
  fix s s' assume st: "full_step tc json Ok A s s'"
  then show "fs_phase s' = Exited \<longrightarrow> all_done (dispatcher_view s')"
    using full_step_from_exited[OF st] by (elim full_stepE) (auto simp: all_done_def dispatcher_view_def)
qed (simp add: full_init_def)

text \<open>While the daemon drains, no delivery is added and no step undoes the work of a task.\<close>

lemma view_tasks [simp]: "sys_tasks (dispatcher_view s) = fs_tasks s" "sys_disp (dispatcher_view s) = fs_disp s"
  by (simp_all add: dispatcher_view_def)

lemma work_left_tasks: "work_left (dispatcher_view s) = sum_list (map (\<lambda>(dl, p). pc_rank p) (fs_tasks s))"
  by (simp add: work_left_def)

lemma draining_step:
  assumes "full_step tc json Ok A s s'" and "fs_phase s = Draining"
  shows "map fst (fs_tasks s') = map fst (fs_tasks s) \<and> work_left (dispatcher_view s') \<le> work_left (dispatcher_view s) \<and>
     fs_phase s' \<in> {Draining, Exited}"
  using assms(1)
proof cases
  case (full_task i dl p an D' p' es)
  then have "map fst ((fs_tasks s)[i := (dl, p')]) = map fst (fs_tasks s)"
    by (metis fst_conv list_update_id map_update)
  moreover have "work_left (dispatcher_view s') < work_left (dispatcher_view s)"
    unfolding work_left_tasks using full_task advance_rank[OF full_task(6)]
    by (auto intro!: sum_list_update_less)
  ultimately show ?thesis using full_task(1) assms(2) by simp
next
  case (full_loop la h D' rl')
  from loop_step_effect[OF full_loop(4)] full_loop(3) assms(2) have "handed_over (fs_relay s) rl' = []" by auto
  with full_loop(1) assms(2) show ?thesis by (simp add: work_left_tasks)
qed (use assms(2) in \<open>auto simp: work_left_tasks\<close>)

lemma draining_steps:
  assumes "(full_step tc json Ok A)\<^sup>*\<^sup>* s s'" and "fs_phase s = Draining"
  shows "map fst (fs_tasks s') = map fst (fs_tasks s) \<and> work_left (dispatcher_view s') \<le> work_left (dispatcher_view s) \<and>
     fs_phase s' \<in> {Draining, Exited}"
  using assms(1)
proof (induction rule: rtranclp_induct)
  case (step t u)
  then have "fs_phase t = Draining" using full_step_from_exited[OF step(2)] by auto
  from draining_step[OF step(2) this] step(3) show ?case by simp
qed (use assms(2) in simp)

text \<open>The tasks of the daemon are those of the dispatcher inside it.\<close>

lemma task_step_full:
  assumes "task_step json Ok (dispatcher_view s) t" and "fs_phase s \<noteq> Exited"
  shows "\<exists>s'. full_step tc json Ok A s s' \<and> dispatcher_view s' = t \<and> fs_phase s' = fs_phase s \<and> fs_relay s' = fs_relay s"
  using assms(1)
proof cases
  case (task_stepI i dl p an D' p' es)
  then have "full_step tc json Ok A s
     (s\<lparr>fs_daemon := (fs_daemon s)\<lparr>dm_disp := D'\<rparr>, fs_tasks := (fs_tasks s)[i := (dl, p')],
        fs_log := fs_log s @ map (Pair i) es\<rparr>)" (is "full_step tc json Ok A s ?s'")
    using full_task[OF assms(2), of i dl p Ok an json D' p' es tc A] by simp
  moreover have "dispatcher_view ?s' = t" using task_stepI(1) by (simp add: dispatcher_view_def)
  ultimately show ?thesis by (intro exI[of _ ?s']) simp
qed

lemma task_steps_full:
  assumes "(task_step json Ok)\<^sup>*\<^sup>* (dispatcher_view s) t" and "fs_phase s \<noteq> Exited"
  shows "\<exists>s'. (full_step tc json Ok A)\<^sup>*\<^sup>* s s' \<and> dispatcher_view s' = t \<and> fs_phase s' = fs_phase s \<and>
     fs_relay s' = fs_relay s"
  using assms(1)
proof (induction rule: rtranclp_induct)
  case base
  then show ?case by blast
next
  case (step t u)
  then obtain s' where s': "(full_step tc json Ok A)\<^sup>*\<^sup>* s s'" "dispatcher_view s' = t" "fs_phase s' = fs_phase s"
    "fs_relay s' = fs_relay s" by blast
  from task_step_full[of json Ok s' u tc A] step(2) s' assms(2) show ?case
    by (metis rtranclp.rtrancl_into_rtrancl)
qed

lemma stop_and_drain:
  assumes "fs_phase s \<noteq> Exited"
  shows "\<exists>s'. (full_step tc json Ok A)\<^sup>*\<^sup>* s s' \<and> fs_phase s' = Draining \<and> fs_tasks s' = fs_tasks s \<and>
     fs_disp s' = fs_disp s \<and> fs_log s' = fs_log s"
proof -
  have drain: "\<exists>s'. (full_step tc json Ok A)\<^sup>*\<^sup>* s s' \<and> fs_phase s' = Draining \<and> fs_tasks s' = fs_tasks s \<and>
     fs_disp s' = fs_disp s \<and> fs_log s' = fs_log s"
    if "fs_phase s = Stopping" for s
    using full_drain[OF that, of tc json Ok A] by (intro exI[of _ "s\<lparr>fs_phase := Draining\<rparr>"]) auto
  show ?thesis
  proof (cases "fs_phase s")
    case Serving
    let ?t = "s\<lparr>fs_daemon := (fs_daemon s)\<lparr>dm_relay := stop_pulling (fs_relay s)\<rparr>, fs_phase := Stopping\<rparr>"
    have "full_step tc json Ok A s ?t" using Serving by (rule full_stop)
    moreover obtain u where "(full_step tc json Ok A)\<^sup>*\<^sup>* ?t u" "fs_phase u = Draining" "fs_tasks u = fs_tasks s"
        "fs_disp u = fs_disp s" "fs_log u = fs_log s"
      using drain[of ?t] by auto
    ultimately show ?thesis by (meson converse_rtranclp_into_rtranclp)
  qed (use assms drain in auto)
qed

section \<open>The exit can be reached\<close>

lemma shutdown_possible:
  assumes "full_reachable tc json Ok A s" and "fs_phase s \<noteq> Exited" and "Ok an"
  shows "\<exists>s'. (full_step tc json Ok A)\<^sup>*\<^sup>* s s' \<and> fs_phase s' = Exited \<and>
     map fst (fs_tasks s') = map fst (fs_tasks s) \<and> all_done (dispatcher_view s')"
proof -
  obtain t where t: "(full_step tc json Ok A)\<^sup>*\<^sup>* s t" "fs_phase t = Draining" "fs_tasks t = fs_tasks s"
    using stop_and_drain[OF assms(2)] by blast
  have rt: "full_reachable tc json Ok A t" by (rule reachable_steps[OF t(1) assms(1)])
  obtain v where v: "(task_step json Ok)\<^sup>*\<^sup>* (dispatcher_view t) v" "all_done v"
    using progress.goal_reached[OF task_progress] assms(3) permits.inv_reachable[OF full_reachable_sys[OF rt]] by blast
  obtain u where u: "(full_step tc json Ok A)\<^sup>*\<^sup>* t u" "dispatcher_view u = v" "fs_phase u = Draining"
    using task_steps_full[OF v(1), of tc A] t(2) by auto
  have fin: "\<forall>(dl, p) \<in> set (fs_tasks u). \<exists>out. p = Finished out"
    using v(2) unfolding u(2)[symmetric] by (simp add: all_done_def)
  have "full_step tc json Ok A u (u\<lparr>fs_phase := Exited\<rparr>)" by (rule full_exit[OF u(3) fin])
  with t(1) u(1) have "(full_step tc json Ok A)\<^sup>*\<^sup>* s (u\<lparr>fs_phase := Exited\<rparr>)" by simp
  moreover have "map fst (fs_tasks u) = map fst (fs_tasks s)" using draining_steps[OF u(1) t(2)] t(3) by simp
  moreover have "all_done (dispatcher_view (u\<lparr>fs_phase := Exited\<rparr>))" using fin by (simp add: all_done_def)
  ultimately show ?thesis by (intro exI[of _ "u\<lparr>fs_phase := Exited\<rparr>"]) simp
qed

section \<open>A sample\<close>

text \<open>Steps of one pull loop, by evaluation.\<close>

fun run_loop :: "nat \<Rightarrow> loop_answers list \<Rightarrow> fsys \<Rightarrow> fsys option" where
  "run_loop h [] s = Some s"
| "run_loop h (la # las) s =
     (case loop_step la h (fs_disp s, fs_relay s) of
        None \<Rightarrow> None
      | Some (D', rl') \<Rightarrow>
          run_loop h las (s\<lparr>fs_daemon := (fs_daemon s)\<lparr>dm_disp := D', dm_relay := rl'\<rparr>,
            fs_tasks := fs_tasks s @ map (\<lambda>dl. (dl, Entered)) (handed_over (fs_relay s) rl')\<rparr>))"

lemma run_loop_steps:
  "run_loop h las s = Some s' \<Longrightarrow> fs_phase s = Serving \<Longrightarrow>
     (full_step tc json Ok A)\<^sup>*\<^sup>* s s' \<and> fs_phase s' = Serving"
proof (induction h las s rule: run_loop.induct)
  case (2 h la las s)
  then obtain D' rl' where l: "loop_step la h (fs_disp s, fs_relay s) = Some (D', rl')"
    by (auto split: option.splits)
  from full_loop[OF _ _ l, of tc json Ok A] "2.prems"(2) have
    "full_step tc json Ok A s (s\<lparr>fs_daemon := (fs_daemon s)\<lparr>dm_disp := D', dm_relay := rl'\<rparr>,
       fs_tasks := fs_tasks s @ map (\<lambda>dl. (dl, Entered)) (handed_over (fs_relay s) rl')\<rparr>)" by simp
  with "2.IH"[OF l refl] "2.prems" l show ?case by (auto intro: converse_rtranclp_into_rtranclp)
qed simp

definition demo_fetch :: "loop_answers list" where
  "demo_fetch =
     replicate 4 \<lparr>la_fetch = Fetch_Ok,
       la_item = Item ''m'' \<lparr>mi_stream_sequence = 7, mi_consumer_sequence = 5, mi_delivered = 1\<rparr>, la_lock = True\<rparr>"

text \<open>The daemon of \<open>demo_start_on rows\<close> after its pull loop has polled, fetched, received and handed over one message.\<close>

lemma demo_disk_start: "disk_ok (st_disk (demo_start_on rows))"
  by (simp add: demo_start_on_def disk_ok_def demo_disk_def wf_map_def)

lemma default_ttl: "unat (dedup_ttl default_config) = 1209600"
  by (simp add: dedup_ttl_min default_config_def)

text \<open>Its pull loop at that point.\<close>

definition demo_loop :: pull_loop where
  "demo_loop =
     \<lparr>pl_agent = demo_id, pl_consumer = consumer_config_of demo_id 300 1, pl_pc = Receiving 1, pl_aborted = False\<rparr>"

lemma demo_fetched:
  assumes young: "\<forall>(k, t) \<in> set rows. \<not> t <s saturating_sub 10 (dedup_ttl default_config)"
  obtains w s where "daemon_start demo_codec (demo_start_on rows) None = Inr (default_config, w)"
    "\<And>tc json Ok A. (full_step tc json Ok A)\<^sup>*\<^sup>* (fresh_system w) s" "fs_phase s = Serving"
    "fs_tasks s = [(demo_delivery, Entered)]" "get (dp_registry (fs_disp s)) demo_id = Some demo_config"
    "dp_dedup (fs_disp s) = rows" "dp_max_event_bytes (fs_disp s) = max_event_bytes default_config"
    "dp_states (fs_disp s) = [(demo_id, \<lparr>st_permits = 0, st_in_flight = {}\<rparr>)]"
    "dp_sems (fs_disp s) = [\<lparr>sem_capacity = 1, sem_available = 1\<rparr>]" "fs_log s = []"
    "rl_loops (fs_relay s) = [demo_loop]" "rl_dispatch_tasks (fs_relay s) = [demo_delivery]"
proof -
  obtain w where w: "daemon_start demo_codec (demo_start_on rows) None = Inr (default_config, w)"
    using demo_starts by blast
  obtain D where D: "open_state demo_codec (demo_start_on rows) default_config = Inr D"
      "start_relay (demo_start_on rows) default_config D = Inr w"
    using w by (rule daemon_start_parts)
  have kept: "filter (\<lambda>(k, t). \<not> t <s saturating_sub 10 (dedup_ttl default_config)) rows = rows"
    using young by (simp add: filter_id_conv)
  from D(1) have reg: "reg_agents (dp_registry D) = [(demo_id, demo_config)]" "dp_states D = []" "dp_sems D = []"
      "dp_max_event_bytes D = max_event_bytes default_config" "dp_dedup D = rows"
    by (auto simp: open_state_def registry_load_def demo_loads demo_start_on_def dispatcher_new_def
        dedup_open_def with_connection_def purge_expired_def kept Let_def split: sum.splits prod.splits if_splits)
  have snap: "snapshot (dp_registry D) = [demo_config]" by (simp add: snapshot_def values_of_def reg)
  have relay: "rl_loops (dm_relay w) =
      [\<lparr>pl_agent = demo_id, pl_consumer = consumer_config_of demo_id 300 1, pl_pc = Polling, pl_aborted = False\<rparr>]"
      "rl_dispatch_tasks (dm_relay w) = []" "dm_disp w = D"
    using start_relay_fields[OF D(2)]
    by (simp_all add: sync_consumers_def snap bind_and_pull_def bind_consumer_def start_pull_def log_line_def
        relay_new_def default_config_def demo_start_on_def demo_config_def Let_def)
  have "\<exists>s. run_loop 0 demo_fetch (fresh_system w) = Some s \<and> fs_tasks s = [(demo_delivery, Entered)] \<and>
      get (dp_registry (fs_disp s)) demo_id = Some demo_config \<and> dp_dedup (fs_disp s) = rows \<and>
      dp_max_event_bytes (fs_disp s) = max_event_bytes default_config \<and>
      dp_states (fs_disp s) = [(demo_id, \<lparr>st_permits = 0, st_in_flight = {}\<rparr>)] \<and>
      dp_sems (fs_disp s) = [\<lparr>sem_capacity = 1, sem_available = 1\<rparr>] \<and> fs_log s = [] \<and>
      rl_loops (fs_relay s) = [demo_loop] \<and> rl_dispatch_tasks (fs_relay s) = [demo_delivery]"
    by (simp add: demo_loop_def fresh_system_def demo_fetch_def replicate_numeral loop_step_def poll_slots_def available_def get_def
        relay reg ensure_state_def demo_config_def handed_over_def delivery_of_def demo_delivery_def demo_id_def Let_def)
  then obtain s where s: "run_loop 0 demo_fetch (fresh_system w) = Some s" "fs_tasks s = [(demo_delivery, Entered)]"
      "get (dp_registry (fs_disp s)) demo_id = Some demo_config" "dp_dedup (fs_disp s) = rows"
      "dp_max_event_bytes (fs_disp s) = max_event_bytes default_config"
      "dp_states (fs_disp s) = [(demo_id, \<lparr>st_permits = 0, st_in_flight = {}\<rparr>)]"
      "dp_sems (fs_disp s) = [\<lparr>sem_capacity = 1, sem_available = 1\<rparr>]" "fs_log s = []"
      "rl_loops (fs_relay s) = [demo_loop]" "rl_dispatch_tasks (fs_relay s) = [demo_delivery]" by blast
  have "fs_phase (fresh_system w) = Serving" by (simp add: fresh_system_def)
  from run_loop_steps[OF s(1) this] that[OF w _ _ s(2-)] show ?thesis by blast
qed

lemma demo_registered:
  assumes "daemon_start demo_codec (demo_start_on rows) None = Inr (default_config, w)"
  shows "get (dp_registry (dm_disp w)) demo_id = Some demo_config"
proof -
  obtain D where D: "open_state demo_codec (demo_start_on rows) default_config = Inr D"
      "start_relay (demo_start_on rows) default_config D = Inr w"
    using assms by (rule daemon_start_parts)
  from D(1) have "reg_agents (dp_registry D) = [(demo_id, demo_config)]"
    by (auto simp: open_state_def registry_load_def demo_loads demo_start_on_def dispatcher_new_def
        dedup_open_def with_connection_def Let_def split: sum.splits prod.splits if_splits)
  moreover have "dm_disp w = D" using start_relay_fields[OF D(2)] by simp
  ultimately show ?thesis by (simp add: get_def)
qed

lemma demo_row_young: "\<forall>(k, t) \<in> set [((''a'', ''e''), 5)]. \<not> t <s saturating_sub 10 (dedup_ttl default_config)"
  by (simp add: expired_iff default_ttl)

lemma demo_full:
  obtains s where "\<And>json Ok A. full_reachable demo_codec json Ok A s" "fs_phase s = Serving"
    "fs_tasks s = [(demo_delivery, Entered)]" "get (dp_registry (fs_disp s)) demo_id = Some demo_config"
proof -
  obtain w s where s: "daemon_start demo_codec demo_start None = Inr (default_config, w)"
      "\<And>tc json Ok A. (full_step tc json Ok A)\<^sup>*\<^sup>* (fresh_system w) s" "fs_phase s = Serving"
      "fs_tasks s = [(demo_delivery, Entered)]" "get (dp_registry (fs_disp s)) demo_id = Some demo_config"
    using demo_row_young by (rule demo_fetched) blast
  from fresh_system_init[OF s(1) demo_disk_start] s that show ?thesis
    by (blast intro: reachable_steps reachable_init)
qed

section \<open>Properties\<close>

text \<open>
  C3. Inside the running daemon, with pull loops, control operations, edits of the directory and the shutdown
  interleaved at will, the dispatcher only ever makes the steps of the interleaved dispatcher.
\<close>

theorem daemon_refines_dispatcher:
  assumes "full_reachable tc json Ok A s"
  shows "sys_reachable json Ok A (dispatcher_view s)"
  using assms by (rule full_reachable_sys)

theorem daemon_refines_dispatcher_witness:
  "\<exists>s. sys_reachable demo_json store_ok UNIV s \<and> sys_tasks s = [(demo_delivery, Entered)]"
proof -
  obtain s where s: "\<And>json Ok A. full_reachable demo_codec json Ok A s" "fs_tasks s = [(demo_delivery, Entered)]"
    by (rule demo_full) blast
  from daemon_refines_dispatcher[OF s(1)] s(2) show ?thesis
    by (intro exI[of _ "dispatcher_view s"]) simp
qed

text \<open>
  C15. In every state of the running daemon the registrations in memory are valid and keyed by their id, the
  entries of the table of pull loops are exactly the live loops, and for an agent that is not reconfigured
  at most \<open>max_concurrency\<close> handlers run.
\<close>

theorem daemon_invariant:
  assumes "full_reachable tc json Ok A s"
  shows "(\<forall>a c. get (dp_registry (fs_disp s)) a = Some c \<longrightarrow> agent_id c = a \<and> valid_config c) \<and>
     (\<forall>a h. map_of (rl_pulls (fs_relay s)) a = Some h \<longleftrightarrow> h < length (rl_loops (fs_relay s)) \<and>
        pl_agent (rl_loops (fs_relay s) ! h) = a \<and> \<not> pl_aborted (rl_loops (fs_relay s) ! h)) \<and>
     (\<forall>a \<in> A. \<forall>c. get (dp_registry (fs_disp s)) a = Some c \<longrightarrow>
        handlers_running a (dispatcher_view s) \<le> unat (max_concurrency c))"
proof -
  have inv: "full_inv A s" using assms by (rule full_reachable_inv)
  have "handlers_running a (dispatcher_view s) \<le> unat (max_concurrency c)"
    if "a \<in> A" "get (dp_registry (fs_disp s)) a = Some c" for a c
    using running_bound[OF full_reachable_sys[OF assms] that(1)] that(2) by simp
  with inv show ?thesis
    by (auto simp: full_inv_def registry_sound_def sound_registry_def pulls_ok_def)
qed

theorem daemon_invariant_witness:
  "\<exists>s. full_reachable demo_codec demo_json store_ok UNIV s \<and> fs_tasks s = [(demo_delivery, Entered)] \<and>
     handlers_running demo_id (dispatcher_view s) \<le> 1"
proof -
  obtain s where s: "\<And>json Ok A. full_reachable demo_codec json Ok A s" "fs_tasks s = [(demo_delivery, Entered)]"
      "get (dp_registry (fs_disp s)) demo_id = Some demo_config"
    by (rule demo_full) blast
  from daemon_invariant[OF s(1)[of demo_json store_ok UNIV]] s(3)
  have "handlers_running demo_id (dispatcher_view s) \<le> unat (max_concurrency demo_config)" by blast
  with s(1,2) show ?thesis by (auto simp: demo_config_def)
qed

text \<open>
  C14. The daemon exits only when every delivery it has taken is resolved: no handler is abandoned.  While it
  drains, whatever the control plane and the loops still do, no delivery is added and no work is undone.
\<close>

theorem exit_waits_for_handlers:
  assumes "full_reachable tc json Ok A s" and "fs_phase s = Draining" and "(full_step tc json Ok A)\<^sup>*\<^sup>* s s'"
  shows "map fst (fs_tasks s') = map fst (fs_tasks s) \<and> work_left (dispatcher_view s') \<le> work_left (dispatcher_view s) \<and>
     (fs_phase s' = Exited \<longrightarrow> all_done (dispatcher_view s'))"
  using draining_steps[OF assms(3,2)] exits.inv_reachable[OF reachable_steps[OF assms(3,1)]] by simp

theorem exit_waits_for_handlers_witness:
  "\<exists>s s'. full_reachable demo_codec demo_json (\<lambda>_. True) UNIV s \<and> fs_phase s = Draining \<and>
     (full_step demo_codec demo_json (\<lambda>_. True) UNIV)\<^sup>*\<^sup>* s s' \<and> map fst (fs_tasks s') = [demo_delivery]"
proof -
  obtain s where s: "\<And>json Ok A. full_reachable demo_codec json Ok A s" "fs_phase s = Serving"
      "fs_tasks s = [(demo_delivery, Entered)]"
    by (rule demo_full) blast
  obtain t where t: "(full_step demo_codec demo_json (\<lambda>_. True) UNIV)\<^sup>*\<^sup>* s t" "fs_phase t = Draining"
      "fs_tasks t = fs_tasks s"
    using stop_and_drain[of s demo_codec demo_json "\<lambda>_. True" UNIV] s(2) by auto
  have r: "full_reachable demo_codec demo_json (\<lambda>_. True) UNIV t" by (rule reachable_steps[OF t(1) s(1)])
  have "map fst (fs_tasks t) = [demo_delivery]" using t(3) s(3) by simp
  with exit_waits_for_handlers[OF r t(2) rtranclp.rtrancl_refl] r t(2) show ?thesis
    by (intro exI[of _ t]) blast
qed

text \<open>
  C13. A shutdown completes: from every state of the running daemon, when the handlers exit, the daemon comes
  to its exit with every delivery it had taken resolved.
\<close>

theorem shutdown_completes:
  assumes "full_reachable tc json (\<lambda>_. True) A s" and "fs_phase s \<noteq> Exited"
  shows "\<exists>s'. (full_step tc json (\<lambda>_. True) A)\<^sup>*\<^sup>* s s' \<and> fs_phase s' = Exited \<and>
     map fst (fs_tasks s') = map fst (fs_tasks s) \<and> all_done (dispatcher_view s')"
  using assms TrueI by (rule shutdown_possible)

theorem shutdown_completes_witness:
  "\<exists>s s'. fs_phase s = Serving \<and> fs_tasks s = [(demo_delivery, Entered)] \<and>
     (full_step demo_codec demo_json (\<lambda>_. True) UNIV)\<^sup>*\<^sup>* s s' \<and> fs_phase s' = Exited \<and>
     map fst (fs_tasks s') = [demo_delivery] \<and> all_done (dispatcher_view s')"
proof -
  obtain s where s: "\<And>json Ok A. full_reachable demo_codec json Ok A s" "fs_phase s = Serving"
      "fs_tasks s = [(demo_delivery, Entered)]"
    by (rule demo_full) blast
  from shutdown_completes[OF s(1), of demo_json UNIV] s(2,3) show ?thesis by fastforce
qed

end
