(* ===== verification/Daemon_Restarts.thy ===== *)
theory Daemon_Restarts
  imports Daemon_System
begin

text \<open>
  What a completion promises for later: while the lookups of the store are answered, an event that is recorded as completed
  and that no task is about to hand to its handler is never handled again, in any interleaving
  (\<open>Dispatcher::dispatch\<close>); and since the rows of the store outlive the process (\<open>src/dedup.rs\<close>,
  \<open>run\<close> in \<open>src/main.rs\<close>), this holds across a crash or a restart at any point of the run.
\<close>

section \<open>Settled events\<close>

text \<open>The event is recorded, and no task of its agent is between its lookup and its spawn.\<close>

definition settled :: "agent_id \<Rightarrow> string \<Rightarrow> dsys \<Rightarrow> bool" where
  "settled a e s =
     ((a, e) \<in> completed_set (dp_dedup (sys_disp s)) \<and>
      (\<forall>(dl, p) \<in> set (sys_tasks s). dl_agent dl = a \<longrightarrow> map_option event_of (pending_ctx p) \<noteq> Some e))"

lemma settled_work:
  assumes "task_step json lookup_ok s s'" and inv: "settled a e s"
  shows "settled a e s' \<and> spawns a e s' = spawns a e s"
proof -
  from assms(1) obtain i dl p an D' p' es where s': "s' = s\<lparr>sys_disp := D',
      sys_tasks := (sys_tasks s)[i := (dl, p')], sys_log := sys_log s @ map (Pair i) es\<rparr>"
    and i: "i < length (sys_tasks s)" "sys_tasks s ! i = (dl, p)" and ok: "lookup_ok an"
    and adv: "advance json an (sys_disp s) dl p = Some (D', p', es)"
    by (rule task_stepE)
  have "(dl, p) \<in> set (sys_tasks s)" using i by (metis nth_mem)
  with inv have p: "dl_agent dl = a \<longrightarrow> map_option event_of (pending_ctx p) \<noteq> Some e"
    by (auto simp: settled_def)
  have done_: "(a, e) \<in> completed_set (dp_dedup (sys_disp s))" using inv by (simp add: settled_def)
  have p': "map_option event_of (pending_ctx p') \<noteq> Some e" if "dl_agent dl = a"
    using pending_step[OF adv ok] p done_ that by fastforce
  have "x = (dl, p') \<or> x \<in> set (sys_tasks s)" if "x \<in> set (sys_tasks s')" for x
    using that by (auto simp: s' dest: set_update_subset_insert[THEN subsetD])
  then have "settled a e s'"
    using inv p' dedup_mono[OF adv] unfolding settled_def by (fastforce simp: s')
  moreover have "count_where (is_spawn a e) es = 0" using p by (auto simp: spawn_step[OF adv])
  then have "spawns a e s' = spawns a e s"
    by (simp add: spawns_def s' count_where_def filter_map o_def)
  ultimately show ?thesis by simp
qed

lemma settled_step:
  assumes "sys_step json lookup_ok A s s'" and inv: "settled a e s"
  shows "settled a e s' \<and> spawns a e s' = spawns a e s"
  using assms(1)
proof (rule sys_stepE)
  assume "task_step json lookup_ok s s'"
  then show ?thesis using inv by (rule settled_work)
qed (use inv in \<open>auto simp: settled_def spawns_def\<close>)

interpretation settles: invariant "\<lambda>s. settled a e s \<and> spawns a e s = n" "sys_step json lookup_ok A"
    "\<lambda>s. settled a e s \<and> spawns a e s = n" for json A a e n
  by unfold_locales (auto dest: settled_step)

section \<open>The rows a start keeps\<close>

lemma map_of_filter_kept: "map_of m k = Some v \<Longrightarrow> P (k, v) \<Longrightarrow> map_of (filter P m) k = Some v"
  by (induction m) (auto split: if_splits)

lemma start_rows_kept:
  assumes "daemon_start tc env p = Inr (config, w)" and "de_rows (st_dedup env) = Some rows"
  shows "dp_dedup (dm_disp w) =
     filter (\<lambda>(k, t). \<not> t <s saturating_sub (st_now env) (dedup_ttl config)) rows"
proof -
  obtain D where D: "open_state tc env config = Inr D" "start_relay env config D = Inr w"
    using assms(1) by (rule daemon_start_parts)
  with assms(2) show ?thesis
    by (auto simp: open_state_def dedup_open_def with_connection_def purge_expired_def
        dispatcher_new_def Let_def dest!: start_relay_fields
        split: option.splits if_splits sum.splits prod.splits)
qed

text \<open>A completion of the file that is not older than the time to live is in the store the daemon starts with.\<close>

lemma start_keeps_completion:
  assumes "daemon_start tc env p = Inr (config, w)" and "de_rows (st_dedup env) = Some rows"
    and "completed_at rows a e = Some t" and "unat t < 2 ^ 63" and "unat (st_now env) < 2 ^ 63"
    and "unat (st_now env) \<le> unat t + unat (dedup_ttl config)"
  shows "(a, e) \<in> completed_set (dp_dedup (dm_disp w))"
proof -
  note kept = start_rows_kept[OF assms(1,2)]
  have "\<not> t <s saturating_sub (st_now env) (dedup_ttl config)"
    using expired_iff[OF assms(5,4)] assms(6) by simp
  with map_of_filter_kept[of rows "(as_str a, e)" t] assms(3) show ?thesis
    by (auto simp: completed_set_def completed_at_def kept)
qed

lemma fresh_settled:
  assumes "(a, e) \<in> completed_set (dp_dedup (dm_disp w))"
  shows "settled a e (dispatcher_view (fresh_system w)) \<and> spawns a e (dispatcher_view (fresh_system w)) = 0"
  using assms by (simp add: settled_def spawns_def dispatcher_view_def fresh_system_def)

lemma full_steps_sys:
  "(full_step tc json Ok A)\<^sup>*\<^sup>* s s' \<Longrightarrow> full_inv A s \<Longrightarrow>
     (sys_step json Ok A)\<^sup>*\<^sup>* (dispatcher_view s) (dispatcher_view s')"
proof (induction rule: rtranclp_induct)
  case (step t u)
  have "full_inv A t" using fulls.inv_steps[OF step(1) step(4)] .
  from full_step_sys[OF step(2) this] step show ?case by (meson rtranclp_trans)
qed simp

lemma task_run_steps:
  "sched_run json (task i n) s = Some s' \<Longrightarrow> Ok demo_answers \<Longrightarrow> (task_step json Ok)\<^sup>*\<^sup>* s s'"
proof (induction n arbitrary: s)
  case (Suc n)
  then obtain t where t: "sched_step json (Do i demo_answers) s = Some t" "sched_run json (task i n) t = Some s'"
    by (auto split: option.splits)
  then have "task_step json Ok s t"
    using Suc.prems(2) by (auto intro: task_stepI split: if_splits prod.splits option.splits)
  with Suc.IH[OF t(2) Suc.prems(2)] show ?case by (rule converse_rtranclp_into_rtranclp[rotated])
qed simp

lemma sched_run_steps:
  "sched_run json evs s = Some s' \<Longrightarrow> \<forall>ev \<in> set evs. admissible Ok A ev \<Longrightarrow> (sys_step json Ok A)\<^sup>*\<^sup>* s s'"
proof (induction evs arbitrary: s)
  case (Cons ev evs)
  then obtain t where t: "sched_step json ev s = Some t" "sched_run json evs t = Some s'"
    by (auto split: option.splits)
  with Cons.IH[OF t(2)] Cons.prems(2) sched_step_sys[OF t(1), of Ok A] show ?case
    by (auto intro: converse_rtranclp_into_rtranclp)
qed simp

lemma store_ok_demo: "store_ok demo_answers"
  by (simp add: store_ok_def)

lemma demo_task_run:
  assumes "(full_step demo_codec demo_json Ok A)\<^sup>*\<^sup>* w t" and "fs_phase t = Serving"
    and "sched_run demo_json (task 0 n) (dispatcher_view t) = Some v" and "Ok demo_answers"
  shows "\<exists>u. (full_step demo_codec demo_json Ok A)\<^sup>*\<^sup>* w u \<and> dispatcher_view u = v \<and> fs_phase u = Serving"
proof -
  have "(task_step demo_json Ok)\<^sup>*\<^sup>* (dispatcher_view t) v"
    using assms(3,4) by (rule task_run_steps)
  from task_steps_full[OF this, of demo_codec A] assms(2)
  obtain u where "(full_step demo_codec demo_json Ok A)\<^sup>*\<^sup>* t u" "dispatcher_view u = v" "fs_phase u = fs_phase t" by auto
  with assms(1,2) show ?thesis by (metis rtranclp_trans)
qed

text \<open>
  Two lives of the sample daemon.  In the first the store is empty, so the handler runs and its completion is
  recorded; in the second the redelivered event is a hit.
\<close>

definition demo_rows :: dedup_store where
  "demo_rows = [((''a'', ''e''), 1000)]"

lemma demo_start_now [simp]: "st_now (demo_start_on rows) = 10" "de_rows (st_dedup (demo_start_on rows)) = Some rows"
  by (simp_all add: demo_start_on_def)

lemma demo_rows_young: "\<forall>(k, t) \<in> set demo_rows. \<not> t <s saturating_sub 10 (dedup_ttl default_config)"
  by (simp add: demo_rows_def expired_iff default_ttl)

lemma demo_first_life:
  assumes "Ok demo_answers"
  obtains w s where "daemon_start demo_codec (demo_start_on []) None = Inr (default_config, w)"
    "(full_step demo_codec demo_json Ok A)\<^sup>*\<^sup>* (fresh_system w) s"
    "fs_tasks s = [(demo_delivery, Finished (Acked True))]" "dp_dedup (fs_disp s) = demo_rows"
    "get (dp_registry (fs_disp s)) demo_id = Some demo_config" "spawns demo_id ''e'' (dispatcher_view s) = 1"
    "fs_phase s = Serving" "gate demo_json (fs_disp s) demo_delivery = Inr (demo_envelope, demo_config)"
proof -
  have "\<forall>(k, t) \<in> set []. \<not> t <s saturating_sub 10 (dedup_ttl default_config)" by simp
  then obtain w t where t: "daemon_start demo_codec (demo_start_on []) None = Inr (default_config, w)"
    "\<And>tc json Ok A. (full_step tc json Ok A)\<^sup>*\<^sup>* (fresh_system w) t" "fs_phase t = Serving"
    "fs_tasks t = [(demo_delivery, Entered)]" "get (dp_registry (fs_disp t)) demo_id = Some demo_config"
    "dp_dedup (fs_disp t) = []" "dp_max_event_bytes (fs_disp t) = max_event_bytes default_config"
    "dp_states (fs_disp t) = [(demo_id, \<lparr>st_permits = 0, st_in_flight = {}\<rparr>)]"
    "dp_sems (fs_disp t) = [\<lparr>sem_capacity = 1, sem_available = 1\<rparr>]" "fs_log t = []"
    by (rule demo_fetched) blast
  have gate: "gate demo_json (fs_disp t) demo_delivery = Inr (demo_envelope, demo_config)"
    by (simp add: gate_ok_iff demo_parse t(5,7)) (simp add: default_config_def demo_config_def)
  obtain v where v: "sched_run demo_json (task 0 10) (dispatcher_view t) = Some v"
      "sys_tasks v = [(demo_delivery, Finished (Acked True))]" "dp_dedup (sys_disp v) = demo_rows"
      "get (dp_registry (sys_disp v)) demo_id = Some demo_config" "spawns demo_id ''e'' v = 1"
      "dp_max_event_bytes (sys_disp v) = max_event_bytes default_config"
    using gate by (simp add: schedule_simps t demo_rows_def spawns_def count_where_def is_spawn_def dispatcher_view_def)
  from demo_task_run[of Ok, OF t(2,3) v(1) assms] obtain u where u:
      "(full_step demo_codec demo_json Ok A)\<^sup>*\<^sup>* (fresh_system w) u" "dispatcher_view u = v" "fs_phase u = Serving" by blast
  with v have "fs_tasks u = [(demo_delivery, Finished (Acked True))]" "dp_dedup (fs_disp u) = demo_rows"
      "get (dp_registry (fs_disp u)) demo_id = Some demo_config" "spawns demo_id ''e'' (dispatcher_view u) = 1"
      "dp_max_event_bytes (fs_disp u) = max_event_bytes default_config"
    by (simp_all flip: view_tasks)
  moreover from this(3,5) have "gate demo_json (fs_disp u) demo_delivery = Inr (demo_envelope, demo_config)"
    by (simp add: gate_ok_iff demo_parse) (simp add: default_config_def demo_config_def)
  ultimately show ?thesis using u(3) that[OF t(1) u(1)] by blast
qed

lemma demo_second_life:
  assumes "Ok demo_answers"
  obtains w s where "daemon_start demo_codec (demo_start_on demo_rows) None = Inr (default_config, w)"
    "(full_step demo_codec demo_json Ok A)\<^sup>*\<^sup>* (fresh_system w) s"
    "fs_tasks s = [(demo_delivery, Finished (Acked True))]" "dp_dedup (fs_disp s) = demo_rows"
    "get (dp_registry (fs_disp s)) demo_id = Some demo_config"
proof -
  obtain w t where t: "daemon_start demo_codec (demo_start_on demo_rows) None = Inr (default_config, w)"
    "\<And>tc json Ok A. (full_step tc json Ok A)\<^sup>*\<^sup>* (fresh_system w) t" "fs_phase t = Serving"
    "fs_tasks t = [(demo_delivery, Entered)]" "get (dp_registry (fs_disp t)) demo_id = Some demo_config"
    "dp_dedup (fs_disp t) = demo_rows" "dp_max_event_bytes (fs_disp t) = max_event_bytes default_config"
    "dp_states (fs_disp t) = [(demo_id, \<lparr>st_permits = 0, st_in_flight = {}\<rparr>)]"
    "dp_sems (fs_disp t) = [\<lparr>sem_capacity = 1, sem_available = 1\<rparr>]" "fs_log t = []"
    using demo_rows_young by (rule demo_fetched) blast
  have gate: "gate demo_json (fs_disp t) demo_delivery = Inr (demo_envelope, demo_config)"
    by (simp add: gate_ok_iff demo_parse t(5,7)) (simp add: default_config_def demo_config_def)
  obtain v where v: "sched_run demo_json (task 0 5) (dispatcher_view t) = Some v"
      "sys_tasks v = [(demo_delivery, Finished (Acked True))]" "dp_dedup (sys_disp v) = demo_rows"
      "get (dp_registry (sys_disp v)) demo_id = Some demo_config"
    using gate by (simp add: schedule_simps t demo_rows_def)
  from demo_task_run[of Ok, OF t(2,3) v(1) assms] obtain u where u:
      "(full_step demo_codec demo_json Ok A)\<^sup>*\<^sup>* (fresh_system w) u" "dispatcher_view u = v" by blast
  with v have "fs_tasks u = [(demo_delivery, Finished (Acked True))]" "dp_dedup (fs_disp u) = demo_rows"
      "get (dp_registry (fs_disp u)) demo_id = Some demo_config"
    by (simp_all flip: view_tasks)
  with that[OF t(1) u(1)] show ?thesis by blast
qed

lemma demo_exits:
  assumes "(full_step demo_codec demo_json Ok A)\<^sup>*\<^sup>* w s" and "fs_phase s \<noteq> Exited"
    and "fs_tasks s = [(dl, Finished out)]"
  shows "\<exists>u. (full_step demo_codec demo_json Ok A)\<^sup>*\<^sup>* w u \<and> fs_phase u = Exited \<and>
     dispatcher_view u = dispatcher_view s"
proof -
  obtain t where t: "(full_step demo_codec demo_json Ok A)\<^sup>*\<^sup>* s t" "fs_phase t = Draining"
      "fs_tasks t = fs_tasks s" "fs_disp t = fs_disp s" "fs_log t = fs_log s"
    using stop_and_drain[OF assms(2), of demo_codec demo_json Ok A] by blast
  have "full_step demo_codec demo_json Ok A t (t\<lparr>fs_phase := Exited\<rparr>)"
    using t(2) by (rule full_exit) (simp add: t(3) assms(3))
  with assms(1) t(1) have "(full_step demo_codec demo_json Ok A)\<^sup>*\<^sup>* w (t\<lparr>fs_phase := Exited\<rparr>)"
    by (meson rtranclp_trans rtranclp.rtrancl_into_rtrancl)
  moreover have "dispatcher_view (t\<lparr>fs_phase := Exited\<rparr>) = dispatcher_view s"
    by (simp add: dispatcher_view_def t(3-5))
  ultimately show ?thesis by (intro exI[of _ "t\<lparr>fs_phase := Exited\<rparr>"]) simp
qed

section \<open>Properties\<close>

text \<open>
  Once an event is recorded and no task is about to spawn its handler, the handler is never spawned again:
  in no interleaving, with any redeliveries, reconfigurations and forgotten states, whatever writes to the store fail.
\<close>

theorem settled_never_reruns:
  assumes "settled a e s" and "(sys_step json lookup_ok A)\<^sup>*\<^sup>* s s'"
  shows "settled a e s' \<and> spawns a e s' = spawns a e s"
  using settles.inv_steps[OF assms(2)] assms(1) by blast

theorem settled_never_reruns_witness:
  "\<exists>s s'. sched_run demo_json (demo_run 10) (demo_system demo_config) = Some s \<and> spawns demo_id ''e'' s = 1 \<and>
     sched_run demo_json (Deliver demo_delivery # task 1 5) s = Some s' \<and>
     sys_tasks s' = [(demo_delivery, Finished (Acked True)), (demo_delivery, Finished (Acked True))] \<and>
     spawns demo_id ''e'' s' = 1"
proof -
  let ?redeliver = "Deliver demo_delivery # task 1 5"
  obtain s s' where s: "sched_run demo_json (demo_run 10) (demo_system demo_config) = Some s"
    "settled demo_id ''e'' s" "spawns demo_id ''e'' s = 1" "sched_run demo_json ?redeliver s = Some s'"
    "sys_tasks s' = [(demo_delivery, Finished (Acked True)), (demo_delivery, Finished (Acked True))]"
    by (simp add: demo_run_def schedule_simps demo_config_def settled_def completed_set_def spawns_def
        count_where_def is_spawn_def)
  have "\<forall>ev \<in> set ?redeliver. admissible lookup_ok UNIV ev" by (simp add: lookup_ok_def)
  from settled_never_reruns[OF s(2) sched_run_steps[OF s(4) this]] s show ?thesis by auto
qed

text \<open>
  C6. Effectively once, across crashes and restarts: let a daemon with a working store acknowledge an event and be
  stopped at any later point of its run, and let another daemon start on the rows it left while the
  completion is not older than the time to live.  As long as the lookups in the store of the second daemon are
  answered (after a failed lookup the dispatcher goes on as on a miss), it does not spawn the handler of that
  event: whatever it is sent, however its tasks, loops and control operations interleave, whichever agents are
  reconfigured, and whatever of its writes to the store, of its spawns and of its acknowledgements fail.
\<close>

theorem acked_never_reruns:
  assumes "full_reachable tc json store_ok A s" and "(dl, Finished (Acked b)) \<in> set (fs_tasks s)"
    and "envelope_parse json (dl_raw dl) = Inr ev"
    and "daemon_start tc' (env :: unit start_env) p = Inr (config, w)" and "disk_ok (st_disk env)"
    and "de_rows (st_dedup env) = Some (dp_dedup (fs_disp s))" and "unat (st_now env) < 2 ^ 63"
    and "\<And>t. completed_at (dp_dedup (fs_disp s)) (dl_agent dl) (ev_event_id ev) = Some t \<Longrightarrow>
           unat t < 2 ^ 63 \<and> unat (st_now env) \<le> unat t + unat (dedup_ttl config)"
    and "(full_step tc' json lookup_ok B)\<^sup>*\<^sup>* (fresh_system w) s'"
  shows "spawns (dl_agent dl) (ev_event_id ev) (dispatcher_view s') = 0"
proof -
  have "recorded json (dispatcher_view s) dl"
    using records.inv_reachable[OF full_reachable_sys[OF assms(1)]] assms(2) by (fastforce simp: record_inv_def)
  then obtain t where t: "completed_at (dp_dedup (fs_disp s)) (dl_agent dl) (ev_event_id ev) = Some t"
    using assms(3) by (auto simp: recorded_def completed_set_def completed_at_def)
  with assms(8) have "unat t < 2 ^ 63" "unat (st_now env) \<le> unat t + unat (dedup_ttl config)" by auto
  then have "(dl_agent dl, ev_event_id ev) \<in> completed_set (dp_dedup (dm_disp w))"
    using start_keeps_completion[OF assms(4,6) t] assms(7) by blast
  note fresh = fresh_settled[OF this]
  have "full_inv B (fresh_system w)" using fresh_system_init[OF assms(4,5)] by (rule full_inv_init)
  from settles.inv_steps[OF full_steps_sys[OF assms(9) this] fresh] show ?thesis by simp
qed

theorem acked_never_reruns_witness:
  "\<exists>s w s'. fs_tasks s = [(demo_delivery, Finished (Acked True))] \<and> spawns demo_id ''e'' (dispatcher_view s) = 1 \<and>
     daemon_start demo_codec (demo_start_on (dp_dedup (fs_disp s))) None = Inr (default_config, w) \<and>
     (full_step demo_codec demo_json lookup_ok UNIV)\<^sup>*\<^sup>* (fresh_system w) s' \<and>
     fs_tasks s' = [(demo_delivery, Finished (Acked True))] \<and> spawns demo_id ''e'' (dispatcher_view s') = 0"
proof -
  obtain w s where s: "daemon_start demo_codec (demo_start_on []) None = Inr (default_config, w)"
    "(full_step demo_codec demo_json store_ok UNIV)\<^sup>*\<^sup>* (fresh_system w) s"
    "fs_tasks s = [(demo_delivery, Finished (Acked True))]" "dp_dedup (fs_disp s) = demo_rows"
    "spawns demo_id ''e'' (dispatcher_view s) = 1"
    using store_ok_demo by (rule demo_first_life) blast
  obtain w' s' where s': "daemon_start demo_codec (demo_start_on demo_rows) None = Inr (default_config, w')"
    "(full_step demo_codec demo_json lookup_ok UNIV)\<^sup>*\<^sup>* (fresh_system w') s'"
    "fs_tasks s' = [(demo_delivery, Finished (Acked True))]"
    using store_ok_lookup[OF store_ok_demo] by (rule demo_second_life) blast
  have r: "full_reachable demo_codec demo_json store_ok UNIV s"
    using s(2) fresh_system_init[OF s(1) demo_disk_start] by (blast intro: reachable_steps reachable_init)
  let ?env = "demo_start_on demo_rows"
  have rows: "de_rows (st_dedup ?env) = Some (dp_dedup (fs_disp s))" "unat (st_now ?env) < 2 ^ 63"
    using s(4) by simp_all
  have age: "unat t < 2 ^ 63 \<and> unat (st_now ?env) \<le> unat t + unat (dedup_ttl default_config)"
    if "completed_at (dp_dedup (fs_disp s)) (dl_agent demo_delivery) (ev_event_id demo_envelope) = Some t" for t
    using that by (simp add: completed_at_def s(4) demo_rows_def default_ttl)
  have "spawns (dl_agent demo_delivery) (ev_event_id demo_envelope) (dispatcher_view s') = 0"
    by (rule acked_never_reruns[OF r _ _ s'(1) demo_disk_start rows(1) _ age s'(2), where b = True])
      (simp_all add: s(3) demo_parse rows(2))
  then show ?thesis
    using s s' by (intro exI[of _ s] exI[of _ w'] exI[of _ s']) simp
qed

end
