(* ===== verification/Daemon_Lives.thy ===== *)
theory Daemon_Lives
  imports Daemon_Restarts
begin

text \<open>
  A sequence of daemons, each started on the rows its predecessor left, however that one ended: by its
  shutdown, by a crash, or by a signal that kills it.  How often the handler of an event runs in all of
  them together.
\<close>

section \<open>Lives\<close>

text \<open>Every completion of the rows is young enough to survive the purge of the start.\<close>

definition all_young :: "unit start_env \<Rightarrow> daemon_config \<Rightarrow> dedup_store \<Rightarrow> bool" where
  "all_young env config rows =
     (unat (st_now env) < 2 ^ 63 \<and>
      (\<forall>(k, t) \<in> set rows. unat t < 2 ^ 63 \<and> unat (st_now env) \<le> unat t + unat (dedup_ttl config)))"

text \<open>
  The states in which the daemons ended, the latest first.  Each run is arbitrary: deliveries, control
  operations, edits of the directory, and a stop at any point.
\<close>

inductive lives :: "toml_codec \<Rightarrow> (string \<Rightarrow> sval option) \<Rightarrow> agent_id set \<Rightarrow> fsys list \<Rightarrow> bool"
  for tc :: toml_codec and json :: "string \<Rightarrow> sval option" and A :: "agent_id set" where
  first_life: "daemon_start tc (env :: unit start_env) p = Inr (config, w) \<Longrightarrow> disk_ok (st_disk env) \<Longrightarrow>
     (full_step tc json store_ok A)\<^sup>*\<^sup>* (fresh_system w) s \<Longrightarrow> lives tc json A [s]"
| next_life: "lives tc json A (s # ss) \<Longrightarrow> daemon_start tc env p = Inr (config, w) \<Longrightarrow> disk_ok (st_disk env) \<Longrightarrow>
     de_rows (st_dedup env) = Some (dp_dedup (fs_disp s)) \<Longrightarrow> all_young env config (dp_dedup (fs_disp s)) \<Longrightarrow>
     (full_step tc json store_ok A)\<^sup>*\<^sup>* (fresh_system w) s' \<Longrightarrow> lives tc json A (s' # s # ss)"

definition all_spawns :: "agent_id \<Rightarrow> string \<Rightarrow> fsys list \<Rightarrow> nat" where
  "all_spawns a e ss = sum_list (map (\<lambda>s. spawns a e (dispatcher_view s)) ss)"

text \<open>The daemon ended while a handler of the event had been spawned and its completion not yet recorded.\<close>

definition interrupted :: "agent_id \<Rightarrow> string \<Rightarrow> fsys \<Rightarrow> bool" where
  "interrupted a e s =
     (\<exists>(dl, p) \<in> set (fs_tasks s). dl_agent dl = a \<and> map_option event_of (spawned_ctx p) = Some e)"

definition serial_in :: "agent_id \<Rightarrow> fsys \<Rightarrow> bool" where
  "serial_in a s = (\<exists>c. get (dp_registry (fs_disp s)) a = Some c \<and> max_concurrency c = DEFAULT_CONCURRENCY)"

abbreviation recorded_in :: "agent_id \<Rightarrow> string \<Rightarrow> fsys \<Rightarrow> bool" where
  "recorded_in a e s \<equiv> (a, e) \<in> completed_set (dp_dedup (fs_disp s))"

section \<open>One life\<close>

lemma fresh_reachable:
  assumes "daemon_start tc env p = Inr (config, w)" and "disk_ok (st_disk (env :: unit start_env))"
    and "(full_step tc json Ok A)\<^sup>*\<^sup>* (fresh_system w) s"
  shows "full_reachable tc json Ok A s"
proof -
  have "full_reachable tc json Ok A (fresh_system w)"
    using fresh_system_init[OF assms(1,2)] by (rule reachable_init)
  with assms(3) show ?thesis by (rule reachable_steps)
qed

lemma life_serial:
  assumes "full_reachable tc json store_ok A s" and "a \<in> A" and "serial_in a s"
  shows "spawns a e (dispatcher_view s) \<le> 1"
    and "spawns a e (dispatcher_view s) = 0 \<or> recorded_in a e s \<or> interrupted a e s"
proof -
  have ok: "serial_ok a (dispatcher_view s)"
    using serial.extra_reachable[OF full_reachable_sys[OF assms(1)]] assms(2,3)
    by (auto simp: serial_inv_def serial_in_def DEFAULT_CONCURRENCY_def)
  then show "spawns a e (dispatcher_view s) \<le> 1" by (simp add: serial_ok_def)
  have "interrupted a e s \<longleftrightarrow> (\<exists>x \<in> set (sys_tasks (dispatcher_view s)). dl_agent (fst x) = a \<and>
      map_option event_of (spawned_ctx (snd x)) = Some e)"
    by (simp add: interrupted_def case_prod_unfold)
  with ok show "spawns a e (dispatcher_view s) = 0 \<or> recorded_in a e s \<or> interrupted a e s"
    unfolding serial_ok_alt view_tasks by blast
qed

lemma next_life_recorded:
  assumes "daemon_start tc env p = Inr (config, w)" and "disk_ok (st_disk env)"
    and "de_rows (st_dedup env) = Some rows" and "all_young env config rows"
    and "(a, e) \<in> completed_set rows"
    and "(full_step tc json store_ok A)\<^sup>*\<^sup>* (fresh_system w) s"
  shows "spawns a e (dispatcher_view s) = 0 \<and> recorded_in a e s"
proof -
  obtain t where t: "completed_at rows a e = Some t"
    using assms(5) by (auto simp: completed_set_def completed_at_def)
  then have "((as_str a, e), t) \<in> set rows" by (simp add: completed_at_def map_of_SomeD)
  with assms(4) have "unat t < 2 ^ 63" "unat (st_now env) < 2 ^ 63"
      "unat (st_now env) \<le> unat t + unat (dedup_ttl config)" by (auto simp: all_young_def)
  from start_keeps_completion[OF assms(1,3) t this] fresh_settled
  have fresh: "settled a e (dispatcher_view (fresh_system w)) \<and> spawns a e (dispatcher_view (fresh_system w)) = 0"
    by blast
  have "full_inv A (fresh_system w)" using fresh_system_init[OF assms(1,2)] by (rule full_inv_init)
  then have "(sys_step json lookup_ok A)\<^sup>*\<^sup>* (dispatcher_view (fresh_system w)) (dispatcher_view s)"
    using store_ok_lookup by (rule sys_steps_mono[OF full_steps_sys[OF assms(6)]])
  from settles.inv_steps[OF this fresh] show ?thesis
    by (simp add: settled_def)
qed

lemma exited_not_interrupted:
  assumes "full_reachable tc json Ok A s" and "fs_phase s = Exited"
  shows "\<not> interrupted a e s"
proof -
  have "all_done (dispatcher_view s)" using exits.inv_reachable[OF assms(1)] assms(2) by simp
  then show ?thesis by (fastforce simp: all_done_def interrupted_def)
qed

section \<open>All lives\<close>

lemma lives_reachable: "lives tc json A ss \<Longrightarrow> s \<in> set ss \<Longrightarrow> full_reachable tc json store_ok A s"
  by (induction ss rule: lives.induct) (auto intro: fresh_reachable)

text \<open>Every run that was not the first is paid for by a life that was interrupted before it.\<close>

lemma lives_spawns:
  assumes "lives tc json A ss" and "a \<in> A" and "\<forall>s \<in> set ss. serial_in a s"
  shows "all_spawns a e ss \<le> length (filter (interrupted a e) ss) + of_bool (recorded_in a e (hd ss))"
  using assms(1,3)
proof (induction ss rule: lives.induct)
  case (first_life env p config w s)
  from life_serial[OF fresh_reachable[OF first_life.hyps] assms(2), of e] first_life.prems show ?case
    by (auto simp: all_spawns_def)
next
  case (next_life s ss env p config w s')
  have IH: "all_spawns a e (s # ss) \<le> length (filter (interrupted a e) (s # ss)) + of_bool (recorded_in a e s)"
    using next_life.IH next_life.prems by simp
  have sum: "all_spawns a e (s' # s # ss) = spawns a e (dispatcher_view s') + all_spawns a e (s # ss)"
    by (simp add: all_spawns_def)
  show ?case
  proof (cases "recorded_in a e s")
    case True
    from next_life_recorded[OF next_life.hyps(2-5) True next_life.hyps(6)] True IH sum show ?thesis by simp
  next
    case False
    from life_serial[OF fresh_reachable[OF next_life.hyps(2,3,6)] assms(2), of e] next_life.prems IH sum False
    show ?thesis by (auto simp: of_bool_def split: if_splits)
  qed
qed

text \<open>The last life itself costs at most one run.\<close>

lemma runs_bound:
  assumes "lives tc json A ss" and "a \<in> A" and "\<forall>s \<in> set ss. serial_in a s"
  shows "all_spawns a e ss \<le> 1 + length (filter (interrupted a e) (tl ss))"
  using assms(1)
proof cases
  case (first_life env p config w s)
  from life_serial(1)[OF lives_reachable[OF assms(1), of s] assms(2), of e] assms(3) first_life show ?thesis
    by (simp add: all_spawns_def)
next
  case (next_life s ss' env p config w s')
  have prev: "all_spawns a e (s # ss') \<le> length (filter (interrupted a e) (s # ss')) + of_bool (recorded_in a e s)"
    using lives_spawns[OF next_life(2) assms(2)] assms(3) next_life(1) by fastforce
  have sum: "all_spawns a e ss = spawns a e (dispatcher_view s') + all_spawns a e (s # ss')"
    by (simp add: all_spawns_def next_life(1))
  have "spawns a e (dispatcher_view s') + of_bool (recorded_in a e s) \<le> 1"
  proof (cases "recorded_in a e s")
    case True
    from next_life_recorded[OF next_life(3-6) True next_life(7)] show ?thesis by simp
  next
    case False
    from life_serial(1)[OF lives_reachable[OF assms(1), of s'] assms(2), of e] assms(3) next_life(1) False
    show ?thesis by simp
  qed
  with prev sum next_life(1) show ?thesis by simp
qed

section \<open>Properties\<close>

text \<open>
  C7. How often a handler runs across any number of crashes and restarts: for a serial agent that is left alone,
  with a working store and completions that have not expired, the handler of an event runs at most once more
  often than a daemon has ended between the spawn of that handler and the record of its completion.
\<close>

theorem runs_across_restarts:
  assumes "lives tc json A ss" and "a \<in> A" and "\<forall>s \<in> set ss. serial_in a s"
  shows "all_spawns a e ss \<le> 1 + length (filter (interrupted a e) (tl ss))"
  using assms by (rule runs_bound)

text \<open>In particular exactly-once delivery survives restarts that let the shutdown finish.\<close>

theorem graceful_restarts_once:
  assumes "lives tc json A ss" and "a \<in> A" and "\<forall>s \<in> set ss. serial_in a s"
    and "\<forall>s \<in> set (tl ss). fs_phase s = Exited"
  shows "all_spawns a e ss \<le> 1"
proof -
  have mem: "s \<in> set ss" if "s \<in> set (tl ss)" for s using that by (cases ss) auto
  have "\<not> interrupted a e s" if "s \<in> set (tl ss)" for s
    using exited_not_interrupted[OF lives_reachable[OF assms(1) mem[OF that]]] assms(4) that by blast
  then have "filter (interrupted a e) (tl ss) = []" by (simp add: filter_empty_conv)
  with runs_bound[OF assms(1-3), of e] show ?thesis by simp
qed

text \<open>A first life that ends by its shutdown, and a second one in which the event is redelivered.\<close>

lemma demo_lives:
  obtains s s' where "lives demo_codec demo_json UNIV [s', s]" "serial_in demo_id s" "serial_in demo_id s'"
    "fs_phase s = Exited" "spawns demo_id ''e'' (dispatcher_view s) = 1"
    "fs_tasks s' = [(demo_delivery, Finished (Acked True))]"
proof -
  obtain w t where t: "daemon_start demo_codec (demo_start_on []) None = Inr (default_config, w)"
    "(full_step demo_codec demo_json store_ok UNIV)\<^sup>*\<^sup>* (fresh_system w) t"
    "fs_tasks t = [(demo_delivery, Finished (Acked True))]" "dp_dedup (fs_disp t) = demo_rows"
    "get (dp_registry (fs_disp t)) demo_id = Some demo_config" "spawns demo_id ''e'' (dispatcher_view t) = 1"
    "fs_phase t = Serving"
    using store_ok_demo by (rule demo_first_life) blast
  obtain s where s: "(full_step demo_codec demo_json store_ok UNIV)\<^sup>*\<^sup>* (fresh_system w) s" "fs_phase s = Exited"
      "dispatcher_view s = dispatcher_view t"
    using demo_exits[OF t(2) _ t(3)] t(7) by auto
  then have disp: "fs_disp s = fs_disp t" by (simp flip: view_tasks)
  obtain w' s' where s': "daemon_start demo_codec (demo_start_on demo_rows) None = Inr (default_config, w')"
    "(full_step demo_codec demo_json store_ok UNIV)\<^sup>*\<^sup>* (fresh_system w') s'"
    "fs_tasks s' = [(demo_delivery, Finished (Acked True))]"
    "get (dp_registry (fs_disp s')) demo_id = Some demo_config"
    using store_ok_demo by (rule demo_second_life) blast
  have "lives demo_codec demo_json UNIV [s]" using t(1) demo_disk_start s(1) by (rule first_life)
  then have "lives demo_codec demo_json UNIV [s', s]"
    by (rule next_life[OF _ s'(1) demo_disk_start _ _ s'(2)])
      (simp_all add: t(4) disp all_young_def demo_rows_def default_ttl)
  with that[of s' s] s t s' disp show ?thesis by (auto simp: serial_in_def demo_config_def DEFAULT_CONCURRENCY_def)
qed

section \<open>Witnesses\<close>

theorem runs_across_restarts_witness:
  "\<exists>s s'. spawns demo_id ''e'' (dispatcher_view s) = 1 \<and> fs_tasks s' = [(demo_delivery, Finished (Acked True))] \<and>
     all_spawns demo_id ''e'' [s', s] \<le> 1 + length (filter (interrupted demo_id ''e'') [s])"
proof -
  obtain s s' where s: "lives demo_codec demo_json UNIV [s', s]" "serial_in demo_id s" "serial_in demo_id s'"
    "spawns demo_id ''e'' (dispatcher_view s) = 1" "fs_tasks s' = [(demo_delivery, Finished (Acked True))]"
    by (rule demo_lives) blast
  have "\<forall>s \<in> set [s', s]. serial_in demo_id s" using s(2,3) by simp
  from runs_across_restarts[OF s(1) UNIV_I this, of "''e''"] s(4,5) show ?thesis
    by (intro exI[of _ s] exI[of _ s']) simp
qed

theorem graceful_restarts_once_witness:
  "\<exists>s s'. spawns demo_id ''e'' (dispatcher_view s) = 1 \<and> fs_tasks s' = [(demo_delivery, Finished (Acked True))] \<and>
     all_spawns demo_id ''e'' [s', s] \<le> 1"
proof -
  obtain s s' where s: "lives demo_codec demo_json UNIV [s', s]" "serial_in demo_id s" "serial_in demo_id s'"
    "fs_phase s = Exited" "spawns demo_id ''e'' (dispatcher_view s) = 1"
    "fs_tasks s' = [(demo_delivery, Finished (Acked True))]"
    by (rule demo_lives) blast
  have "\<forall>s \<in> set [s', s]. serial_in demo_id s" "\<forall>s \<in> set (tl [s', s]). fs_phase s = Exited"
    using s(2-4) by simp_all
  from graceful_restarts_once[OF s(1) UNIV_I this, of "''e''"] s(5,6) show ?thesis by blast
qed

end
