(* ===== verification/Daemon_Races.thy ===== *)
theory Daemon_Races
  imports Daemon_Restarts
begin

text \<open>
  Control operations that overlap (\<open>src/control.rs\<close>, \<open>src/relay.rs\<close>): the relay awaits the server between
  stopping and starting the pull loop of an agent, and takes no notice of what has become of the agent
  meanwhile.
\<close>

section \<open>A bind that comes back late\<close>

text \<open>
  An update and a removal of an agent overlap: the removal finds no loop to stop while the update awaits the
  consumer, and the update then starts one for an agent that is no longer registered.
\<close>

lemma late_bind:
  assumes "fs_phase s = Serving" and "fs_ctl s = []" and "valid_request (Update c)" and "enabled c"
    and up: "registry_half tc io (Update c) (dp_registry (fs_disp s)) = (Some [Updated c], r1)"
    and un: "registry_half tc io' (Unregister (agent_id c)) r1 = (Some [Removed (agent_id c)], r2)"
    and "agent_id c \<notin> A" and "relay_good env"
  shows "\<exists>s'. (full_step tc json Ok A)\<^sup>*\<^sup>* s s' \<and> fs_phase s' = Serving \<and> fs_ctl s' = [To_Relay [], To_Relay []] \<and>
     get (dp_registry (fs_disp s')) (agent_id c) = None \<and> agent_id c \<in> pulled (fs_relay s')"
proof -
  let ?a = "agent_id c" and ?step = "full_step tc json Ok A"
  from up obtain u where u: "update tc io c (dp_registry (fs_disp s)) = (Inr u, r1)"
    by (auto split: prod.splits sum.splits)
  have r1: "get r1 ?a = Some c" using update_get[OF u] by simp
  from un obtain v where v: "unregister io' ?a r1 = (Inr v, r2)" by (auto split: prod.splits sum.splits)
  have r2: "get r2 ?a = None" using unregister_get[OF v] by simp
  obtain s1 where s1: "?step s s1" "fs_phase s1 = Serving" "fs_ctl s1 = [To_Dispatcher [Updated c]]"
      "dp_registry (fs_disp s1) = r1"
    using full_mutate[of s "Update c" tc io "Some [Updated c]" r1 A json Ok] assms(1-3,7) up
    by (auto simp: changed_ids_def set_registry_def)
  obtain s2 where s2: "?step s1 s2" "fs_phase s2 = Serving" "fs_ctl s2 = [To_Relay [Updated c]]"
      "dp_registry (fs_disp s2) = r1"
    using full_forget[of s1 0 "[Updated c]" tc json Ok A] s1 by (auto simp: dispatcher_apply_changes_def)
  obtain s3 where s3: "?step s2 s3" "fs_phase s3 = Serving" "fs_ctl s3 = [Binding (Updated c) ?a (max_concurrency c) []]"
      "dp_registry (fs_disp s3) = r1"
    using full_begin[of s2 0 "Updated c" "[]" "stop_pull ?a (fs_relay s2)" "Some (?a, max_concurrency c)" tc json Ok A]
      s2 r1 assms(4) by (auto simp: Let_def)
  obtain s4 where s4: "?step s3 s4" "fs_phase s4 = Serving"
      "fs_ctl s4 = [Binding (Updated c) ?a (max_concurrency c) [], To_Dispatcher [Removed ?a]]"
      "dp_registry (fs_disp s4) = r2"
    using full_mutate[of s3 "Unregister ?a" tc io' "Some [Removed ?a]" r2 A json Ok] s3 assms(3,7) un
    by (auto simp: changed_ids_def set_registry_def)
  obtain s5 where s5: "?step s4 s5" "fs_phase s5 = Serving"
      "fs_ctl s5 = [Binding (Updated c) ?a (max_concurrency c) [], To_Relay [Removed ?a]]"
      "dp_registry (fs_disp s5) = r2"
    using full_forget[of s4 1 "[Removed ?a]" tc json Ok A] s4 by (auto simp: dispatcher_apply_changes_def)
  obtain s6 where s6: "?step s5 s6" "fs_phase s6 = Serving"
      "fs_ctl s6 = [Binding (Updated c) ?a (max_concurrency c) [], To_Relay []]"
      "dp_registry (fs_disp s6) = r2"
    using full_begin[of s5 1 "Removed ?a" "[]" "log_line (Agent_Unregistered ?a) (stop_pull ?a (fs_relay s5))" None
        tc json Ok A] s5 by auto
  obtain s7 where s7: "?step s6 s7" "fs_phase s7 = Serving" "fs_ctl s7 = [To_Relay [], To_Relay []]"
      "dp_registry (fs_disp s7) = r2" "?a \<in> pulled (fs_relay s7)"
    using full_end[of s6 0 "Updated c" ?a "max_concurrency c" "[]" tc json Ok A env] s6 assms(8)
    by (auto simp: bind_consumer_def relay_good_def)
  have "?step\<^sup>*\<^sup>* s s7"
    using s1(1) s2(1) s3(1) s4(1) s5(1) s6(1) s7(1) by (meson rtranclp.rtrancl_refl rtranclp.rtrancl_into_rtrancl)
  with s7 r2 show ?thesis by auto
qed

text \<open>The two requests on the registry of the sample daemon.\<close>

lemma demo_update_half:
  "registry_half demo_codec io_good (Update demo_config)
     \<lparr>reg_dir = dir, reg_agents = [(demo_id, demo_config)], reg_disk = demo_disk [(''a.toml'', Readable ''t'')]\<rparr> =
     (Some [Updated demo_config],
      \<lparr>reg_dir = dir, reg_agents = [(demo_id, demo_config)], reg_disk = demo_disk [(''a.toml'', Readable ''t'')]\<rparr>)"
  by code_simp

lemma demo_unregister_half:
  "registry_half demo_codec io_good (Unregister demo_id)
     \<lparr>reg_dir = dir, reg_agents = [(demo_id, demo_config)], reg_disk = demo_disk [(''a.toml'', Readable ''t'')]\<rparr> =
     (Some [Removed demo_id], \<lparr>reg_dir = dir, reg_agents = [], reg_disk = demo_disk []\<rparr>)"
  by code_simp

text \<open>
  C38. A daemon in which an update and a removal of its only agent overlap ends up with a pull loop for an agent that
  is not registered, and no control operation is left that would stop it.
\<close>

theorem late_bind_race:
  "\<exists>s. full_reachable demo_codec json Ok {} s \<and> fs_phase s = Serving \<and> set (fs_ctl s) = {To_Relay []} \<and>
     get (dp_registry (fs_disp s)) demo_id = None \<and>
     (\<exists>h < length (rl_loops (fs_relay s)). pl_agent (rl_loops (fs_relay s) ! h) = demo_id \<and>
        \<not> pl_aborted (rl_loops (fs_relay s) ! h))"
proof -
  obtain w where w: "daemon_start demo_codec demo_start None = Inr (default_config, w)"
    using demo_starts by blast
  obtain D where D: "open_state demo_codec demo_start default_config = Inr D"
      "start_relay demo_start default_config D = Inr w"
    using w by (rule daemon_start_parts)
  obtain dir where dir: "dp_registry D =
      \<lparr>reg_dir = dir, reg_agents = [(demo_id, demo_config)], reg_disk = demo_disk [(''a.toml'', Readable ''t'')]\<rparr>"
    using D(1) by (auto simp: open_state_def registry_load_def demo_loads demo_start_on_def dispatcher_new_def
        split: sum.splits prod.splits)
  let ?s = "fresh_system w"
  have fresh: "fs_phase ?s = Serving" "fs_ctl ?s = []" "dp_registry (fs_disp ?s) = dp_registry D"
    using start_relay_fields[OF D(2)] by (simp_all add: fresh_system_def)
  have "valid_request (Update demo_config)" "enabled demo_config" "agent_id demo_config = demo_id"
    using demo_valid by (simp_all add: demo_config_def)
  with late_bind[OF fresh(1,2), of demo_config demo_codec io_good _ io_good _ "{}" demo_relay_env json Ok]
    demo_update_half[of dir] demo_unregister_half[of dir]
  obtain s where s: "(full_step demo_codec json Ok {})\<^sup>*\<^sup>* ?s s" "fs_phase s = Serving"
      "fs_ctl s = [To_Relay [], To_Relay []]" "get (dp_registry (fs_disp s)) demo_id = None"
      "demo_id \<in> pulled (fs_relay s)"
    by (fastforce simp: fresh(3) dir demo_relay_env_def relay_good_def)
  have "full_reachable demo_codec json Ok {} ?s"
    using fresh_system_init[OF w demo_disk_start] by (rule reachable_init)
  then have r: "full_reachable demo_codec json Ok {} s" using s(1) by (blast intro: reachable_steps)
  then have "pulls_ok (fs_relay s)" using full_reachable_inv by (auto simp: full_inv_def)
  with s(5) obtain h where "h < length (rl_loops (fs_relay s))" "pl_agent (rl_loops (fs_relay s) ! h) = demo_id"
      "\<not> pl_aborted (rl_loops (fs_relay s) ! h)" by (auto simp: pulled_def pulls_ok_def)
  with r s show ?thesis by auto
qed

end
