(* ===== verification/Dispatch_Complete.thy ===== *)
theory Dispatch_Complete
  imports Dispatch_History
begin

text \<open>
  What becomes of a valid event (\<open>Dispatcher::dispatch\<close>): while the store works and handlers can be spawned,
  every delivery that passes the gate ends with its event recorded, also one that was dropped because another
  copy was in flight, and a record that was not there at the start was paid for by a run of the handler.
\<close>

section \<open>The environment\<close>

text \<open>The store answers, and the operating system can spawn the handler.\<close>

definition answers_ok :: "answers \<Rightarrow> bool" where
  "answers_ok an = (store_ok an \<and> an_spawn an \<noteq> None)"

lemma answers_ok_store: "answers_ok an \<Longrightarrow> store_ok an"
  by (simp add: answers_ok_def)

section \<open>The gate of an agent left alone\<close>

lemma advance_size_limit: "advance json an D dl p = Some (D', p', es) \<Longrightarrow> dp_max_event_bytes D' = dp_max_event_bytes D"
  by (cases p)
    (auto simp: section_defs record_completion_eq[unfolded section_defs] ensure_state_def take_permit_def
      drop_permit_def remove_in_flight_def Let_def
      split: sum.splits prod.splits option.splits if_splits bool.splits)

lemma step_registry:
  assumes "sys_step json Ok A s s'" and "a \<in> A"
  shows "get (dp_registry (sys_disp s')) a = get (dp_registry (sys_disp s)) a \<and>
     dp_max_event_bytes (sys_disp s') = dp_max_event_bytes (sys_disp s)"
  using assms(1)
  by (rule sys_stepE)
    (use assms(2) in \<open>auto elim!: task_stepE dest: advance_registry advance_size_limit
      simp: dispatcher_apply_changes_def available_def ensure_state_def Let_def split: option.splits\<close>)

lemma gate_step:
  assumes "sys_step json Ok A s s'" and "dl_agent dl \<in> A"
  shows "gate json (sys_disp s') dl = gate json (sys_disp s) dl"
  using step_registry[OF assms] by (simp add: gate_def split: sum.split)

lemma gate_steps:
  "(sys_step json Ok A)\<^sup>*\<^sup>* s s' \<Longrightarrow> dl_agent dl \<in> A \<Longrightarrow>
     gate json (sys_disp s') dl = gate json (sys_disp s) dl"
  by (induction rule: rtranclp_induct) (auto dest: gate_step)

section \<open>Covered events\<close>

text \<open>The event is recorded, or a task has claimed it.\<close>

definition covered :: "agent_id \<Rightarrow> string \<Rightarrow> dsys \<Rightarrow> bool" where
  "covered a e s =
     ((a, e) \<in> completed_set (dp_dedup (sys_disp s)) \<or>
      (\<exists>(dl, p) \<in> set (sys_tasks s). dl_agent dl = a \<and> claimed_event p = Some e))"

text \<open>The points of a dispatch that refuses its delivery, and of one whose handler could not be spawned.\<close>

fun refused :: "pc \<Rightarrow> bool" where
  "refused Rejecting = True"
| "refused (Spawn_Failed cx) = True"
| "refused (Terminating cx) = True"
| "refused (Finished (Termed b)) = True"
| "refused p = False"

fun unspawned :: "pc \<Rightarrow> bool" where
  "unspawned (Spawn_Failed cx) = True"
| "unspawned (Terminating cx) = True"
| "unspawned p = False"

lemma unspawned_step:
  "advance json an D dl p = Some (D', p', es) \<Longrightarrow> answers_ok an \<Longrightarrow> \<not> unspawned p \<Longrightarrow> \<not> unspawned p'"
  by (cases p)
    (auto simp: answers_ok_def enter_def check_completed_eq claim_def spawn_handler_def reap_def record_completion_eq
      ack_delivery_def Let_def split: sum.splits prod.splits option.splits if_splits)

lemma refused_step:
  "advance json an D dl p = Some (D', p', es) \<Longrightarrow> answers_ok an \<Longrightarrow> refused p' \<Longrightarrow>
     refused p \<or> (p = Entered \<and> (\<nexists>x. gate json D dl = Inr x))"
  by (cases p)
    (auto simp: answers_ok_def enter_def check_completed_eq claim_def spawn_handler_def reap_def record_completion_eq
      ack_delivery_def Let_def split: sum.splits prod.splits option.splits if_splits)

text \<open>A claim is given up when the event is recorded.\<close>

lemma claim_step:
  "advance json an D dl p = Some (D', p', es) \<Longrightarrow> claimed_event p = Some e \<Longrightarrow> \<not> unspawned p \<Longrightarrow>
     claimed_event p' = Some e \<or> (\<exists>cx. p = Recorded cx \<and> event_of cx = e)"
  by (cases p)
    (auto simp: claimed_event_def spawn_handler_def reap_def record_completion_eq Let_def split: option.splits)

text \<open>A copy is dropped only when the event is in flight.\<close>

lemma dropped_step:
  "advance json an D dl p = Some (D', p', es) \<Longrightarrow> p' = Finished Dropped \<Longrightarrow>
     \<exists>cx. p = Missed cx \<and> event_of cx \<in> events_in_flight D (dl_agent dl)"
  by (cases p)
    (auto simp: enter_def check_completed_eq spawn_handler_def reap_def record_completion_eq ack_delivery_def Let_def
      dest!: claim_result split: sum.splits prod.splits option.splits if_splits)

definition complete_inv :: "(string \<Rightarrow> sval option) \<Rightarrow> agent_id set \<Rightarrow> dsys \<Rightarrow> bool" where
  "complete_inv json A s =
     (\<forall>(dl, p) \<in> set (sys_tasks s).
        \<not> unspawned p \<and>
        (dl_agent dl \<in> A \<longrightarrow> (\<forall>e c. gate json (sys_disp s) dl = Inr (e, c) \<longrightarrow>
           \<not> refused p \<and> (p = Finished Dropped \<longrightarrow> covered (dl_agent dl) (ev_event_id e) s))))"

lemma covered_work:
  assumes "task_step json answers_ok s s'" and rec: "record_inv json s" and inv: "complete_inv json A s"
    and cov: "covered a e s"
  shows "covered a e s'"
proof -
  from assms(1) obtain i dl p an D' p' es where s': "s' = s\<lparr>sys_disp := D',
      sys_tasks := (sys_tasks s)[i := (dl, p')], sys_log := sys_log s @ map (Pair i) es\<rparr>"
    and i: "i < length (sys_tasks s)" "sys_tasks s ! i = (dl, p)" and ok: "answers_ok an"
    and adv: "advance json an (sys_disp s) dl p = Some (D', p', es)"
    by (rule task_stepE)
  have mem: "(dl, p) \<in> set (sys_tasks s)" using i by (metis nth_mem)
  have mono: "completed_set (dp_dedup (sys_disp s)) \<subseteq> completed_set (dp_dedup D')" using adv by (rule dedup_mono)
  have new: "(dl, p') \<in> set (sys_tasks s')" using i by (simp add: s' set_update_memI)
  from cov consider "(a, e) \<in> completed_set (dp_dedup (sys_disp s))"
    | j dl' q where "j < length (sys_tasks s)" "sys_tasks s ! j = (dl', q)" "dl_agent dl' = a" "claimed_event q = Some e"
    by (auto simp: covered_def in_set_conv_nth)
  then show ?thesis
  proof cases
    case 1
    with mono show ?thesis by (auto simp: covered_def s')
  next
    case (2 j dl' q)
    show ?thesis
    proof (cases "j = i")
      case False
      then have "sys_tasks s' ! j = (dl', q)" "j < length (sys_tasks s')" using 2(1,2) by (simp_all add: s')
      then have "(dl', q) \<in> set (sys_tasks s')" by (metis nth_mem)
      with 2(3,4) show ?thesis by (auto simp: covered_def)
    next
      case True
      with 2 i have q: "dl' = dl" "q = p" by simp_all
      from inv mem have "\<not> unspawned p" by (auto simp: complete_inv_def)
      from claim_step[OF adv 2(4)[unfolded q] this] show ?thesis
      proof (elim disjE exE conjE)
        assume "claimed_event p' = Some e"
        with new 2(3) q show ?thesis by (auto simp: covered_def)
      next
        fix cx assume cx: "p = Recorded cx" "event_of cx = e"
        with rec mem have "recorded json s dl" "envelope_parse json (dl_raw dl) = Inr (cx_envelope cx)"
          by (auto simp: record_inv_def envelope_of_def)
        with cx(2) 2(3) q mono show ?thesis by (auto simp: covered_def recorded_def s')
      qed
    qed
  qed
qed

text \<open>The entries of the in-flight set are the claims, so a dropped copy leaves its event covered.\<close>

lemma flight_covered:
  "flight_inv A s \<Longrightarrow> a \<in> A \<Longrightarrow> e \<in> events_in_flight (sys_disp s) a \<Longrightarrow> covered a e s"
proof -
  assume "flight_inv A s" "a \<in> A" "e \<in> events_in_flight (sys_disp s) a"
  then have "claimants a e s \<noteq> 0" by (simp add: flight_inv_def)
  then show ?thesis by (auto simp: claimants_def count_where_zero covered_def)
qed

lemma complete_inv_work:
  assumes step: "task_step json answers_ok s s'" and rec: "record_inv json s" and flight: "flight_inv A s"
    and inv: "complete_inv json A s"
  shows "complete_inv json A s'"
proof -
  from step obtain i dl p an D' p' es where s': "s' = s\<lparr>sys_disp := D',
      sys_tasks := (sys_tasks s)[i := (dl, p')], sys_log := sys_log s @ map (Pair i) es\<rparr>"
    and i: "i < length (sys_tasks s)" "sys_tasks s ! i = (dl, p)" and ok: "answers_ok an"
    and adv: "advance json an (sys_disp s) dl p = Some (D', p', es)"
    by (rule task_stepE)
  have mem: "(dl, p) \<in> set (sys_tasks s)" using i by (metis nth_mem)
  note keep = covered_work[OF step rec inv]
  have gate: "gate json (sys_disp s') d = gate json (sys_disp s) d" if "dl_agent d \<in> A" for d
    using gate_step[OF work[OF step] that] .
  have own: "\<not> refused p' \<and> (p' = Finished Dropped \<longrightarrow> covered (dl_agent dl) (ev_event_id e) s')"
    if a: "dl_agent dl \<in> A" and g: "gate json (sys_disp s) dl = Inr (e, c)" for e c
  proof
    from inv mem a g have p: "\<not> refused p" by (auto simp: complete_inv_def)
    with refused_step[OF adv ok] g show "\<not> refused p'" by auto
    show "p' = Finished Dropped \<longrightarrow> covered (dl_agent dl) (ev_event_id e) s'"
    proof
      assume "p' = Finished Dropped"
      from dropped_step[OF adv this] obtain cx where cx: "p = Missed cx"
        "event_of cx \<in> events_in_flight (sys_disp s) (dl_agent dl)" by blast
      from rec mem cx(1) g have "cx_envelope cx = e" by (auto simp: record_inv_def envelope_of_def gate_ok_iff)
      with flight_covered[OF flight a cx(2)] show "covered (dl_agent dl) (ev_event_id e) s'" by (auto intro: keep)
    qed
  qed
  have "\<not> unspawned p'" using unspawned_step[OF adv ok] inv mem by (auto simp: complete_inv_def)
  moreover have "x = (dl, p') \<or> x \<in> set (sys_tasks s)" if "x \<in> set (sys_tasks s')" for x
    using that by (auto simp: s' dest: set_update_subset_insert[THEN subsetD])
  ultimately show ?thesis
    using inv own keep unfolding complete_inv_def by (fastforce simp: gate)
qed

lemma complete_inv_step:
  assumes step: "sys_step json answers_ok A s s'" and base: "record_inv json s \<and> flight_inv A s"
    and inv: "complete_inv json A s"
  shows "complete_inv json A s'"
proof -
  have gate: "gate json (sys_disp s') d = gate json (sys_disp s) d" if "dl_agent d \<in> A" for d
    using step that by (rule gate_step)
  from step show ?thesis
  proof (rule sys_stepE)
    assume "task_step json answers_ok s s'"
    with base inv show ?thesis by (blast intro: complete_inv_work)
  next
    fix dl assume s': "s' = s\<lparr>sys_tasks := sys_tasks s @ [(dl, Entered)]\<rparr>"
    with inv show ?thesis unfolding complete_inv_def covered_def by (fastforce simp: claimed_event_def)
  qed (use inv gate in \<open>auto simp: complete_inv_def covered_def\<close>)
qed

lemma complete_inv_init: "sys_init s \<Longrightarrow> complete_inv json A s"
  by (simp add: sys_init_def complete_inv_def)

lemma record_flight_step:
  "sys_step json answers_ok A s s' \<Longrightarrow> record_inv json s \<and> flight_inv A s \<Longrightarrow> record_inv json s' \<and> flight_inv A s'"
  by (auto intro: record_inv_step[OF sys_step_mono[OF _ answers_ok_store]] flight_inv_step)

interpretation completes: strengthened_invariant sys_init "sys_step json answers_ok A"
    "\<lambda>s. record_inv json s \<and> flight_inv A s" "complete_inv json A" for json A
proof unfold_locales
  show "record_inv json s \<and> flight_inv A s" if "sys_init s" for s
    using that by (simp add: record_inv_init flight_inv_init)
  show "record_inv json s' \<and> flight_inv A s'"
    if "sys_step json answers_ok A s s'" "record_inv json s \<and> flight_inv A s" for s s'
    using that by (rule record_flight_step)
qed (auto intro: complete_inv_init complete_inv_step)

section \<open>Every record has been paid for\<close>

text \<open>With \<open>C\<close> the completions at the start.\<close>

definition paid_inv :: "(agent_id \<times> string) set \<Rightarrow> dsys \<Rightarrow> bool" where
  "paid_inv C s = (\<forall>a e. (a, e) \<in> completed_set (dp_dedup (sys_disp s)) \<longrightarrow> (a, e) \<in> C \<or> 0 < spawns a e s)"

lemma exited_spawned:
  assumes "history_inv s" and "i < length (sys_tasks s)" and "sys_tasks s ! i = (dl, Exited cx)"
  shows "0 < spawns (dl_agent dl) (event_of cx) s"
proof -
  have "history i s = [Spawn (handler_command dl cx)]" using assms by (force simp: history_inv_def)
  then have "Spawn (handler_command dl cx) \<in> set (history i s)" by simp
  then have "(i, Spawn (handler_command dl cx)) \<in> set (sys_log s)" by (auto simp: history_def)
  moreover have "is_spawn (dl_agent dl) (event_of cx) (Spawn (handler_command dl cx))" by (simp add: is_spawn_def)
  ultimately have "spawns (dl_agent dl) (event_of cx) s \<noteq> 0"
    unfolding spawns_def count_where_zero by blast
  then show ?thesis by simp
qed

lemma spawns_grow: "sys_log s' = sys_log s @ l \<Longrightarrow> spawns a e s \<le> spawns a e s'"
  by (simp add: spawns_def count_where_def)

lemma paid_inv_work:
  assumes "task_step json store_ok s s'" and hist: "history_inv s" and inv: "paid_inv C s"
  shows "paid_inv C s'"
proof -
  from assms(1) obtain i dl p an D' p' es where s': "s' = s\<lparr>sys_disp := D',
      sys_tasks := (sys_tasks s)[i := (dl, p')], sys_log := sys_log s @ map (Pair i) es\<rparr>"
    and i: "i < length (sys_tasks s)" "sys_tasks s ! i = (dl, p)" and ok: "store_ok an"
    and adv: "advance json an (sys_disp s) dl p = Some (D', p', es)"
    by (rule task_stepE)
  have grow: "spawns a e s \<le> spawns a e s'" for a e by (rule spawns_grow) (simp add: s')
  show ?thesis
    unfolding paid_inv_def
  proof (intro allI impI)
    fix a e assume "(a, e) \<in> completed_set (dp_dedup (sys_disp s'))"
    then consider "(a, e) \<in> completed_set (dp_dedup (sys_disp s))"
      | cx where "p = Exited cx" "a = dl_agent dl" "e = event_of cx"
      using completed_step[OF adv ok] by (auto simp: s' split: pc.splits)
    then show "(a, e) \<in> C \<or> 0 < spawns a e s'"
    proof cases
      case 1
      with inv grow[of a e] show ?thesis by (fastforce simp: paid_inv_def)
    next
      case 2
      with exited_spawned[OF hist i(1)] i(2) grow[of a e] show ?thesis by auto
    qed
  qed
qed

lemma paid_inv_step:
  assumes "sys_step json store_ok A s s'" and "history_inv s" and inv: "paid_inv C s"
  shows "paid_inv C s'"
  using assms(1)
proof (rule sys_stepE)
  assume "task_step json store_ok s s'"
  then show ?thesis using assms(2,3) by (rule paid_inv_work)
qed (use inv in \<open>simp_all add: paid_inv_def spawns_def\<close>)

lemma paid_inv_init: "completed_set (dp_dedup (sys_disp s)) = C \<Longrightarrow> paid_inv C s"
  by (simp add: paid_inv_def)

interpretation payments: strengthened_invariant "\<lambda>s. sys_init s \<and> completed_set (dp_dedup (sys_disp s)) = C"
    "sys_step json store_ok A" history_inv "paid_inv C" for json A C
  by unfold_locales (auto intro: history_inv_init history_inv_step paid_inv_init paid_inv_step)

section \<open>What a finished system has done\<close>

text \<open>
  Every valid delivery ends recorded: when all tasks have finished, the event of a delivery that passes the gate
  of an agent left alone is recorded, and if it was not recorded at the start its handler has been run.
\<close>

lemma valid_recorded:
  assumes "sys_reachable json answers_ok A s" and "all_done s" and "(dl, p) \<in> set (sys_tasks s)"
    and "dl_agent dl \<in> A" and "gate json (sys_disp s) dl = Inr (ev, c)"
  shows "(dl_agent dl, ev_event_id ev) \<in> completed_set (dp_dedup (sys_disp s))"
proof -
  have inv: "complete_inv json A s" "record_inv json s"
    using completes.both.inv_reachable[OF assms(1)] by simp_all
  obtain out where p: "p = Finished out" using assms(2,3) by (auto simp: all_done_def)
  show ?thesis
  proof (cases out)
    case (Acked b)
    with inv(2) assms(3) p have "recorded json s dl" by (fastforce simp: record_inv_def)
    with assms(5) show ?thesis by (auto simp: recorded_def gate_ok_iff)
  next
    case (Termed b)
    with inv(1) assms(3-5) p show ?thesis by (fastforce simp: complete_inv_def)
  next
    case Dropped
    with inv(1) assms(3-5) p have "covered (dl_agent dl) (ev_event_id ev) s" by (fastforce simp: complete_inv_def)
    moreover have "claimed_event q = None" if "(d, q) \<in> set (sys_tasks s)" for d q
      using assms(2) that by (auto simp: all_done_def claimed_event_def)
    ultimately show ?thesis by (fastforce simp: covered_def)
  qed
qed

lemma recorded_paid:
  assumes "sys_init s0" and "(sys_step json answers_ok A)\<^sup>*\<^sup>* s0 s"
    and "(a, e) \<in> completed_set (dp_dedup (sys_disp s))" and "(a, e) \<notin> completed_set (dp_dedup (sys_disp s0))"
  shows "0 < spawns a e s"
proof -
  let ?C = "completed_set (dp_dedup (sys_disp s0))"
  have "(sys_step json store_ok A)\<^sup>*\<^sup>* s0 s" using assms(2) answers_ok_store by (rule sys_steps_mono)
  moreover have "reachable (\<lambda>s. sys_init s \<and> completed_set (dp_dedup (sys_disp s)) = ?C) (sys_step json store_ok A) s0"
    using assms(1) by (simp add: reachable_init)
  ultimately have "paid_inv ?C s" by (blast intro: payments.extra_reachable reachable_steps)
  with assms(3,4) show ?thesis by (auto simp: paid_inv_def)
qed

end
