(* ===== verification/Daemon_Complete.thy ===== *)
theory Daemon_Complete
  imports Daemon_Restarts Dispatch_Complete
begin

text \<open>
  What a daemon makes of the valid events it has taken (\<open>run\<close> in \<open>src/main.rs\<close>, \<open>Dispatcher::dispatch\<close>): while the
  store works and handlers can be spawned, none is lost by the time the daemon exits, and with the default
  limit of one handler each is handled exactly once.
\<close>

section \<open>From the start to the exit\<close>

abbreviation start_rows :: "daemon \<Rightarrow> dedup_store" where
  "start_rows w \<equiv> dp_dedup (dm_disp w)"

lemma life_steps:
  assumes "daemon_start tc env p = Inr (config, w)" and "disk_ok (st_disk (env :: unit start_env))"
    and "(full_step tc json Ok A)\<^sup>*\<^sup>* (fresh_system w) s"
  shows "full_reachable tc json Ok A s"
    and "sys_init (dispatcher_view (fresh_system w))"
    and "(sys_step json Ok A)\<^sup>*\<^sup>* (dispatcher_view (fresh_system w)) (dispatcher_view s)"
proof -
  have init: "full_init (fresh_system w)" using assms(1,2) by (rule fresh_system_init)
  then show "full_reachable tc json Ok A s" using assms(3) by (blast intro: reachable_steps reachable_init)
  show "sys_init (dispatcher_view (fresh_system w))" using init by (rule full_init_sys)
  show "(sys_step json Ok A)\<^sup>*\<^sup>* (dispatcher_view (fresh_system w)) (dispatcher_view s)"
    using assms(3) full_inv_init[OF init] by (rule full_steps_sys)
qed

lemma fresh_rows: "dp_dedup (sys_disp (dispatcher_view (fresh_system w))) = start_rows w"
  by (simp add: fresh_system_def)

text \<open>The gate of an agent left alone is the one of the start, whatever the control plane does to others.\<close>

lemma gate_kept:
  assumes "daemon_start tc env p = Inr (config, w)" and "disk_ok (st_disk (env :: unit start_env))"
    and "(full_step tc json Ok A)\<^sup>*\<^sup>* (fresh_system w) s" and "dl_agent dl \<in> A"
  shows "gate json (fs_disp s) dl = gate json (dm_disp w) dl"
  using gate_steps[OF life_steps(3)[OF assms(1-3)] assms(4)] by (simp add: fresh_system_def)

lemma exited_recorded:
  assumes "daemon_start tc env p = Inr (config, w)" and "disk_ok (st_disk (env :: unit start_env))"
    and "(full_step tc json answers_ok A)\<^sup>*\<^sup>* (fresh_system w) s" and "fs_phase s = Exited"
    and "(dl, q) \<in> set (fs_tasks s)" and "dl_agent dl \<in> A" and "gate json (dm_disp w) dl = Inr (ev, c)"
  shows "(dl_agent dl, ev_event_id ev) \<in> completed_set (dp_dedup (fs_disp s))"
    and "(dl_agent dl, ev_event_id ev) \<notin> completed_set (start_rows w) \<Longrightarrow>
         0 < spawns (dl_agent dl) (ev_event_id ev) (dispatcher_view s)"
proof -
  note life = life_steps[OF assms(1-3)]
  have "all_done (dispatcher_view s)" using exits.inv_reachable[OF life(1)] assms(4) by simp
  from valid_recorded[OF full_reachable_sys[OF life(1)] this] assms(5-7) gate_kept[OF assms(1-3,6)]
  show rec: "(dl_agent dl, ev_event_id ev) \<in> completed_set (dp_dedup (fs_disp s))" by auto
  show "0 < spawns (dl_agent dl) (ev_event_id ev) (dispatcher_view s)"
    if "(dl_agent dl, ev_event_id ev) \<notin> completed_set (start_rows w)"
    using recorded_paid[OF life(2,3)] rec that unfolding fresh_rows by simp
qed

lemma serial_life:
  assumes "daemon_start tc env p = Inr (config, w)" and "disk_ok (st_disk (env :: unit start_env))"
    and "(full_step tc json answers_ok A)\<^sup>*\<^sup>* (fresh_system w) s" and "a \<in> A"
    and "get (dp_registry (fs_disp s)) a = Some c" and "max_concurrency c = DEFAULT_CONCURRENCY"
  shows "spawns a e (dispatcher_view s) \<le> 1"
proof -
  note life = life_steps[OF assms(1-3)]
  have "(sys_step json store_ok A)\<^sup>*\<^sup>* (dispatcher_view (fresh_system w)) (dispatcher_view s)"
    using life(3) answers_ok_store by (rule sys_steps_mono)
  then have "sys_reachable json store_ok A (dispatcher_view s)"
    using reachable_init[of sys_init, OF life(2)] by (rule reachable_steps)
  moreover have "get (dp_registry (sys_disp (dispatcher_view s))) a = Some c" using assms(5) by simp
  ultimately show ?thesis using serial_bound[OF _ assms(4) _ assms(6)] by blast
qed

section \<open>Properties\<close>

text \<open>
  C5. No valid event of an agent left alone is lost.  When a daemon exits whose store worked and whose handlers could
  be spawned, it has recorded the event of every delivery it took for an agent that the control plane left alone
  (no reconfiguration of it, others at will) and that passes the gate with the registration the daemon started
  with, redelivered copies and dropped duplicates included; unless the record was there when it started, the
  handler was run.
\<close>

theorem exit_completes_deliveries:
  assumes "daemon_start tc env p = Inr (config, w)" and "disk_ok (st_disk (env :: unit start_env))"
    and "(full_step tc json answers_ok A)\<^sup>*\<^sup>* (fresh_system w) s" and "fs_phase s = Exited"
    and "(dl, q) \<in> set (fs_tasks s)" and "dl_agent dl \<in> A" and "gate json (dm_disp w) dl = Inr (ev, c)"
  shows "is_completed True (dp_dedup (fs_disp s)) (dl_agent dl) (ev_event_id ev) = Inr True \<and>
     (is_completed True (start_rows w) (dl_agent dl) (ev_event_id ev) = Inr False \<longrightarrow>
        0 < spawns (dl_agent dl) (ev_event_id ev) (dispatcher_view s))"
  using exited_recorded[OF assms] by (simp add: dedup.lookup_ok)

text \<open>
  C4. Exactly once, for a serial agent left alone.  When a daemon exits whose store worked and whose handlers could be
  spawned, the handler of every valid event that was delivered, however often, for an agent with the default
  limit that the control plane left alone (no reconfiguration of it, others at will), and that was not recorded
  when the daemon started, has run exactly once.
\<close>

theorem exactly_once_by_exit:
  assumes "daemon_start tc env p = Inr (config, w)" and "disk_ok (st_disk (env :: unit start_env))"
    and "(full_step tc json answers_ok A)\<^sup>*\<^sup>* (fresh_system w) s" and "fs_phase s = Exited"
    and "(dl, q) \<in> set (fs_tasks s)" and "dl_agent dl \<in> A" and "gate json (dm_disp w) dl = Inr (ev, c)"
    and "max_concurrency c = DEFAULT_CONCURRENCY"
    and "is_completed True (start_rows w) (dl_agent dl) (ev_event_id ev) = Inr False"
  shows "spawns (dl_agent dl) (ev_event_id ev) (dispatcher_view s) = 1"
proof -
  have "0 < spawns (dl_agent dl) (ev_event_id ev) (dispatcher_view s)"
    using exited_recorded(2)[OF assms(1-7)] assms(9) by (simp add: dedup.lookup_ok)
  moreover have "gate json (fs_disp s) dl = Inr (ev, c)" using assms(7) gate_kept[OF assms(1-3,6)] by simp
  then have "get (dp_registry (fs_disp s)) (dl_agent dl) = Some c" by (auto simp: gate_ok_iff)
  from serial_life[OF assms(1-3,6) this assms(8)] have "spawns (dl_agent dl) (ev_event_id ev) (dispatcher_view s) \<le> 1" .
  ultimately show ?thesis by simp
qed

text \<open>
  C12. And the daemon can always come to that exit: from every state of a run whose store works and whose handlers can
  be spawned, handlers that exit and a shutdown lead to an exit at which every valid event taken so far for an
  agent that the control plane left alone is recorded.
\<close>

theorem valid_events_complete:
  assumes "daemon_start tc env p = Inr (config, w)" and "disk_ok (st_disk (env :: unit start_env))"
    and "(full_step tc json answers_ok A)\<^sup>*\<^sup>* (fresh_system w) s" and "fs_phase s \<noteq> Exited"
  shows "\<exists>s'. (full_step tc json answers_ok A)\<^sup>*\<^sup>* s s' \<and> fs_phase s' = Exited \<and>
     (\<forall>dl \<in> fst ` set (fs_tasks s). dl_agent dl \<in> A \<longrightarrow>
        (\<forall>ev c. gate json (dm_disp w) dl = Inr (ev, c) \<longrightarrow>
           is_completed True (dp_dedup (fs_disp s')) (dl_agent dl) (ev_event_id ev) = Inr True))"
proof -
  have "answers_ok demo_answers" by (simp add: answers_ok_def store_ok_def demo_answers_def)
  from shutdown_possible[OF life_steps(1)[OF assms(1-3)] assms(4) this]
  obtain s' where s': "(full_step tc json answers_ok A)\<^sup>*\<^sup>* s s'" "fs_phase s' = Exited"
    "map fst (fs_tasks s') = map fst (fs_tasks s)" by blast
  have steps: "(full_step tc json answers_ok A)\<^sup>*\<^sup>* (fresh_system w) s'" using assms(3) s'(1) by simp
  have "is_completed True (dp_dedup (fs_disp s')) (dl_agent dl) (ev_event_id ev) = Inr True"
    if "dl \<in> fst ` set (fs_tasks s)" "dl_agent dl \<in> A" "gate json (dm_disp w) dl = Inr (ev, c)" for dl ev c
  proof -
    from that(1) s'(3) obtain q where "(dl, q) \<in> set (fs_tasks s')" by (metis (no_types) image_iff list.set_map prod.collapse)
    from exited_recorded(1)[OF assms(1,2) steps s'(2) this that(2,3)] show ?thesis by (simp add: dedup.lookup_ok)
  qed
  with s'(1,2) show ?thesis by blast
qed

section \<open>Witnesses\<close>

text \<open>The sample daemon with an empty store: one delivery, its handler run, its shutdown.\<close>

lemma demo_answers_ok: "answers_ok demo_answers"
  by (simp add: answers_ok_def store_ok_def)

lemma demo_exit:
  obtains w s where "daemon_start demo_codec (demo_start_on []) None = Inr (default_config, w)"
    "(full_step demo_codec demo_json answers_ok UNIV)\<^sup>*\<^sup>* (fresh_system w) s" "fs_phase s = Exited"
    "fs_tasks s = [(demo_delivery, Finished (Acked True))]" "start_rows w = []"
    "gate demo_json (dm_disp w) demo_delivery = Inr (demo_envelope, demo_config)"
proof -
  obtain w t where t: "daemon_start demo_codec (demo_start_on []) None = Inr (default_config, w)"
    "(full_step demo_codec demo_json answers_ok UNIV)\<^sup>*\<^sup>* (fresh_system w) t" "fs_phase t = Serving"
    "fs_tasks t = [(demo_delivery, Finished (Acked True))]"
    "gate demo_json (fs_disp t) demo_delivery = Inr (demo_envelope, demo_config)"
    using demo_answers_ok by (rule demo_first_life) blast
  obtain s where s: "(full_step demo_codec demo_json answers_ok UNIV)\<^sup>*\<^sup>* (fresh_system w) s" "fs_phase s = Exited"
    "dispatcher_view s = dispatcher_view t"
    using demo_exits[OF t(2) _ t(4)] t(3) by auto
  have "fs_tasks s = fs_tasks t" "fs_disp s = fs_disp t" using s(3) by (simp_all flip: view_tasks)
  moreover have "start_rows w = []" using start_rows_kept[OF t(1)] by simp
  moreover have "gate demo_json (dm_disp w) demo_delivery = Inr (demo_envelope, demo_config)"
    using gate_kept[OF t(1) demo_disk_start t(2), of demo_delivery] t(5) by simp
  ultimately show thesis using that[OF t(1) s(1,2)] t(4) by simp
qed

text \<open>The hypotheses of the properties at this run.\<close>

lemma demo_lookup: "is_completed True [] (dl_agent demo_delivery) (ev_event_id demo_envelope) = Inr False"
  by (simp add: is_completed_def)

theorem exit_completes_deliveries_witness:
  "\<exists>s. fs_phase s = Exited \<and> is_completed True (dp_dedup (fs_disp s)) demo_id ''e'' = Inr True \<and>
     0 < spawns demo_id ''e'' (dispatcher_view s)"
proof -
  obtain w s where s: "daemon_start demo_codec (demo_start_on []) None = Inr (default_config, w)"
    "(full_step demo_codec demo_json answers_ok UNIV)\<^sup>*\<^sup>* (fresh_system w) s" "fs_phase s = Exited"
    "fs_tasks s = [(demo_delivery, Finished (Acked True))]" "start_rows w = []"
    "gate demo_json (dm_disp w) demo_delivery = Inr (demo_envelope, demo_config)"
    by (rule demo_exit)
  have "(demo_delivery, Finished (Acked True)) \<in> set (fs_tasks s)" by (simp add: s(4))
  from exit_completes_deliveries[OF s(1) demo_disk_start s(2,3) this UNIV_I s(6)] s(3) demo_lookup show ?thesis
    by (intro exI[of _ s]) (simp add: s(5))
qed

theorem exactly_once_by_exit_witness:
  "\<exists>s. fs_phase s = Exited \<and> fs_tasks s = [(demo_delivery, Finished (Acked True))] \<and>
     spawns demo_id ''e'' (dispatcher_view s) = 1"
proof -
  obtain w s where s: "daemon_start demo_codec (demo_start_on []) None = Inr (default_config, w)"
    "(full_step demo_codec demo_json answers_ok UNIV)\<^sup>*\<^sup>* (fresh_system w) s" "fs_phase s = Exited"
    "fs_tasks s = [(demo_delivery, Finished (Acked True))]" "start_rows w = []"
    "gate demo_json (dm_disp w) demo_delivery = Inr (demo_envelope, demo_config)"
    by (rule demo_exit)
  have "(demo_delivery, Finished (Acked True)) \<in> set (fs_tasks s)" by (simp add: s(4))
  moreover have "max_concurrency demo_config = DEFAULT_CONCURRENCY"
    by (simp add: demo_config_def DEFAULT_CONCURRENCY_def)
  moreover have "is_completed True (start_rows w) (dl_agent demo_delivery) (ev_event_id demo_envelope) = Inr False"
    unfolding s(5) by (rule demo_lookup)
  ultimately have "spawns (dl_agent demo_delivery) (ev_event_id demo_envelope) (dispatcher_view s) = 1"
    using exactly_once_by_exit[OF s(1) demo_disk_start s(2,3) _ UNIV_I s(6)] by blast
  with s(3,4) show ?thesis by (intro exI[of _ s]) simp
qed

theorem valid_events_complete_witness:
  "\<exists>s s'. fs_phase s = Serving \<and> fs_tasks s = [(demo_delivery, Entered)] \<and>
     (full_step demo_codec demo_json answers_ok UNIV)\<^sup>*\<^sup>* s s' \<and> fs_phase s' = Exited \<and>
     is_completed True (dp_dedup (fs_disp s')) demo_id ''e'' = Inr True"
proof -
  have "\<forall>(k, t) \<in> set []. \<not> t <s saturating_sub 10 (dedup_ttl default_config)" by simp
  then obtain w s where s: "daemon_start demo_codec (demo_start_on []) None = Inr (default_config, w)"
    "\<And>tc json Ok A. (full_step tc json Ok A)\<^sup>*\<^sup>* (fresh_system w) s" "fs_phase s = Serving"
    "fs_tasks s = [(demo_delivery, Entered)]" "get (dp_registry (fs_disp s)) demo_id = Some demo_config"
    "dp_max_event_bytes (fs_disp s) = max_event_bytes default_config"
    by (rule demo_fetched) blast
  have "gate demo_json (fs_disp s) demo_delivery = Inr (demo_envelope, demo_config)"
    by (simp add: gate_ok_iff demo_parse s(5,6)) (simp add: default_config_def demo_config_def)
  then have gate: "gate demo_json (dm_disp w) demo_delivery = Inr (demo_envelope, demo_config)"
    using gate_kept[OF s(1) demo_disk_start s(2), of demo_delivery UNIV] by simp
  have "fs_phase s \<noteq> Exited" by (simp add: s(3))
  from valid_events_complete[OF s(1) demo_disk_start s(2) this, of demo_json UNIV] gate s(4)
  obtain s' where "(full_step demo_codec demo_json answers_ok UNIV)\<^sup>*\<^sup>* s s'" "fs_phase s' = Exited"
    "is_completed True (dp_dedup (fs_disp s')) demo_id ''e'' = Inr True" by auto
  with s(3,4) show ?thesis by blast
qed

end
