(* ===== verification/Dispatch_Order.thy ===== *)
theory Dispatch_Order
  imports Dispatch_Complete
begin

text \<open>
  The order in which the handlers of an agent start (\<open>Dispatcher::dispatch\<close>).  The tasks of an agent race for
  their permit, so the dispatcher by itself keeps no order.  What it does keep for a serial agent is that a
  message whose handler has started, or that has been answered to the server, never starts a handler again,
  whatever copies of it are still queued.  A server that hands out the next message of a consumer only when it
  has an answer to the one before (\<open>max_ack_pending\<close> of one, which the relay asks for a serial agent) therefore
  makes the handlers start in the order of the stream.
\<close>

section \<open>Starts of handlers\<close>

definition is_start :: "agent_id \<Rightarrow> effect \<Rightarrow> bool" where
  "is_start a eff = (case eff of Spawn r \<Rightarrow> fst (spawn_key r) = as_str a | _ \<Rightarrow> False)"

text \<open>The deliveries of an agent whose handlers have been started, in the order of the starts.\<close>

definition handler_starts :: "agent_id \<Rightarrow> dsys \<Rightarrow> nat list" where
  "handler_starts a s = map fst (filter (\<lambda>(j, eff). is_start a eff) (sys_log s))"

lemma start_step:
  assumes "advance json an D dl p = Some (D', p', es)"
  shows "filter (is_start a) es = [] \<or>
     (\<exists>cx. p = Claimed cx \<and> dl_agent dl = a \<and> filter (is_start a) es = [Spawn (handler_command dl cx)])"
  using assms
  by (cases p)
    (auto simp: is_start_def enter_def check_completed_eq claim_def spawn_handler_def reap_def
      record_completion_eq ack_delivery_def Let_def lookup_log_def mark_log_def
      split: sum.splits prod.splits option.splits if_splits)

lemma starts_work:
  "handler_starts a (s\<lparr>sys_disp := D', sys_tasks := ts, sys_log := sys_log s @ map (Pair i) es\<rparr>) =
     handler_starts a s @ replicate (length (filter (is_start a) es)) i"
proof -
  have "map fst (filter (\<lambda>(j, eff). is_start a eff) (map (Pair i) es)) =
      replicate (length (filter (is_start a) es)) i"
    by (induction es) auto
  then show ?thesis by (simp add: handler_starts_def)
qed

text \<open>A delivery that is about to start its handler has not started one before.\<close>

lemma claimed_not_started:
  assumes "history_inv s" and "i < length (sys_tasks s)" and "sys_tasks s ! i = (dl, Claimed cx)"
  shows "i \<notin> set (handler_starts a s)"
proof
  assume "i \<in> set (handler_starts a s)"
  then obtain eff where "(i, eff) \<in> set (sys_log s)" "is_start a eff" by (auto simp: handler_starts_def)
  then have "eff \<in> set (history i s)" by (cases eff) (force simp: history_def is_start_def)+
  moreover have "history i s = []" using assms by (force simp: history_inv_def)
  ultimately show False by simp
qed

section \<open>Content that never starts again\<close>

text \<open>The points at which the server may have got the answer to a delivery, whether or not it has confirmed it.\<close>

fun answered :: "pc \<Rightarrow> bool" where
  "answered Rejecting = True"
| "answered (Hit_Acking cx) = True"
| "answered (Terminating cx) = True"
| "answered (Acking cx) = True"
| "answered (Finished (Acked b)) = True"
| "answered (Finished (Termed b)) = True"
| "answered p = False"

lemma answered_step: "advance json an D dl p = Some (D', p', es) \<Longrightarrow> answered p \<Longrightarrow> answered p'"
  by (cases p) (auto simp: ack_delivery_def)

lemma answered_cases: "answered p \<Longrightarrow> past_record p \<or> refused p"
  by (cases p rule: answered.cases) auto

text \<open>A task past the gate of an agent left alone still passes it.\<close>

definition passed_inv :: "(string \<Rightarrow> sval option) \<Rightarrow> agent_id set \<Rightarrow> dsys \<Rightarrow> bool" where
  "passed_inv json A s =
     (\<forall>(dl, p) \<in> set (sys_tasks s). dl_agent dl \<in> A \<longrightarrow>
        (\<forall>e. envelope_of p = Some e \<longrightarrow> (\<exists>c. gate json (sys_disp s) dl = Inr (e, c))))"

lemma passed_inv_step:
  assumes step: "sys_step json Ok A s s'" and inv: "passed_inv json A s"
  shows "passed_inv json A s'"
proof -
  have gate: "gate json (sys_disp s') d = gate json (sys_disp s) d" if "dl_agent d \<in> A" for d
    using step that by (rule gate_step)
  from step show ?thesis
  proof (rule sys_stepE)
    assume "task_step json Ok s s'"
    then obtain i dl p an D' p' es where s': "s' = s\<lparr>sys_disp := D',
        sys_tasks := (sys_tasks s)[i := (dl, p')], sys_log := sys_log s @ map (Pair i) es\<rparr>"
      and i: "i < length (sys_tasks s)" "sys_tasks s ! i = (dl, p)"
      and adv: "advance json an (sys_disp s) dl p = Some (D', p', es)"
      by (rule task_stepE)
    have mem: "(dl, p) \<in> set (sys_tasks s)" using i by (metis nth_mem)
    have "\<exists>c. gate json (sys_disp s) dl = Inr (e, c)" if "dl_agent dl \<in> A" "envelope_of p' = Some e" for e
      using envelope_step[OF adv that(2)] inv mem that(1) by (fastforce simp: passed_inv_def)
    moreover have "x = (dl, p') \<or> x \<in> set (sys_tasks s)" if "x \<in> set (sys_tasks s')" for x
      using that by (auto simp: s' dest: set_update_subset_insert[THEN subsetD])
    ultimately show ?thesis using inv gate unfolding passed_inv_def by fastforce
  qed (use inv gate in \<open>auto simp: passed_inv_def envelope_of_def\<close>)
qed

lemma passed_inv_init: "sys_init s \<Longrightarrow> passed_inv json A s"
  by (simp add: sys_init_def passed_inv_def)

interpretation passes: invariant sys_init "sys_step json Ok A" "passed_inv json A" for json Ok A
  by unfold_locales (auto intro: passed_inv_init passed_inv_step)

text \<open>Every start has spawned the handler of the event in its content.\<close>

definition started_inv :: "(string \<Rightarrow> sval option) \<Rightarrow> agent_id \<Rightarrow> dsys \<Rightarrow> bool" where
  "started_inv json a s =
     (\<forall>j \<in> set (handler_starts a s). j < length (sys_tasks s) \<and> dl_agent (fst (sys_tasks s ! j)) = a \<and>
        (\<exists>ev. envelope_parse json (dl_raw (fst (sys_tasks s ! j))) = Inr ev \<and> 0 < spawns a (ev_event_id ev) s))"

lemma start_spawns:
  assumes "advance json an D dl p = Some (D', p', es)" and "filter (is_start (dl_agent dl)) es \<noteq> []"
  obtains cx where "p = Claimed cx" "length (filter (is_start (dl_agent dl)) es) = 1"
    "count_where (is_spawn (dl_agent dl) (event_of cx)) es = 1"
proof -
  from start_step[OF assms(1), of "dl_agent dl"] assms(2) obtain cx where cx: "p = Claimed cx"
    "filter (is_start (dl_agent dl)) es = [Spawn (handler_command dl cx)]" by auto
  have "is_spawn a e eff \<Longrightarrow> is_start a eff" for a e eff
    by (auto simp: is_spawn_def is_start_def split: effect.splits)
  moreover have "is_spawn (dl_agent dl) (event_of cx) (Spawn (handler_command dl cx))" by (simp add: is_spawn_def)
  moreover have "Spawn (handler_command dl cx) \<in> set (filter (is_start (dl_agent dl)) es)" by (simp add: cx(2))
  ultimately have "count_where (is_spawn (dl_agent dl) (event_of cx)) es \<noteq> 0" by (auto simp: count_where_zero)
  with spawn_step[OF assms(1), of "dl_agent dl" "event_of cx"] have
    "count_where (is_spawn (dl_agent dl) (event_of cx)) es = 1" by (simp split: if_splits)
  with cx that show thesis by simp
qed

lemma spawns_work:
  "spawns a e (s\<lparr>sys_disp := D', sys_tasks := ts, sys_log := sys_log s @ map (Pair i) es\<rparr>) =
     spawns a e s + count_where (is_spawn a e) es"
  by (simp add: spawns_def count_where_def filter_map o_def)

lemma started_inv_work:
  assumes "task_step json Ok s s'" and rec: "record_inv json s" and inv: "started_inv json a s"
  shows "started_inv json a s'"
proof -
  from assms(1) obtain i dl p an D' p' es where s': "s' = s\<lparr>sys_disp := D',
      sys_tasks := (sys_tasks s)[i := (dl, p')], sys_log := sys_log s @ map (Pair i) es\<rparr>"
    and i: "i < length (sys_tasks s)" "sys_tasks s ! i = (dl, p)"
    and adv: "advance json an (sys_disp s) dl p = Some (D', p', es)"
    by (rule task_stepE)
  have fsts: "fst (sys_tasks s' ! j) = fst (sys_tasks s ! j)" for j
    using i by (cases "j = i") (auto simp: s')
  have grow: "spawns a e s \<le> spawns a e s'" for e by (simp add: s' spawns_work)
  have old: "j < length (sys_tasks s') \<and> dl_agent (fst (sys_tasks s' ! j)) = a \<and>
      (\<exists>ev. envelope_parse json (dl_raw (fst (sys_tasks s' ! j))) = Inr ev \<and> 0 < spawns a (ev_event_id ev) s')"
    if j: "j \<in> set (handler_starts a s)" for j
  proof -
    from inv j obtain ev where "j < length (sys_tasks s)" "dl_agent (fst (sys_tasks s ! j)) = a"
      "envelope_parse json (dl_raw (fst (sys_tasks s ! j))) = Inr ev" "0 < spawns a (ev_event_id ev) s"
      unfolding started_inv_def by blast
    with grow[of "ev_event_id ev"] show ?thesis by (auto simp: fsts) (simp add: s')
  qed
  show ?thesis
  proof (cases "filter (is_start a) es = []")
    case True
    then have "handler_starts a s' = handler_starts a s" by (simp add: s' starts_work)
    with old show ?thesis by (simp add: started_inv_def)
  next
    case False
    with start_step[OF adv, of a] have a: "dl_agent dl = a" by auto
    from start_spawns[OF adv] False a obtain cx where cx: "p = Claimed cx" "length (filter (is_start a) es) = 1"
      "count_where (is_spawn a (event_of cx)) es = 1" by metis
    have "handler_starts a s' = handler_starts a s @ [i]" using cx(2) by (simp add: s' starts_work)
    moreover have "(dl, p) \<in> set (sys_tasks s)" using i by (metis nth_mem)
    with rec cx(1) have "envelope_parse json (dl_raw dl) = Inr (cx_envelope cx)"
      by (auto simp: record_inv_def envelope_of_def)
    moreover have "0 < spawns a (event_of cx) s'" using cx(3) by (simp add: s' spawns_work)
    ultimately show ?thesis using old i a by (auto simp: started_inv_def fsts) (simp add: s')
  qed
qed

lemma started_inv_step:
  assumes "sys_step json Ok A s s'" and "record_inv json s" and inv: "started_inv json a s"
  shows "started_inv json a s'"
  using assms(1)
proof (rule sys_stepE)
  assume "task_step json Ok s s'"
  then show ?thesis using assms(2,3) by (rule started_inv_work)
qed (use inv in \<open>auto simp: started_inv_def handler_starts_def spawns_def nth_append\<close>)

lemma started_inv_init: "sys_init s \<Longrightarrow> started_inv json a s"
  by (simp add: sys_init_def started_inv_def handler_starts_def)

interpretation starts: strengthened_invariant sys_init "sys_step json store_ok A" "record_inv json"
    "started_inv json a" for json A a
  by unfold_locales (auto intro: record_inv_init record_inv_step started_inv_init started_inv_step)

lemma answers_reachable_store: "sys_reachable json answers_ok A s \<Longrightarrow> sys_reachable json store_ok A s"
  by (induction rule: reachable.induct)
    (auto intro: reachable_init reachable_step sys_step_mono[OF _ answers_ok_store])

text \<open>
  When the handler of a serial agent starts, no handler has started for the same content before, and no delivery
  of the same content has been answered.
\<close>

lemma start_is_new:
  assumes reach: "sys_reachable json answers_ok A s" and a: "a \<in> A"
    and reg: "get (dp_registry (sys_disp s)) a = Some c" "max_concurrency c = DEFAULT_CONCURRENCY"
    and i: "i < length (sys_tasks s)" "sys_tasks s ! i = (dl, p)" "dl_agent dl = a" and ok: "answers_ok an"
    and adv: "advance json an (sys_disp s) dl p = Some (D', p', es)" and start: "filter (is_start a) es \<noteq> []"
  shows "j \<in> set (handler_starts a s) \<Longrightarrow> dl_raw (fst (sys_tasks s ! j)) \<noteq> dl_raw dl"
    and "(dl', q) \<in> set (sys_tasks s) \<Longrightarrow> dl_agent dl' = a \<Longrightarrow> dl_raw dl' = dl_raw dl \<Longrightarrow> \<not> answered q"
proof -
  let ?s' = "s\<lparr>sys_disp := D', sys_tasks := (sys_tasks s)[i := (dl, p')], sys_log := sys_log s @ map (Pair i) es\<rparr>"
  have step: "sys_step json answers_ok A s ?s'" using i(1,2) ok adv by (blast intro: work task_stepI)
  note store = answers_reachable_store
  from start_spawns[OF adv] start i(3) obtain cx where cx: "p = Claimed cx"
    "count_where (is_spawn a (event_of cx)) es = 1" by metis
  have mem: "(dl, p) \<in> set (sys_tasks s)" using i by (metis nth_mem)
  have inv: "record_inv json s" "started_inv json a s" "complete_inv json A s" "passed_inv json A s"
    using starts.both.inv_reachable[OF store[OF reach]] completes.extra_reachable[OF reach] passes.inv_reachable[OF reach]
    by blast+
  have env: "envelope_parse json (dl_raw dl) = Inr (cx_envelope cx)"
    using inv(1) mem cx(1) by (auto simp: record_inv_def envelope_of_def)
  show "dl_raw (fst (sys_tasks s ! j)) \<noteq> dl_raw dl" if "j \<in> set (handler_starts a s)"
  proof
    assume "dl_raw (fst (sys_tasks s ! j)) = dl_raw dl"
    with inv(2) that env have "0 < spawns a (event_of cx) s" by (auto simp: started_inv_def)
    with cx(2) have "2 \<le> spawns a (event_of cx) ?s'" unfolding spawns_work by simp
    moreover have "spawns a (event_of cx) ?s' \<le> 1"
      using serial_bound[OF store[OF reachable_step[OF reach step]] a _ reg(2)] reg(1) advance_registry[OF adv] by simp
    ultimately show False by simp
  qed
  show "\<not> answered q" if q: "(dl', q) \<in> set (sys_tasks s)" "dl_agent dl' = a" "dl_raw dl' = dl_raw dl"
  proof
    assume "answered q"
    from answered_cases[OF this] show False
    proof
      assume "past_record q"
      with inv(1) q env have "(a, event_of cx) \<in> completed_set (dp_dedup (sys_disp s))"
        by (fastforce simp: record_inv_def recorded_def)
      moreover have "serial_ok a s"
        using serial.extra_reachable[OF store[OF reach]] a reg by (auto simp: serial_inv_def DEFAULT_CONCURRENCY_def)
      ultimately show False using i cx(1) by (fastforce simp: serial_ok_def)
    next
      assume "refused q"
      have "\<exists>c. gate json (sys_disp s) dl = Inr (cx_envelope cx, c)"
        using inv(4) mem a i(3) cx(1) by (auto simp: passed_inv_def envelope_of_def)
      then have "\<exists>c. gate json (sys_disp s) dl' = Inr (cx_envelope cx, c)"
        using q(2,3) i(3) by (simp add: gate_ok_iff)
      with \<open>refused q\<close> inv(3) q(1,2) a show False by (fastforce simp: complete_inv_def)
    qed
  qed
qed

section \<open>The order of the stream\<close>

text \<open>
  \<open>body\<close> is the content of the stream, \<open>U\<close> the messages of the agent that the server counts as not yet
  acknowledged.
\<close>

abbreviation seq_of :: "dsys \<Rightarrow> nat \<Rightarrow> u64" where
  "seq_of s j \<equiv> dl_stream_sequence (fst (sys_tasks s ! j))"

definition has_answer :: "agent_id \<Rightarrow> u64 \<Rightarrow> dsys \<Rightarrow> bool" where
  "has_answer a q s = (\<exists>(dl, p) \<in> set (sys_tasks s). dl_agent dl = a \<and> dl_stream_sequence dl = q \<and> answered p)"

definition order_inv :: "(u64 \<Rightarrow> string) \<Rightarrow> agent_id \<Rightarrow> dsys \<Rightarrow> u64 set \<Rightarrow> bool" where
  "order_inv body a s U =
     (sorted_wrt (<) (map (seq_of s) (handler_starts a s)) \<and>
      (\<forall>(dl, p) \<in> set (sys_tasks s). dl_agent dl = a \<longrightarrow>
         dl_raw dl = body (dl_stream_sequence dl) \<and> (\<forall>q \<in> U. dl_stream_sequence dl \<le> q) \<and>
         (dl_stream_sequence dl \<in> U \<or> has_answer a (dl_stream_sequence dl) s)))"

lemma has_answer_work: "task_step json Ok s s' \<Longrightarrow> has_answer a q s \<Longrightarrow> has_answer a q s'"
proof (erule task_stepE)
  fix i dl p an D' p' es
  assume s': "s' = s\<lparr>sys_disp := D', sys_tasks := (sys_tasks s)[i := (dl, p')], sys_log := sys_log s @ map (Pair i) es\<rparr>"
    and i: "i < length (sys_tasks s)" "sys_tasks s ! i = (dl, p)"
    and adv: "advance json an (sys_disp s) dl p = Some (D', p', es)" and "has_answer a q s"
  then obtain j dl' r where j: "j < length (sys_tasks s)" "sys_tasks s ! j = (dl', r)" "dl_agent dl' = a"
    "dl_stream_sequence dl' = q" "answered r" by (auto simp: has_answer_def in_set_conv_nth)
  have "\<exists>r'. sys_tasks s' ! j = (dl', r') \<and> answered r'"
    using i j answered_step[OF adv] by (cases "j = i") (auto simp: s')
  then obtain r' where "(dl', r') \<in> set (sys_tasks s')" "answered r'" using j(1) by (metis length_list_update nth_mem s'
      dsys.select_convs(2) dsys.surjective dsys.update_convs(1,2,3))
  with j(3,4) show "has_answer a q s'" by (auto simp: has_answer_def)
qed

lemma order_inv_work:
  assumes step: "task_step json answers_ok s s'" and reach: "sys_reachable json answers_ok A s" and a: "a \<in> A"
    and reg: "get (dp_registry (sys_disp s)) a = Some c" "max_concurrency c = DEFAULT_CONCURRENCY"
    and inv: "order_inv body a s U"
  shows "order_inv body a s' U"
proof -
  from step obtain i dl p an D' p' es where s': "s' = s\<lparr>sys_disp := D',
      sys_tasks := (sys_tasks s)[i := (dl, p')], sys_log := sys_log s @ map (Pair i) es\<rparr>"
    and i: "i < length (sys_tasks s)" "sys_tasks s ! i = (dl, p)" and ok: "answers_ok an"
    and adv: "advance json an (sys_disp s) dl p = Some (D', p', es)"
    by (rule task_stepE)
  have mem: "(dl, p) \<in> set (sys_tasks s)" using i by (metis nth_mem)
  have seqs: "seq_of s' = seq_of s" using i by (auto simp: s' nth_list_update fun_eq_iff)
  have old: "sorted_wrt (<) (map (seq_of s) (handler_starts a s))" using inv by (simp add: order_inv_def)
  have "sorted_wrt (<) (map (seq_of s') (handler_starts a s'))"
  proof (cases "filter (is_start a) es = []")
    case True
    with old show ?thesis unfolding seqs by (simp add: s' starts_work)
  next
    case False
    with start_step[OF adv, of a] have dl: "dl_agent dl = a" "length (filter (is_start a) es) = 1" by auto
    note new = start_is_new[OF reach a reg i dl(1) ok adv False]
    have "seq_of s j < dl_stream_sequence dl" if j: "j \<in> set (handler_starts a s)" for j
    proof -
      have "started_inv json a s" using starts.extra_reachable[OF answers_reachable_store[OF reach]] .
      with j have j': "sys_tasks s ! j \<in> set (sys_tasks s)" "dl_agent (fst (sys_tasks s ! j)) = a"
        by (auto simp: started_inv_def)
      with inv mem dl(1) have raw: "dl_raw (fst (sys_tasks s ! j)) = body (seq_of s j)"
          "dl_raw dl = body (dl_stream_sequence dl)" and top: "q \<in> U \<Longrightarrow> seq_of s j \<le> q" for q
        by (auto simp: order_inv_def case_prod_unfold)
      have "\<not> has_answer a (dl_stream_sequence dl) s"
      proof
        assume "has_answer a (dl_stream_sequence dl) s"
        then obtain d r where d: "(d, r) \<in> set (sys_tasks s)" "dl_agent d = a"
          "dl_stream_sequence d = dl_stream_sequence dl" "answered r" by (auto simp: has_answer_def)
        with inv raw(2) have "dl_raw d = dl_raw dl" by (auto simp: order_inv_def)
        with new(2)[OF d(1,2)] d(4) show False by blast
      qed
      with inv mem dl(1) have "dl_stream_sequence dl \<in> U" by (auto simp: order_inv_def)
      then have "seq_of s j \<le> dl_stream_sequence dl" by (rule top)
      moreover have "seq_of s j \<noteq> dl_stream_sequence dl" using new(1)[OF j] raw by auto
      ultimately show ?thesis by simp
    qed
    with old show ?thesis unfolding seqs using i by (simp add: s' starts_work dl(2) sorted_wrt_append)
  qed
  moreover have "fst x = dl \<or> x \<in> set (sys_tasks s)" if "x \<in> set (sys_tasks s')" for x
    using that by (auto simp: s' dest: set_update_subset_insert[THEN subsetD])
  ultimately show ?thesis
    using inv mem has_answer_work[OF step] unfolding order_inv_def by fastforce
qed

lemma order_inv_other:
  "order_inv body a s U \<Longrightarrow> order_inv body a (s\<lparr>sys_disp := D\<rparr>) U"
  by (simp add: order_inv_def handler_starts_def has_answer_def)

text \<open>An arriving delivery is for another agent, another copy of a message of \<open>U\<close>, or the next message of an empty \<open>U\<close>.\<close>

lemma order_inv_arrive:
  assumes inv: "order_inv body a s U" and starts: "\<forall>j \<in> set (handler_starts a s). j < length (sys_tasks s)"
    and new: "dl_agent dl = a \<Longrightarrow> dl_raw dl = body (dl_stream_sequence dl) \<and> dl_stream_sequence dl \<in> U' \<and>
       (U' = U \<or> U' = {dl_stream_sequence dl} \<and> U = {} \<and>
          (\<forall>(d, p) \<in> set (sys_tasks s). dl_agent d = a \<longrightarrow> dl_stream_sequence d < dl_stream_sequence dl))"
    and other: "dl_agent dl \<noteq> a \<Longrightarrow> U' = U"
    and one: "\<forall>q \<in> U. \<forall>q' \<in> U. q = q'"
  shows "order_inv body a (s\<lparr>sys_tasks := sys_tasks s @ [(dl, Entered)]\<rparr>) U'"
proof -
  let ?s' = "s\<lparr>sys_tasks := sys_tasks s @ [(dl, Entered)]\<rparr>"
  have ans: "has_answer a q ?s' = has_answer a q s" for q by (simp add: has_answer_def)
  have "map (seq_of ?s') (handler_starts a ?s') = map (seq_of s) (handler_starts a s)"
    using starts by (auto simp: handler_starts_def nth_append)
  moreover have "dl_raw d = body (dl_stream_sequence d) \<and> (\<forall>q \<in> U'. dl_stream_sequence d \<le> q) \<and>
      (dl_stream_sequence d \<in> U' \<or> has_answer a (dl_stream_sequence d) s)"
    if mem: "(d, p) \<in> set (sys_tasks s)" "dl_agent d = a" for d p
  proof -
    have old: "dl_raw d = body (dl_stream_sequence d) \<and> (\<forall>q \<in> U. dl_stream_sequence d \<le> q) \<and>
        (dl_stream_sequence d \<in> U \<or> has_answer a (dl_stream_sequence d) s)"
      using inv mem by (auto simp: order_inv_def)
    show ?thesis
    proof (cases "U' = U")
      case False
      with new other have U: "U = {}" "U' = {dl_stream_sequence dl}"
        and lt: "\<forall>(d, p) \<in> set (sys_tasks s). dl_agent d = a \<longrightarrow> dl_stream_sequence d < dl_stream_sequence dl" by auto
      from lt mem have "dl_stream_sequence d < dl_stream_sequence dl" by auto
      with old U show ?thesis by simp
    qed (use old in simp)
  qed
  moreover have "dl_raw dl = body (dl_stream_sequence dl) \<and> (\<forall>q \<in> U'. dl_stream_sequence dl \<le> q) \<and>
      dl_stream_sequence dl \<in> U'" if "dl_agent dl = a"
    using new[OF that] one by auto
  ultimately show ?thesis using inv unfolding order_inv_def ans by auto
qed

lemma order_inv_settle:
  "order_inv body a s U \<Longrightarrow> has_answer a q s \<Longrightarrow> order_inv body a s (U - {q})"
  by (fastforce simp: order_inv_def)

lemma order_inv_init: "sys_init s \<Longrightarrow> order_inv body a s U"
  by (simp add: sys_init_def order_inv_def handler_starts_def)

end
