(* ===== verification/Daemon_Order.thy ===== *)
theory Daemon_Order
  imports Daemon_Restarts Dispatch_Order
begin

text \<open>
  Delivery order (\<open>docs/whitepaper-v0.md\<close>, section 9.1): when the server keeps the window of the consumer that the
  relay asks for, the handlers of a serial agent start in the order of the stream, whatever is redelivered; when
  it does not, the pull loop fetches ahead and nothing in the daemon keeps the order.
\<close>

section \<open>A server that keeps its window\<close>

text \<open>
  The daemon together with the messages of one agent that its server counts as not yet acknowledged.  What
  JetStream documents of a durable consumer: a message is handed out again only while it is pending, the next
  one only while fewer than \<open>max_ack_pending\<close> are, in the order of the stream, and a message stops to be pending
  when the answer to one of its deliveries has come in (confirmed to the daemon or not), or, if it was never
  handed over, by itself.  \<open>body\<close> is the content of the stream.
\<close>

definition window :: "consumer_config \<Rightarrow> nat" where
  "window cc = nat (sint (cc_max_ack_pending cc))"

definition arrivals :: "agent_id \<Rightarrow> fsys \<Rightarrow> fsys \<Rightarrow> delivery list" where
  "arrivals a s s' = filter (\<lambda>dl. dl_agent dl = a) (map fst (drop (length (fs_tasks s)) (fs_tasks s')))"

definition handed_out :: "agent_id \<Rightarrow> fsys \<Rightarrow> u64 set" where
  "handed_out a s = dl_stream_sequence ` {dl \<in> fst ` set (fs_tasks s). dl_agent dl = a}"

inductive served_step ::
    "toml_codec \<Rightarrow> (string \<Rightarrow> sval option) \<Rightarrow> (answers \<Rightarrow> bool) \<Rightarrow> agent_id set \<Rightarrow> agent_id \<Rightarrow> nat \<Rightarrow> (u64 \<Rightarrow> string) \<Rightarrow>
     fsys \<times> u64 set \<Rightarrow> fsys \<times> u64 set \<Rightarrow> bool"
  for tc :: toml_codec and json :: "string \<Rightarrow> sval option" and Ok :: "answers \<Rightarrow> bool" and A :: "agent_id set"
    and a :: agent_id and W :: nat and body :: "u64 \<Rightarrow> string" where
  served_none: "full_step tc json Ok A s s' \<Longrightarrow> arrivals a s s' = [] \<Longrightarrow>
     served_step tc json Ok A a W body (s, U) (s', U)"
| served_again: "full_step tc json Ok A s s' \<Longrightarrow> arrivals a s s' = [dl] \<Longrightarrow>
     dl_raw dl = body (dl_stream_sequence dl) \<Longrightarrow> dl_stream_sequence dl \<in> U \<Longrightarrow>
     served_step tc json Ok A a W body (s, U) (s', U)"
| served_next: "full_step tc json Ok A s s' \<Longrightarrow> arrivals a s s' = [dl] \<Longrightarrow>
     dl_raw dl = body (dl_stream_sequence dl) \<Longrightarrow> card U < W \<Longrightarrow>
     \<forall>q \<in> handed_out a s. q < dl_stream_sequence dl \<Longrightarrow>
     served_step tc json Ok A a W body (s, U) (s', insert (dl_stream_sequence dl) U)"
| served_settled: "has_answer a q (dispatcher_view s) \<or> q \<notin> handed_out a s \<Longrightarrow>
     served_step tc json Ok A a W body (s, U) (s, U - {q})"

inductive_cases served_stepE: "served_step tc json Ok A a W body (s, U) (s', U')"

lemma handed_out_iff:
  "(\<forall>q \<in> handed_out a s. P q) \<longleftrightarrow>
     (\<forall>(dl, p) \<in> set (sys_tasks (dispatcher_view s)). dl_agent dl = a \<longrightarrow> P (dl_stream_sequence dl))"
  by (auto simp: handed_out_def)

text \<open>The window of a serial agent.\<close>

lemma serial_window:
  "bind_consumer env a mc rl = Inr cc \<Longrightarrow> mc = DEFAULT_CONCURRENCY \<Longrightarrow> window cc = 1"
  by (auto simp: bind_consumer_def consumer_config_of_def window_def sint_ucast_i64 DEFAULT_CONCURRENCY_def
      split: if_splits)

lemma order_inv_untasked:
  assumes "order_inv body a (dispatcher_view s) U" and "q \<notin> handed_out a s"
  shows "order_inv body a (dispatcher_view s) (U - {q})"
proof -
  have "dl_stream_sequence dl \<noteq> q" if "(dl, p) \<in> set (sys_tasks (dispatcher_view s))" "dl_agent dl = a" for dl p
    using assms(2) that by (force simp: handed_out_def)
  with assms(1) show ?thesis unfolding order_inv_def by blast
qed

section \<open>The order\<close>

definition serial_agent :: "agent_id set \<Rightarrow> agent_id \<Rightarrow> agent_config \<Rightarrow> fsys \<Rightarrow> bool" where
  "serial_agent A a c s =
     (a \<in> A \<and> get (dp_registry (fs_disp s)) a = Some c \<and> max_concurrency c = DEFAULT_CONCURRENCY)"

definition served_inv ::
    "toml_codec \<Rightarrow> (string \<Rightarrow> sval option) \<Rightarrow> agent_id set \<Rightarrow> agent_id \<Rightarrow> agent_config \<Rightarrow> (u64 \<Rightarrow> string) \<Rightarrow> fsys \<times> u64 set \<Rightarrow> bool" where
  "served_inv tc json A a c body = (\<lambda>(s, U).
     full_reachable tc json answers_ok A s \<and> serial_agent A a c s \<and> finite U \<and> card U \<le> 1 \<and>
     order_inv body a (dispatcher_view s) U)"

text \<open>What a step of the daemon does to the tasks of the agent.\<close>

lemma task_step_length: "task_step json Ok t t' \<Longrightarrow> length (sys_tasks t') = length (sys_tasks t)"
  by (erule task_stepE) simp

lemma order_inv_full:
  assumes step: "full_step tc json answers_ok A s s'" and inv: "served_inv tc json A a c body (s, U)"
    and new: "\<And>dl. arrivals a s s' = [dl] \<Longrightarrow> dl_raw dl = body (dl_stream_sequence dl) \<and> dl_stream_sequence dl \<in> U' \<and>
       (U' = U \<or> U' = {dl_stream_sequence dl} \<and> U = {} \<and> (\<forall>q \<in> handed_out a s. q < dl_stream_sequence dl))"
    and none: "arrivals a s s' = [] \<Longrightarrow> U' = U"
  shows "order_inv body a (dispatcher_view s') U'"
proof -
  let ?t = "dispatcher_view s" and ?t' = "dispatcher_view s'"
  have r: "full_reachable tc json answers_ok A s" and a: "a \<in> A"
    and reg: "get (dp_registry (sys_disp ?t)) a = Some c" "max_concurrency c = DEFAULT_CONCURRENCY"
    and fin: "finite U" "card U \<le> 1" and ord: "order_inv body a ?t U"
    using inv by (simp_all add: served_inv_def serial_agent_def)
  note sr = full_reachable_sys[OF r]
  have keep: "arrivals a s s' = []" if "length (sys_tasks ?t') = length (sys_tasks ?t)"
    using that by (simp add: arrivals_def)
  from full_step_sys1[OF step full_reachable_inv[OF r]] show ?thesis
  proof
    assume same: "?t' = ?t"
    with keep none ord show ?thesis by simp
  next
    assume "sys_step json answers_ok A ?t ?t'"
    then show ?thesis
    proof (rule sys_stepE)
      assume "task_step json answers_ok ?t ?t'"
      moreover from this have "length (sys_tasks ?t') = length (sys_tasks ?t)" by (rule task_step_length)
      ultimately show ?thesis using order_inv_work[OF _ sr a reg ord] keep none by simp
    next
      fix dl assume t': "?t' = ?t\<lparr>sys_tasks := sys_tasks ?t @ [(dl, Entered)]\<rparr>"
      then have tasks: "fs_tasks s' = fs_tasks s @ [(dl, Entered)]" by (simp flip: view_tasks)
      have arr: "arrivals a s s' = (if dl_agent dl = a then [dl] else [])" by (simp add: arrivals_def tasks)
      have "started_inv json a ?t" using starts.extra_reachable[OF answers_reachable_store[OF sr]] .
      then have st: "\<forall>j \<in> set (handler_starts a ?t). j < length (sys_tasks ?t)" by (simp add: started_inv_def)
      have one: "\<forall>q \<in> U. \<forall>q' \<in> U. q = q'" using fin by (simp add: card_le_Suc0_iff_eq)
      show ?thesis
        unfolding t'
      proof (rule order_inv_arrive[OF ord st _ _ one])
        assume "dl_agent dl = a"
        with new[of dl] arr show "dl_raw dl = body (dl_stream_sequence dl) \<and> dl_stream_sequence dl \<in> U' \<and>
            (U' = U \<or> U' = {dl_stream_sequence dl} \<and> U = {} \<and>
             (\<forall>(d, p) \<in> set (sys_tasks ?t). dl_agent d = a \<longrightarrow> dl_stream_sequence d < dl_stream_sequence dl))"
          unfolding handed_out_iff by simp
      qed (use none arr in simp)
    qed (use keep none ord in \<open>auto intro: order_inv_other\<close>)
  qed
qed

lemma serial_agent_step:
  assumes "full_step tc json Ok A s s'" and "full_inv A s" and "serial_agent A a c s"
  shows "serial_agent A a c s'"
proof -
  have "a \<in> A" using assms(3) by (simp add: serial_agent_def)
  then have "get (dp_registry (sys_disp t')) a = get (dp_registry (sys_disp t)) a"
    if "t' = t \<or> sys_step json Ok A t t'" for t t'
    using that by (auto dest: step_registry)
  from this[OF full_step_sys1[OF assms(1,2)]]
  have "get (dp_registry (sys_disp (dispatcher_view s'))) a = get (dp_registry (sys_disp (dispatcher_view s))) a" .
  with assms(3) show ?thesis by (simp add: serial_agent_def)
qed

lemma served_inv_step:
  assumes step: "served_step tc json answers_ok A a 1 body (s, U) (s', U')" and inv: "served_inv tc json A a c body (s, U)"
  shows "served_inv tc json A a c body (s', U')"
proof -
  have r: "full_reachable tc json answers_ok A s" and fin: "finite U" "card U \<le> 1" and ser: "serial_agent A a c s"
    and ord: "order_inv body a (dispatcher_view s) U" using inv by (simp_all add: served_inv_def)
  have daemon: "full_reachable tc json answers_ok A s' \<and> serial_agent A a c s'" if "full_step tc json answers_ok A s s'"
    using reachable_step[OF r that] serial_agent_step[OF that full_reachable_inv[OF r] ser] by blast
  from step show ?thesis
  proof (rule served_stepE)
    assume "full_step tc json answers_ok A s s'" "arrivals a s s' = []" "U' = U"
    with daemon fin order_inv_full[OF _ inv, of s' U'] show ?thesis by (simp add: served_inv_def)
  next
    fix dl assume "full_step tc json answers_ok A s s'" "arrivals a s s' = [dl]" "U' = U"
      "dl_raw dl = body (dl_stream_sequence dl)" "dl_stream_sequence dl \<in> U"
    with daemon fin order_inv_full[OF _ inv, of s' U'] show ?thesis by (simp add: served_inv_def)
  next
    fix dl assume dl: "full_step tc json answers_ok A s s'" "arrivals a s s' = [dl]"
      "U' = insert (dl_stream_sequence dl) U" "dl_raw dl = body (dl_stream_sequence dl)" "card U < 1"
      "\<forall>q \<in> handed_out a s. q < dl_stream_sequence dl"
    then have "U = {}" using fin by simp
    with dl daemon order_inv_full[OF dl(1) inv, of U'] show ?thesis by (simp add: served_inv_def)
  next
    fix q assume q: "s' = s" "U' = U - {q}" "has_answer a q (dispatcher_view s) \<or> q \<notin> handed_out a s"
    then have "order_inv body a (dispatcher_view s) U'" using ord by (auto intro: order_inv_settle order_inv_untasked)
    moreover have "card (U - {q}) \<le> card U" by (rule card_Diff1_le)
    ultimately show ?thesis using r ser fin q(1,2) by (simp add: served_inv_def)
  qed
qed

text \<open>The daemon starts; at most one message is pending from before.\<close>

definition served_init :: "agent_id set \<Rightarrow> agent_id \<Rightarrow> agent_config \<Rightarrow> fsys \<times> u64 set \<Rightarrow> bool" where
  "served_init A a c = (\<lambda>(s, U). full_init s \<and> serial_agent A a c s \<and> finite U \<and> card U \<le> 1)"

interpretation orders: invariant "served_init A a c" "served_step tc json answers_ok A a 1 body"
    "served_inv tc json A a c body" for tc json A a c body
proof unfold_locales
  show "served_inv tc json A a c body x" if "served_init A a c x" for x
    using that by (auto simp: served_init_def served_inv_def intro: reachable_init order_inv_init[OF full_init_sys])
  show "served_inv tc json A a c body y"
    if "served_step tc json answers_ok A a 1 body x y" "served_inv tc json A a c body x" for x y
    using that served_inv_step by (cases x; cases y) blast
qed

text \<open>
  C11. Delivery order for a serial agent that is left alone, with a working store and handlers that can be spawned:
  while the server keeps the window of the consumer the relay asks for (at most one message pending, which it may
  redeliver at will), the handlers of the agent start in the order of the stream, each message at most once,
  whatever else the daemon does meanwhile.
\<close>

theorem handlers_start_in_order:
  assumes "full_init s0" and "a \<in> A"
    and "get (dp_registry (fs_disp s0)) a = Some c" and "max_concurrency c = DEFAULT_CONCURRENCY"
    and "bind_consumer env a (max_concurrency c) (fs_relay s0) = Inr cc"
    and "finite U0" and "card U0 \<le> window cc"
    and "(served_step tc json answers_ok A a (window cc) body)\<^sup>*\<^sup>* (s0, U0) (s, U)"
  shows "sorted_wrt (<) (map (seq_of (dispatcher_view s)) (handler_starts a (dispatcher_view s)))"
proof -
  have W: "window cc = 1" using assms(5,4) by (rule serial_window)
  have "served_init A a c (s0, U0)" using assms(1-4,6,7) W by (simp add: served_init_def serial_agent_def)
  then have "served_inv tc json A a c body (s0, U0)" by (rule orders.inv_init)
  from orders.inv_steps[OF assms(8)[unfolded W] this] show ?thesis by (simp add: served_inv_def order_inv_def)
qed

section \<open>A server that does not wait\<close>

text \<open>
  The pull loop asks for free slots before the task it has just spawned has taken its permit, so it fetches the
  next message of a serial agent while the one before has not even started.
\<close>

definition second_delivery :: delivery where
  "second_delivery = demo_delivery\<lparr>dl_raw := ''n'', dl_stream_sequence := 8, dl_consumer_sequence := 6\<rparr>"

definition second_envelope :: event_envelope where
  "second_envelope = demo_envelope\<lparr>ev_event_id := ''f''\<rparr>"

definition two_events :: "string \<Rightarrow> sval option" where
  "two_events b =
     (if b = ''n''
      then Some (VObj [(''version'', VInt 1), (''event_id'', VStr ''f''), (''agent_id'', VStr ''a''),
                       (''type'', VStr ''t''), (''created_at'', VStr ''c''), (''payload'', VNull)])
      else demo_json b)"

definition next_fetch :: "loop_answers list" where
  "next_fetch =
     \<lparr>la_fetch = Fetch_Ok, la_item = Batch_End, la_lock = True\<rparr> #
     replicate 4 \<lparr>la_fetch = Fetch_Ok,
       la_item = Item ''n'' \<lparr>mi_stream_sequence = 8, mi_consumer_sequence = 6, mi_delivered = 1\<rparr>, la_lock = True\<rparr>"

lemma two_events_parse:
  "envelope_parse two_events ''m'' = Inr demo_envelope" "envelope_parse two_events ''n'' = Inr second_envelope"
  by code_simp+

lemma second_sel [simp]:
  "dl_agent second_delivery = demo_id" "dl_raw second_delivery = ''n''" "ev_agent_id second_envelope = demo_id"
  "ev_event_id second_envelope = ''f''"
  by (simp_all add: second_delivery_def second_envelope_def)

lemma fetched_ahead:
  obtains s where "\<And>json Ok A. full_reachable demo_codec json Ok A s" "fs_phase s = Serving"
    "fs_tasks s = [(demo_delivery, Entered), (second_delivery, Entered)]"
    "get (dp_registry (fs_disp s)) demo_id = Some demo_config" "dp_dedup (fs_disp s) = []"
    "dp_max_event_bytes (fs_disp s) = max_event_bytes default_config"
    "dp_states (fs_disp s) = [(demo_id, \<lparr>st_permits = 0, st_in_flight = {}\<rparr>)]"
    "dp_sems (fs_disp s) = [\<lparr>sem_capacity = 1, sem_available = 1\<rparr>]" "fs_log s = []"
proof -
  have "\<forall>(k, t) \<in> set []. \<not> t <s saturating_sub 10 (dedup_ttl default_config)" by simp
  then obtain w t where t: "daemon_start demo_codec (demo_start_on []) None = Inr (default_config, w)"
    "\<And>tc json Ok A. (full_step tc json Ok A)\<^sup>*\<^sup>* (fresh_system w) t" "fs_phase t = Serving"
    "fs_tasks t = [(demo_delivery, Entered)]" "get (dp_registry (fs_disp t)) demo_id = Some demo_config"
    "dp_dedup (fs_disp t) = []" "dp_max_event_bytes (fs_disp t) = max_event_bytes default_config"
    "dp_states (fs_disp t) = [(demo_id, \<lparr>st_permits = 0, st_in_flight = {}\<rparr>)]"
    "dp_sems (fs_disp t) = [\<lparr>sem_capacity = 1, sem_available = 1\<rparr>]" "fs_log t = []"
    "rl_loops (fs_relay t) = [demo_loop]" "rl_dispatch_tasks (fs_relay t) = [demo_delivery]"
    by (rule demo_fetched) blast
  obtain s where s: "run_loop 0 next_fetch t = Some s"
      "fs_tasks s = [(demo_delivery, Entered), (second_delivery, Entered)]" "fs_disp s = fs_disp t" "fs_log s = []"
    by (simp add: t next_fetch_def replicate_numeral loop_step_def poll_slots_def available_def ensure_state_def
        demo_loop_def demo_config_def handed_over_def delivery_of_def second_delivery_def demo_delivery_def Let_def)
  have steps: "(full_step tc json Ok A)\<^sup>*\<^sup>* (fresh_system w) s" "fs_phase s = Serving" for tc json Ok A
    using run_loop_steps[OF s(1) t(3), of tc json Ok A] t(2)[of tc json Ok A] by (auto intro: rtranclp_trans)
  have "full_reachable demo_codec json Ok A s" for json Ok A
    using fresh_system_init[OF t(1) demo_disk_start] steps(1) by (blast intro: reachable_steps reachable_init)
  with that[OF this steps(2) s(2)] t s show ?thesis by simp
qed

text \<open>The second delivery takes the permit first, and its handler runs to its end before the first starts.\<close>

lemma two_gates:
  assumes "get (dp_registry D) demo_id = Some demo_config" and "dp_max_event_bytes D = max_event_bytes default_config"
  shows "gate two_events D demo_delivery = Inr (demo_envelope, demo_config)"
    and "gate two_events D second_delivery = Inr (second_envelope, demo_config)"
  by (simp_all add: gate_ok_iff two_events_parse assms) (simp_all add: default_config_def demo_config_def)

lemma overtaken:
  assumes "sys_tasks v = [(demo_delivery, Entered), (second_delivery, Entered)]"
    "get (dp_registry (sys_disp v)) demo_id = Some demo_config" "dp_dedup (sys_disp v) = []"
    "dp_max_event_bytes (sys_disp v) = max_event_bytes default_config"
    "dp_states (sys_disp v) = [(demo_id, \<lparr>st_permits = 0, st_in_flight = {}\<rparr>)]"
    "dp_sems (sys_disp v) = [\<lparr>sem_capacity = 1, sem_available = 1\<rparr>]" "sys_log v = []"
  obtains v1 v2 where "sched_run two_events (task 1 10) v = Some v1" "sched_run two_events (task 0 10) v1 = Some v2"
    "sys_tasks v2 = [(demo_delivery, Finished (Acked True)), (second_delivery, Finished (Acked True))]"
    "handler_starts demo_id v2 = [1, 0]" "get (dp_registry (sys_disp v2)) demo_id = Some demo_config"
  using that by (simp add: schedule_simps two_gates assms handler_starts_def is_start_def)

text \<open>
  C39. Fetching ahead: a daemon whose serial agent is left alone hands over two deliveries before the first has its
  permit, and starts the handler of the second before that of the first.
\<close>

theorem order_needs_the_server:
  "\<exists>s c. full_reachable demo_codec two_events store_ok UNIV s \<and> map fst (fs_tasks s) = [demo_delivery, second_delivery] \<and>
     get (dp_registry (fs_disp s)) demo_id = Some c \<and> max_concurrency c = DEFAULT_CONCURRENCY \<and>
     handler_starts demo_id (dispatcher_view s) = [1, 0]"
proof -
  obtain s where s: "\<And>json Ok A. full_reachable demo_codec json Ok A s" "fs_phase s = Serving"
    "fs_tasks s = [(demo_delivery, Entered), (second_delivery, Entered)]"
    "get (dp_registry (fs_disp s)) demo_id = Some demo_config" "dp_dedup (fs_disp s) = []"
    "dp_max_event_bytes (fs_disp s) = max_event_bytes default_config"
    "dp_states (fs_disp s) = [(demo_id, \<lparr>st_permits = 0, st_in_flight = {}\<rparr>)]"
    "dp_sems (fs_disp s) = [\<lparr>sem_capacity = 1, sem_available = 1\<rparr>]" "fs_log s = []"
    by (rule fetched_ahead) blast
  obtain v1 v2 where v: "sched_run two_events (task 1 10) (dispatcher_view s) = Some v1"
    "sched_run two_events (task 0 10) v1 = Some v2"
    "sys_tasks v2 = [(demo_delivery, Finished (Acked True)), (second_delivery, Finished (Acked True))]"
    "handler_starts demo_id v2 = [1, 0]" "get (dp_registry (sys_disp v2)) demo_id = Some demo_config"
    by (rule overtaken[of "dispatcher_view s"]) (simp_all add: s dispatcher_view_def)
  have "(task_step two_events store_ok)\<^sup>*\<^sup>* (dispatcher_view s) v2"
    using task_run_steps[of _ _ _ _ _ store_ok, OF v(1) store_ok_demo]
      task_run_steps[of _ _ _ _ _ store_ok, OF v(2) store_ok_demo] by (rule rtranclp_trans)
  from task_steps_full[OF this, of demo_codec UNIV] s(2)
  obtain u where u: "(full_step demo_codec two_events store_ok UNIV)\<^sup>*\<^sup>* s u" "dispatcher_view u = v2" by auto
  have "full_reachable demo_codec two_events store_ok UNIV u" using u(1) s(1) by (rule reachable_steps)
  moreover have "fs_tasks u = sys_tasks v2" "fs_disp u = sys_disp v2" using u(2) by (simp_all flip: view_tasks)
  ultimately show ?thesis
    using v(3-5) u(2) by (intro exI[of _ u] exI[of _ demo_config]) (simp add: demo_config_def DEFAULT_CONCURRENCY_def)
qed

section \<open>A run with a redelivered copy\<close>

text \<open>Runs of the daemon as runs with their server: without an arrival, and with one.\<close>

lemma map_fst_update: "fst (xs ! i) = x \<Longrightarrow> map fst (xs[i := (x, y)]) = map fst xs"
  by (metis fst_conv list_update_id map_update)

lemma tasks_prefix: "full_step tc json Ok A s s' \<Longrightarrow> \<exists>l. map fst (fs_tasks s') = map fst (fs_tasks s) @ l"
  by (erule full_stepE) (auto simp: map_fst_update)

lemma tasks_prefix_steps:
  "(full_step tc json Ok A)\<^sup>*\<^sup>* s s' \<Longrightarrow> \<exists>l. map fst (fs_tasks s') = map fst (fs_tasks s) @ l"
  by (induction rule: rtranclp_induct) (auto dest!: tasks_prefix)

lemma served_quiet:
  "(full_step tc json Ok A)\<^sup>*\<^sup>* s s' \<Longrightarrow> map fst (fs_tasks s') = map fst (fs_tasks s) \<Longrightarrow>
     (served_step tc json Ok A a W body)\<^sup>*\<^sup>* (s, U) (s', U)"
proof (induction rule: rtranclp_induct)
  case (step t u)
  obtain l l' where "map fst (fs_tasks t) = map fst (fs_tasks s) @ l" "map fst (fs_tasks u) = map fst (fs_tasks t) @ l'"
    using tasks_prefix_steps[OF step.hyps(1)] tasks_prefix[OF step.hyps(2)] by blast
  with step.prems have eq: "map fst (fs_tasks t) = map fst (fs_tasks s)" "map fst (fs_tasks u) = map fst (fs_tasks t)"
    by simp_all
  then have "length (fs_tasks u) = length (fs_tasks t)" using map_eq_imp_length_eq by blast
  then have "served_step tc json Ok A a W body (t, U) (u, U)"
    using step.hyps(2) by (intro served_none) (simp_all add: arrivals_def)
  with step.IH[OF eq(1)] show ?case by (rule rtranclp.rtrancl_into_rtrancl)
qed simp

text \<open>One arrival happens in one step.\<close>

lemma one_arrival:
  assumes "(full_step tc json Ok A)\<^sup>*\<^sup>* s s'" and "map fst (fs_tasks s') = map fst (fs_tasks s) @ [dl]" and "dl_agent dl = a"
  obtains t u where "(full_step tc json Ok A)\<^sup>*\<^sup>* s t" "map fst (fs_tasks t) = map fst (fs_tasks s)"
    "full_step tc json Ok A t u" "arrivals a t u = [dl]"
    "(full_step tc json Ok A)\<^sup>*\<^sup>* u s'" "map fst (fs_tasks s') = map fst (fs_tasks u)"
  using assms
proof (induction arbitrary: thesis rule: rtranclp_induct)
  case (step v s')
  obtain l l' where l: "map fst (fs_tasks v) = map fst (fs_tasks s) @ l" "map fst (fs_tasks s') = map fst (fs_tasks v) @ l'"
    using tasks_prefix_steps[OF step.hyps(1)] tasks_prefix[OF step.hyps(2)] by blast
  with step.prems(2) consider "l = []" "l' = [dl]" | "l = [dl]" "l' = []" by (cases l) auto
  then show ?case
  proof cases
    case 1
    have "map fst (drop (length (fs_tasks v)) (fs_tasks s')) = [dl]"
      using l 1 by (metis append_eq_conv_conj drop_map length_map)
    then have "arrivals a v s' = [dl]" using step.prems(3) by (simp add: arrivals_def)
    from step.prems(1)[OF step.hyps(1) _ step.hyps(2) this] l 1 show ?thesis by simp
  next
    case 2
    with l have "map fst (fs_tasks v) = map fst (fs_tasks s) @ [dl]" by simp
    from step.IH[OF _ this step.prems(3)] obtain t u where "(full_step tc json Ok A)\<^sup>*\<^sup>* s t"
      "map fst (fs_tasks t) = map fst (fs_tasks s)" "full_step tc json Ok A t u" "arrivals a t u = [dl]"
      "(full_step tc json Ok A)\<^sup>*\<^sup>* u v" "map fst (fs_tasks v) = map fst (fs_tasks u)" by metis
    with step.prems(1)[of t u] step.hyps(2) l 2 show ?thesis by (auto intro: rtranclp.rtrancl_into_rtrancl)
  qed
qed simp

lemma handed_out_fst: "handed_out a s = dl_stream_sequence ` {dl \<in> set (map fst (fs_tasks s)). dl_agent dl = a}"
  by (simp add: handed_out_def)

lemma served_arrival:
  assumes "(full_step tc json Ok A)\<^sup>*\<^sup>* s s'" and "map fst (fs_tasks s') = map fst (fs_tasks s) @ [dl]" and "dl_agent dl = a"
    and "dl_raw dl = body (dl_stream_sequence dl)"
    and "dl_stream_sequence dl \<in> U \<or> card U < W \<and> (\<forall>q \<in> handed_out a s. q < dl_stream_sequence dl)"
  shows "(served_step tc json Ok A a W body)\<^sup>*\<^sup>* (s, U) (s', insert (dl_stream_sequence dl) U)"
proof -
  let ?U = "insert (dl_stream_sequence dl) U"
  from assms(1-3) obtain t u where t: "(full_step tc json Ok A)\<^sup>*\<^sup>* s t" "map fst (fs_tasks t) = map fst (fs_tasks s)"
    "full_step tc json Ok A t u" "arrivals a t u = [dl]"
    "(full_step tc json Ok A)\<^sup>*\<^sup>* u s'" "map fst (fs_tasks s') = map fst (fs_tasks u)" by (rule one_arrival)
  have "handed_out a t = handed_out a s" by (simp only: handed_out_fst t(2))
  then have "served_step tc json Ok A a W body (t, U) (u, ?U)"
    using served_next[OF t(3,4), of body U W] served_again[OF t(3,4), of body U W] assms(4,5)
    by (auto simp: insert_absorb)
  with served_quiet[OF t(1,2), of a W body U] served_quiet[OF t(5,6), of a W body ?U] show ?thesis by simp
qed

text \<open>
  The sample daemon receives its message, a second copy of it before the first has started, and when both are
  acknowledged the next message.
\<close>

definition copy_delivery :: delivery where
  "copy_delivery = demo_delivery\<lparr>dl_consumer_sequence := 6, dl_delivery_count := 2\<rparr>"

definition later_delivery :: delivery where
  "later_delivery = second_delivery\<lparr>dl_consumer_sequence := 7\<rparr>"

definition fetch_item :: "string \<Rightarrow> message_info \<Rightarrow> loop_answers list" where
  "fetch_item raw info =
     \<lparr>la_fetch = Fetch_Ok, la_item = Batch_End, la_lock = True\<rparr> #
     replicate 4 \<lparr>la_fetch = Fetch_Ok, la_item = Item raw info, la_lock = True\<rparr>"

definition demo_body :: "u64 \<Rightarrow> string" where
  "demo_body q = (if q = 8 then ''n'' else ''m'')"

lemmas loop_simps =
  fetch_item_def replicate_numeral loop_step_def poll_slots_def available_def ensure_state_def demo_loop_def
  demo_config_def handed_over_def delivery_of_def Let_def

lemma demo_sequences [simp]:
  "dl_stream_sequence demo_delivery = 7" "dl_stream_sequence copy_delivery = 7" "dl_stream_sequence later_delivery = 8"
  "dl_raw copy_delivery = ''m''" "dl_raw later_delivery = ''n''" "dl_agent copy_delivery = demo_id" "dl_agent later_delivery = demo_id"
  by (simp_all add: copy_delivery_def later_delivery_def second_delivery_def demo_delivery_def)

lemma copies_fetched:
  obtains w s where "daemon_start demo_codec (demo_start_on []) None = Inr (default_config, w)"
    "\<And>json Ok A W. 1 \<le> W \<Longrightarrow> (served_step demo_codec json Ok A demo_id W demo_body)\<^sup>*\<^sup>* (fresh_system w, {}) (s, {7})"
    "fs_phase s = Serving" "fs_tasks s = [(demo_delivery, Entered), (copy_delivery, Entered)]"
    "get (dp_registry (fs_disp s)) demo_id = Some demo_config" "dp_dedup (fs_disp s) = []"
    "dp_max_event_bytes (fs_disp s) = max_event_bytes default_config"
    "dp_states (fs_disp s) = [(demo_id, \<lparr>st_permits = 0, st_in_flight = {}\<rparr>)]"
    "dp_sems (fs_disp s) = [\<lparr>sem_capacity = 1, sem_available = 1\<rparr>]" "fs_log s = []"
    "rl_loops (fs_relay s) = [demo_loop]" "rl_dispatch_tasks (fs_relay s) = [demo_delivery, copy_delivery]"
proof -
  let ?info = "\<lparr>mi_stream_sequence = 7, mi_consumer_sequence = 6, mi_delivered = 2\<rparr>"
  have "\<forall>(k, t) \<in> set []. \<not> t <s saturating_sub 10 (dedup_ttl default_config)" by simp
  then obtain w t where t: "daemon_start demo_codec (demo_start_on []) None = Inr (default_config, w)"
    "\<And>tc json Ok A. (full_step tc json Ok A)\<^sup>*\<^sup>* (fresh_system w) t" "fs_phase t = Serving"
    "fs_tasks t = [(demo_delivery, Entered)]" "get (dp_registry (fs_disp t)) demo_id = Some demo_config"
    "dp_dedup (fs_disp t) = []" "dp_max_event_bytes (fs_disp t) = max_event_bytes default_config"
    "dp_states (fs_disp t) = [(demo_id, \<lparr>st_permits = 0, st_in_flight = {}\<rparr>)]"
    "dp_sems (fs_disp t) = [\<lparr>sem_capacity = 1, sem_available = 1\<rparr>]" "fs_log t = []"
    "rl_loops (fs_relay t) = [demo_loop]" "rl_dispatch_tasks (fs_relay t) = [demo_delivery]"
    by (rule demo_fetched) blast
  obtain s where s: "run_loop 0 (fetch_item ''m'' ?info) t = Some s"
      "fs_tasks s = [(demo_delivery, Entered), (copy_delivery, Entered)]" "fs_disp s = fs_disp t" "fs_log s = []"
      "rl_loops (fs_relay s) = [demo_loop]" "rl_dispatch_tasks (fs_relay s) = [demo_delivery, copy_delivery]"
    by (simp add: t loop_simps copy_delivery_def demo_delivery_def)
  have steps: "(full_step tc json Ok A)\<^sup>*\<^sup>* t s" "fs_phase s = Serving" for tc json Ok A
    using run_loop_steps[OF s(1) t(3), of tc json Ok A] by auto
  have "(served_step demo_codec json Ok A demo_id W demo_body)\<^sup>*\<^sup>* (fresh_system w, {}) (t, {7})" if "1 \<le> W" for json Ok A W
    using served_arrival[of demo_codec json Ok A "fresh_system w" t demo_delivery demo_id demo_body "{}" W] t(2,4) that
    by (simp add: fresh_system_def handed_out_def demo_body_def)
  moreover have "(served_step demo_codec json Ok A demo_id W demo_body)\<^sup>*\<^sup>* (t, {7}) (s, {7})" for json Ok A W
    using served_arrival[of demo_codec json Ok A t s copy_delivery demo_id demo_body "{7}" W] steps(1) t(4) s(2)
    by (simp add: demo_body_def)
  ultimately have served: "(served_step demo_codec json Ok A demo_id W demo_body)\<^sup>*\<^sup>* (fresh_system w, {}) (s, {7})"
    if "1 \<le> W" for json Ok A W using that by (meson rtranclp_trans)
  show thesis
    by (rule that[OF t(1) served steps(2) s(2)]) (simp_all only: s(3-6) t(5-9))
qed

text \<open>Both copies are dispatched: the handler of the first runs, the second is found in the store.\<close>

lemma copies_dispatched:
  assumes "sys_tasks v = [(demo_delivery, Entered), (copy_delivery, Entered)]"
    "get (dp_registry (sys_disp v)) demo_id = Some demo_config" "dp_dedup (sys_disp v) = []"
    "dp_max_event_bytes (sys_disp v) = max_event_bytes default_config"
    "dp_states (sys_disp v) = [(demo_id, \<lparr>st_permits = 0, st_in_flight = {}\<rparr>)]"
    "dp_sems (sys_disp v) = [\<lparr>sem_capacity = 1, sem_available = 1\<rparr>]" "sys_log v = []"
  obtains v1 v2 where "sched_run two_events (task 0 10) v = Some v1" "sched_run two_events (task 1 5) v1 = Some v2"
    "sys_tasks v2 = [(demo_delivery, Finished (Acked True)), (copy_delivery, Finished (Acked True))]"
    "handler_starts demo_id v2 = [0]" "get (dp_registry (sys_disp v2)) demo_id = Some demo_config"
    "dp_max_event_bytes (sys_disp v2) = max_event_bytes default_config"
    "dp_states (sys_disp v2) = [(demo_id, \<lparr>st_permits = 0, st_in_flight = {}\<rparr>)]"
    "dp_sems (sys_disp v2) = [\<lparr>sem_capacity = 1, sem_available = 1\<rparr>]" "dp_dedup (sys_disp v2) = demo_rows"
proof -
  have "gate two_events D copy_delivery = Inr (demo_envelope, demo_config)"
    if "get (dp_registry D) demo_id = Some demo_config" "dp_max_event_bytes D = max_event_bytes default_config" for D
    using two_gates(1)[OF that] by (simp add: gate_ok_iff)
  then show thesis
    using that by (simp add: schedule_simps two_gates assms handler_starts_def is_start_def demo_rows_def)
qed

lemma is_start_simps:
  "is_start a (Spawn r) = (fst (spawn_key r) = as_str a)" "is_start a (Log l) = False"
  "is_start a (Ack_Sent b) = False" "is_start a (Term_Sent b) = False"
  by (simp_all add: is_start_def)

lemma later_dispatched:
  assumes "sys_tasks v = [(demo_delivery, Finished (Acked True)), (copy_delivery, Finished (Acked True)), (later_delivery, Entered)]"
    "get (dp_registry (sys_disp v)) demo_id = Some demo_config" "dp_dedup (sys_disp v) = demo_rows"
    "dp_max_event_bytes (sys_disp v) = max_event_bytes default_config"
    "dp_states (sys_disp v) = [(demo_id, \<lparr>st_permits = 0, st_in_flight = {}\<rparr>)]"
    "dp_sems (sys_disp v) = [\<lparr>sem_capacity = 1, sem_available = 1\<rparr>]" "handler_starts demo_id v = [0]"
  obtains v' where "sched_run two_events (task 2 10) v = Some v'"
    "sys_tasks v' = [(demo_delivery, Finished (Acked True)), (copy_delivery, Finished (Acked True)),
       (later_delivery, Finished (Acked True))]"
    "handler_starts demo_id v' = [0, 2]"
proof -
  have "gate two_events D later_delivery = Inr (second_envelope, demo_config)"
    if "get (dp_registry D) demo_id = Some demo_config" "dp_max_event_bytes D = max_event_bytes default_config" for D
    using two_gates(2)[OF that] by (simp add: gate_ok_iff)
  then show thesis
    using that assms(7) by (simp add: schedule_simps assms(1-6) handler_starts_def is_start_simps demo_rows_def)
qed

abbreviation demo_served :: "fsys \<times> u64 set \<Rightarrow> fsys \<times> u64 set \<Rightarrow> bool" where
  "demo_served \<equiv> served_step demo_codec two_events answers_ok UNIV demo_id 1 demo_body"

lemma tasks_served:
  assumes "(task_step two_events answers_ok)\<^sup>*\<^sup>* (dispatcher_view s) v" and "fs_phase s = Serving"
    and "map fst (sys_tasks v) = map fst (fs_tasks s)"
  obtains t where "demo_served\<^sup>*\<^sup>* (s, U) (t, U)" "dispatcher_view t = v" "fs_phase t = Serving" "fs_relay t = fs_relay s"
    "fs_tasks t = sys_tasks v" "fs_disp t = sys_disp v" "fs_log t = sys_log v"
proof -
  from task_steps_full[OF assms(1), of demo_codec UNIV] assms(2) obtain t where t:
    "(full_step demo_codec two_events answers_ok UNIV)\<^sup>*\<^sup>* s t" "dispatcher_view t = v" "fs_phase t = Serving"
    "fs_relay t = fs_relay s" by auto
  have tasks: "fs_tasks t = sys_tasks v" "fs_disp t = sys_disp v" "fs_log t = sys_log v"
    by (simp_all add: dispatcher_view_def flip: t(2))
  have "demo_served\<^sup>*\<^sup>* (s, U) (t, U)" using served_quiet[OF t(1)] by (simp add: tasks assms(3))
  from that[OF this t(2-4) tasks] show thesis .
qed

lemmas demo_task_steps = task_run_steps[where Ok = answers_ok and json = two_events]

text \<open>Both copies are acknowledged, and the server settles their message.\<close>

lemma copies_answered:
  obtains w t v where "daemon_start demo_codec (demo_start_on []) None = Inr (default_config, w)"
    "demo_served\<^sup>*\<^sup>* (fresh_system w, {}) (t, {})" "fs_phase t = Serving"
    "rl_loops (fs_relay t) = [demo_loop]" "rl_dispatch_tasks (fs_relay t) = [demo_delivery, copy_delivery]"
    "fs_tasks t = [(demo_delivery, Finished (Acked True)), (copy_delivery, Finished (Acked True))]"
    "handler_starts demo_id (dispatcher_view t) = [0]" "get (dp_registry (fs_disp t)) demo_id = Some demo_config"
    "dp_max_event_bytes (fs_disp t) = max_event_bytes default_config"
    "dp_states (fs_disp t) = [(demo_id, \<lparr>st_permits = 0, st_in_flight = {}\<rparr>)]"
    "dp_sems (fs_disp t) = [\<lparr>sem_capacity = 1, sem_available = 1\<rparr>]" "dp_dedup (fs_disp t) = demo_rows"
proof -
  have ok: "answers_ok demo_answers" by (simp add: answers_ok_def store_ok_demo)
  obtain w s where s: "daemon_start demo_codec (demo_start_on []) None = Inr (default_config, w)"
    "\<And>json Ok A W. 1 \<le> W \<Longrightarrow> (served_step demo_codec json Ok A demo_id W demo_body)\<^sup>*\<^sup>* (fresh_system w, {}) (s, {7})"
    "fs_phase s = Serving" "fs_tasks s = [(demo_delivery, Entered), (copy_delivery, Entered)]"
    "get (dp_registry (fs_disp s)) demo_id = Some demo_config" "dp_dedup (fs_disp s) = []"
    "dp_max_event_bytes (fs_disp s) = max_event_bytes default_config"
    "dp_states (fs_disp s) = [(demo_id, \<lparr>st_permits = 0, st_in_flight = {}\<rparr>)]"
    "dp_sems (fs_disp s) = [\<lparr>sem_capacity = 1, sem_available = 1\<rparr>]" "fs_log s = []"
    "rl_loops (fs_relay s) = [demo_loop]" "rl_dispatch_tasks (fs_relay s) = [demo_delivery, copy_delivery]"
    by (rule copies_fetched) blast
  obtain v1 v where v: "sched_run two_events (task 0 10) (dispatcher_view s) = Some v1"
    "sched_run two_events (task 1 5) v1 = Some v"
    "sys_tasks v = [(demo_delivery, Finished (Acked True)), (copy_delivery, Finished (Acked True))]"
    "handler_starts demo_id v = [0]" "get (dp_registry (sys_disp v)) demo_id = Some demo_config"
    "dp_max_event_bytes (sys_disp v) = max_event_bytes default_config"
    "dp_states (sys_disp v) = [(demo_id, \<lparr>st_permits = 0, st_in_flight = {}\<rparr>)]"
    "dp_sems (sys_disp v) = [\<lparr>sem_capacity = 1, sem_available = 1\<rparr>]" "dp_dedup (sys_disp v) = demo_rows"
    by (rule copies_dispatched[of "dispatcher_view s"]) (simp_all add: s(4-10) dispatcher_view_def)
  have "map fst (sys_tasks v) = map fst (fs_tasks s)" by (simp add: v(3) s(4))
  from tasks_served[OF rtranclp_trans[OF demo_task_steps[OF v(1) ok] demo_task_steps[OF v(2) ok]] s(3) this, of "{7}"]
  obtain t where t: "demo_served\<^sup>*\<^sup>* (s, {7}) (t, {7})" "dispatcher_view t = v" "fs_phase t = Serving"
    "fs_relay t = fs_relay s" "fs_tasks t = sys_tasks v" "fs_disp t = sys_disp v" by metis
  have "demo_served (t, {7}) (t, {7} - {7})"
    by (rule served_settled) (simp add: has_answer_def t(2) v(3))
  with t(1) s(2)[of 1 two_events answers_ok UNIV] have "demo_served\<^sup>*\<^sup>* (fresh_system w, {}) (t, {})" by simp
  from that[OF s(1) this t(3)] v(3-) s(11,12) t show thesis by simp
qed

lemma ordered_run:
  obtains w s where "daemon_start demo_codec (demo_start_on []) None = Inr (default_config, w)"
    "demo_served\<^sup>*\<^sup>* (fresh_system w, {}) (s, {8})"
    "map fst (fs_tasks s) = [demo_delivery, copy_delivery, later_delivery]"
    "handler_starts demo_id (dispatcher_view s) = [0, 2]"
proof -
  let ?info = "\<lparr>mi_stream_sequence = 8, mi_consumer_sequence = 7, mi_delivered = 1\<rparr>"
  have ok: "answers_ok demo_answers" by (simp add: answers_ok_def store_ok_demo)
  obtain w t where t: "daemon_start demo_codec (demo_start_on []) None = Inr (default_config, w)"
    "demo_served\<^sup>*\<^sup>* (fresh_system w, {}) (t, {})" "fs_phase t = Serving"
    "rl_loops (fs_relay t) = [demo_loop]" "rl_dispatch_tasks (fs_relay t) = [demo_delivery, copy_delivery]"
    "fs_tasks t = [(demo_delivery, Finished (Acked True)), (copy_delivery, Finished (Acked True))]"
    "handler_starts demo_id (dispatcher_view t) = [0]" "get (dp_registry (fs_disp t)) demo_id = Some demo_config"
    "dp_max_event_bytes (fs_disp t) = max_event_bytes default_config"
    "dp_states (fs_disp t) = [(demo_id, \<lparr>st_permits = 0, st_in_flight = {}\<rparr>)]"
    "dp_sems (fs_disp t) = [\<lparr>sem_capacity = 1, sem_available = 1\<rparr>]" "dp_dedup (fs_disp t) = demo_rows"
    by (rule copies_answered)
  obtain u where u: "run_loop 0 (fetch_item ''n'' ?info) t = Some u"
      "fs_tasks u = fs_tasks t @ [(later_delivery, Entered)]" "fs_disp u = fs_disp t" "fs_log u = fs_log t"
    by (simp add: t(4-12) loop_simps later_delivery_def second_delivery_def demo_delivery_def)
  have fetched: "(full_step demo_codec two_events answers_ok UNIV)\<^sup>*\<^sup>* t u" "fs_phase u = Serving"
    using run_loop_steps[OF u(1) t(3), of demo_codec two_events answers_ok UNIV] by auto
  have "\<forall>q \<in> handed_out demo_id t. q < 8" by (auto simp: handed_out_def t(6))
  then have two: "demo_served\<^sup>*\<^sup>* (t, {}) (u, {8})"
    using served_arrival[OF fetched(1), of later_delivery demo_id demo_body "{}" 1]
    by (simp add: u(2) t(6) demo_body_def)
  obtain v' where v': "sched_run two_events (task 2 10) (dispatcher_view u) = Some v'"
    "sys_tasks v' = [(demo_delivery, Finished (Acked True)), (copy_delivery, Finished (Acked True)),
       (later_delivery, Finished (Acked True))]" "handler_starts demo_id v' = [0, 2]"
  proof (rule later_dispatched[of "dispatcher_view u"])
    show "handler_starts demo_id (dispatcher_view u) = [0]"
      using t(7) by (simp add: handler_starts_def u(4) dispatcher_view_def)
  qed (simp_all add: u t(6-12))
  have "map fst (sys_tasks v') = map fst (fs_tasks u)" by (simp add: v'(2) u(2) t(6))
  from tasks_served[OF demo_task_steps[OF v'(1) ok] fetched(2) this, of "{8}"]
  obtain x where x: "demo_served\<^sup>*\<^sup>* (u, {8}) (x, {8})" "dispatcher_view x = v'" "fs_tasks x = sys_tasks v'" by metis
  have "demo_served\<^sup>*\<^sup>* (fresh_system w, {}) (x, {8})" using t(2) two x(1) by (meson rtranclp_trans)
  with that[OF t(1)] v'(2,3) x(2,3) show thesis by simp
qed

text \<open>The handlers of the first copy and of the next message start, with the sequences 7 and 8.\<close>

theorem handlers_start_in_order_witness:
  "\<exists>w s. demo_served\<^sup>*\<^sup>* (fresh_system w, {}) (s, {8}) \<and>
     map fst (fs_tasks s) = [demo_delivery, copy_delivery, later_delivery] \<and>
     handler_starts demo_id (dispatcher_view s) = [0, 2] \<and>
     sorted_wrt (<) (map (seq_of (dispatcher_view s)) (handler_starts demo_id (dispatcher_view s)))"
proof -
  obtain w s where s: "daemon_start demo_codec (demo_start_on []) None = Inr (default_config, w)"
    "demo_served\<^sup>*\<^sup>* (fresh_system w, {}) (s, {8})"
    "map fst (fs_tasks s) = [demo_delivery, copy_delivery, later_delivery]"
    "handler_starts demo_id (dispatcher_view s) = [0, 2]"
    by (rule ordered_run)
  have reg: "get (dp_registry (fs_disp (fresh_system w))) demo_id = Some demo_config"
    using demo_registered[OF s(1)] by (simp add: fresh_system_def)
  let ?env = "\<lparr>re_stream = True, re_consumer = \<lambda>_. True\<rparr>"
  let ?cc = "consumer_config_of demo_id (rl_ack_wait (fs_relay (fresh_system w))) DEFAULT_CONCURRENCY"
  have mc: "max_concurrency demo_config = DEFAULT_CONCURRENCY" by (simp add: demo_config_def DEFAULT_CONCURRENCY_def)
  have cc: "bind_consumer ?env demo_id (max_concurrency demo_config) (fs_relay (fresh_system w)) = Inr ?cc"
    by (simp add: bind_consumer_def mc)
  have W: "window ?cc = 1" using cc mc by (rule serial_window)
  from handlers_start_in_order[OF fresh_system_init[OF s(1) demo_disk_start] UNIV_I reg mc cc, of "{}" demo_codec two_events demo_body s "{8}"]
  have "sorted_wrt (<) (map (seq_of (dispatcher_view s)) (handler_starts demo_id (dispatcher_view s)))"
    using s(2) unfolding W by simp
  with s(2-4) show ?thesis by (intro exI conjI)
qed

end
