(* ===== verification/Ctl_Daemon.thy ===== *)
theory Ctl_Daemon
  imports Ctl
begin

text \<open>
  The CLI against the daemon: the transport is one connection served by \<open>serve_connection\<close>, so a remote
  call is the daemon's handling of the request, and a subcommand does to the daemon what it says.
\<close>

section \<open>The daemon as the other side\<close>

definition newline :: char where
  "newline = CHR 0x0A"

definition first_line :: "string \<Rightarrow> string" where
  "first_line s = takeWhile (\<lambda>c. c \<noteq> newline) s"

definition daemon_send :: "toml_codec \<Rightarrow> json_codec \<Rightarrow> texts \<Rightarrow> ctl_env \<Rightarrow> daemon transport" where
  "daemon_send tc js tx env line w =
     (case serve_connection tc js tx [(env, Some (first_line line), True)] w of
        (good, outs, w') \<Rightarrow> (Some (case outs of [] \<Rightarrow> None | t # _ \<Rightarrow> Some (first_line t)), w'))"

definition daemon_wire :: "toml_codec \<Rightarrow> json_codec \<Rightarrow> texts \<Rightarrow> ctl_env \<Rightarrow> daemon wire" where
  "daemon_wire tc js tx env =
     \<lparr>wi_connect = True, wi_write = True, wi_flush = True, wi_send = daemon_send tc js tx env\<rparr>"

text \<open>
  Documented behaviour of \<open>serde_json\<close> for a value that is sent: the compact text has no newline, is not
  blank, and parses to the value.
\<close>

definition carries :: "json_codec \<Rightarrow> sval \<Rightarrow> bool" where
  "carries js v =
     (\<exists>t. json_print js v = Some t \<and> json_parse js t = Some v \<and> newline \<notin> set t \<and> trim t \<noteq> [])"

lemma first_line_newline [simp]: "newline \<notin> set t \<Longrightarrow> first_line (t @ [newline]) = t"
  by (simp add: first_line_def takeWhile_append)

lemma rpc_daemon:
  assumes "carries js (serialize_request rq)" and "valid_request rq"
    and h: "handle_request tc (tx_error tx) env w rq = (resp, w')"
    and "carries js (serialize_response resp)" and "valid_response resp"
  shows "rpc js (daemon_wire tc js tx env) socket rq w = (Inr resp, w')"
proof -
  from assms(1) obtain t where t: "json_print js (serialize_request rq) = Some t"
    "json_parse js t = Some (serialize_request rq)" "newline \<notin> set t" "trim t \<noteq> []"
    by (auto simp: carries_def)
  from assms(4) obtain u where u: "json_print js (serialize_response resp) = Some u"
    "json_parse js u = Some (serialize_response resp)" "newline \<notin> set u"
    by (auto simp: carries_def)
  have "parse_request js t = Some rq"
    using t(2) request_roundtrip[OF assms(2)] by (simp add: parse_request_def)
  then have "answer_line tc js tx env w t = (resp, w')"
    using h by (simp add: answer_line_def)
  moreover have "render_response js resp = u @ [newline]"
    using u(1) by (simp add: render_response_def newline_def)
  ultimately have "daemon_send tc js tx env (t @ [newline]) w = (Some (Some u), w')"
    using t(3,4) u(3) by (simp add: daemon_send_def)
  then show ?thesis
    using t(1) u(2) response_roundtrip[OF assms(5)]
    by (simp add: rpc_def daemon_wire_def newline_def)
qed

lemma valid_into_resp: "valid_response (into_resp se r)"
  by (cases r) (auto simp: into_resp_def valid_response_def response_ok_def response_err_def)

lemma snapshot_valid:
  "registry_ok tc r \<Longrightarrow> c \<in> set (snapshot r) \<Longrightarrow> get r (agent_id c) = Some c \<and> valid_id (agent_id c)"
  using snapshot_set[of r] by (auto simp: registry_ok_def valid_config_def dest: get_id)

lemma list_response:
  assumes "daemon_ok tc w"
  shows "handle_request tc se env w List = (response_ok\<lparr>rs_agents := Some (snapshot (dm_registry w))\<rparr>, w)"
    and "valid_response (response_ok\<lparr>rs_agents := Some (snapshot (dm_registry w))\<rparr>)"
  using assms snapshot_valid[of tc "dm_registry w"]
  by (auto simp: valid_response_def response_ok_def daemon_ok_def)

text \<open>The lookup by id in the list is the lookup in the registry.\<close>

lemma find_snapshot:
  assumes "registry_ok tc r" and "get r a = Some c"
  shows "find (\<lambda>x. as_str (agent_id x) = as_str a) (snapshot r) = Some c"
proof -
  have c: "c \<in> set (snapshot r)" "agent_id c = a"
    using assms snapshot_set[of r] by (auto simp: registry_ok_def dest: get_id)
  have "find (\<lambda>x. as_str (agent_id x) = as_str a) (snapshot r) \<noteq> None"
    using c by (auto simp: find_None_iff)
  then obtain d where d: "find (\<lambda>x. as_str (agent_id x) = as_str a) (snapshot r) = Some d" by auto
  then have "d \<in> set (snapshot r)" "as_str (agent_id d) = as_str a" by (auto simp: find_Some_iff)
  with snapshot_valid[OF assms(1)] assms(2) have "d = c" by (metis as_str_inject option.inject)
  with d show ?thesis by simp
qed

lemma merge_flags_id [simp]: "agent_id (merge_flags h mc cwd en dis c) = agent_id c"
  by (auto simp: merge_flags_def Let_def split: option.splits)

section \<open>Properties\<close>

text \<open>A flag that is given replaces its field, and nothing else changes.\<close>

theorem merge_flags_fields:
  assumes "\<not> (en \<and> dis)"
  shows "merge_flags h mc cwd en dis c =
     \<lparr>agent_id = agent_id c,
      handler = (case h of Some x \<Rightarrow> x | None \<Rightarrow> handler c),
      max_concurrency = (case mc of Some x \<Rightarrow> x | None \<Rightarrow> max_concurrency c),
      working_directory = (case cwd of Some x \<Rightarrow> Some x | None \<Rightarrow> working_directory c),
      enabled = (if en then True else if dis then False else enabled c)\<rparr>"
  using assms by (cases c) (auto simp: merge_flags_def split: option.splits)

theorem merge_flags_fields_witness:
  "merge_flags None (Some 4) None False True demo_config =
     \<lparr>agent_id = demo_id, handler = ''/h'', max_concurrency = 4, working_directory = None, enabled = False\<rparr>"
  using merge_flags_fields[of False True None "Some 4" None demo_config] by (simp add: demo_config_def)

text \<open>
  C33. \<open>agentdctl update\<close> of a registered agent, on a wire on which every call succeeds (\<open>daemon_wire\<close>) and with no
  other client between the list and the update it sends: exit code 0 exactly when the daemon has taken the merged
  registration, no other agent is touched, and a refusal leaves the registration as it was.  When the read of
  the answer fails the client exits with 1 although the update was taken, and a client in between can lose its
  change (\<open>overlapping_updates_lost\<close>).
\<close>

theorem ctl_update_end_to_end:
  assumes ok: "daemon_ok tc w" and c: "get (dm_registry w) a = Some c"
    and u: "handle_request tc (tx_error tx) env w (Update (merge_flags h mc cwd en dis c)) = (resp, w')"
    and "carries js (serialize_request List)"
    and "carries js (serialize_response (response_ok\<lparr>rs_agents := Some (snapshot (dm_registry w))\<rparr>))"
    and "carries js (serialize_request (Update (merge_flags h mc cwd en dis c)))"
    and "carries js (serialize_response resp)"
    and run: "ctl_update js (daemon_wire tc js tx env) socket (as_str a) h mc cwd en dis w = (out, w'')"
  shows "w'' = w' \<and> (oc_exit out = 0 \<longleftrightarrow> rs_ok resp) \<and>
     get (dm_registry w'') =
       (if oc_exit out = 0 then (get (dm_registry w))(a \<mapsto> merge_flags h mc cwd en dis c)
        else get (dm_registry w))"
proof -
  let ?m = "merge_flags h mc cwd en dis c"
  have reg: "registry_ok tc (dm_registry w)" using ok by (simp add: daemon_ok_def)
  have a: "agent_id c = a" "valid_id a"
    using reg c by (auto simp: registry_ok_def valid_config_def dest: get_id)
  from rpc_daemon[OF assms(4) _ list_response(1)[OF ok] assms(5) list_response(2)[OF ok]]
  have l: "rpc js (daemon_wire tc js tx env) socket List w =
      (Inr (response_ok\<lparr>rs_agents := Some (snapshot (dm_registry w))\<rparr>), w)" by simp
  obtain q r where q: "handle_update tc env ?m w = (q, r)" by fastforce
  with u have resp: "resp = into_resp (tx_error tx) q" "w' = r" by simp_all
  have "valid_response resp" by (simp add: resp valid_into_resp)
  with rpc_daemon[OF assms(6) _ u assms(7)] a
  have "rpc js (daemon_wire tc js tx env) socket (Update ?m) w = (Inr resp, w')" by simp
  with run l find_snapshot[OF reg c] have out:
    "out = (if rs_ok resp then success [''updated '' @ as_str (agent_id c)]
            else fail (error_text ''unknown error'' resp))" "w'' = w'"
    by (auto simp: ctl_update_def response_ok_def)
  obtain p r' where p: "update tc (ce_io env) ?m (dm_registry w) = (p, r')" by fastforce
  have "get (dm_registry w') = (if rs_ok resp then (get (dm_registry w))(a \<mapsto> ?m) else get (dm_registry w))"
    using update_get[OF p] p q resp a
    by (cases p) (auto simp: handle_update_def into_resp_def response_ok_def response_err_def)
  with out show ?thesis by (auto simp: success_def fail_def)
qed

text \<open>A JSON codec that knows the four values of one update.\<close>

definition registered_daemon :: daemon where
  "registered_daemon = snd (handle_register demo_codec demo_env demo_config empty_daemon)"

definition demo_table :: "(sval \<times> string) list" where
  "demo_table =
     [(serialize_request List, ''l''),
      (serialize_response (response_ok\<lparr>rs_agents := Some [demo_config]\<rparr>), ''m''),
      (serialize_request (Update demo_config), ''u''),
      (serialize_response response_ok, ''o'')]"

definition demo_js :: json_codec where
  "demo_js = \<lparr>json_parse = map_of (map (\<lambda>(v, t). (t, v)) demo_table), json_print = map_of demo_table\<rparr>"

lemma demo_js_carries: "(v, t) \<in> set demo_table \<Longrightarrow> carries demo_js v"
proof -
  have p: "map_of demo_table v' = Some t'" if "(v', t') \<in> set demo_table" for v' t'
  proof -
    have "distinct (map fst demo_table)" by code_simp
    with that show ?thesis by simp
  qed
  have q: "map_of (map (\<lambda>(v, t). (t, v)) demo_table) t' = Some v'" if "(v', t') \<in> set demo_table" for v' t'
  proof -
    have "distinct (map fst (map (\<lambda>(v, t). (t, v)) demo_table))"
      by (simp add: demo_table_def)
    with that show ?thesis by (intro map_of_is_SomeI) (force simp: image_iff)+
  qed
  have ne: "trim x \<noteq> []" if "x \<in> {''l'', ''m'', ''u'', ''o''}" for x
  proof -
    have "trim ''l'' \<noteq> []" "trim ''m'' \<noteq> []" "trim ''u'' \<noteq> []" "trim ''o'' \<noteq> []" by code_simp+
    with that show ?thesis by auto
  qed
  assume m: "(v, t) \<in> set demo_table"
  then have "t \<in> {''l'', ''m'', ''u'', ''o''}" by (auto simp: demo_table_def)
  with p[OF m] q[OF m] ne[of t] show ?thesis
    unfolding carries_def by (intro exI[of _ t]) (auto simp: demo_js_def newline_def)
qed

theorem ctl_update_end_to_end_witness:
  "\<exists>out w''. ctl_update demo_js (daemon_wire demo_codec demo_js mute_texts demo_env) ''/s'' ''a''
     None None None False False registered_daemon = (out, w'') \<and>
   oc_exit out = 0 \<and> get (dm_registry w'') demo_id = Some demo_config"
proof -
  let ?w = registered_daemon
  let ?u = "handle_request demo_codec (tx_error mute_texts) demo_env ?w (Update demo_config)"
  have w: "daemon_ok demo_codec ?w"
    using handle_register_ok[OF demo_codec_roundtrip demo_valid(2)[folded demo_valid(3)] empty_daemon_ok(1)
        prod.collapse[symmetric]] by (simp add: registered_daemon_def)
  have c: "get (dm_registry ?w) demo_id = Some demo_config" by code_simp
  have s: "snapshot (dm_registry ?w) = [demo_config]" by code_simp
  have m: "merge_flags None None None False False demo_config = demo_config"
    by (simp add: merge_flags_def)
  have u: "?u = (response_ok, snd ?u)"
  proof -
    have "fst ?u = response_ok" by code_simp
    then show ?thesis by (metis prod.collapse)
  qed
  obtain out w'' where run: "ctl_update demo_js (daemon_wire demo_codec demo_js mute_texts demo_env) ''/s''
      (as_str demo_id) None None None False False ?w = (out, w'')" by fastforce
  have j: "carries demo_js (serialize_request List)"
    "carries demo_js (serialize_response (response_ok\<lparr>rs_agents := Some [demo_config]\<rparr>))"
    "carries demo_js (serialize_request (Update demo_config))"
    "carries demo_js (serialize_response response_ok)"
    using demo_js_carries[of "serialize_request List" "''l''"] demo_js_carries[of _ "''m''"]
      demo_js_carries[of "serialize_request (Update demo_config)" "''u''"] demo_js_carries[of _ "''o''"]
    by (simp_all add: demo_table_def)
  have "(oc_exit out = 0 \<longleftrightarrow> rs_ok response_ok) \<and>
     get (dm_registry w'') = (if oc_exit out = 0 then (get (dm_registry ?w))(demo_id \<mapsto> demo_config)
        else get (dm_registry ?w))"
    using ctl_update_end_to_end[OF w c, where h = None and mc = None and cwd = None and en = False
        and dis = False, unfolded m s, OF u j run] by blast
  with run show ?thesis by (auto simp: response_ok_def demo_id_def as_str_def)
qed

text \<open>The table of \<open>agentdctl list\<close> is not aligned: the width of the first column has no effect.\<close>

theorem list_rows_unaligned:
  "length list_header = 64 \<and>
   list_row demo_config = ''a enabled  1     /h                      '' \<and>
   list_row (demo_config\<lparr>agent_id := AgentId ''bb''\<rparr>) = ''bb enabled  1     /h                      ''"
  by code_simp

section \<open>Overlapping updates\<close>

lemma update_answer:
  assumes "handle_request tc se env w (Update c) = (resp, w')" and "rs_ok resp"
  shows "get (dm_registry w') = (get (dm_registry w))(agent_id c \<mapsto> c)"
proof -
  obtain p r' where p: "update tc (ce_io env) c (dm_registry w) = (p, r')" by fastforce
  show ?thesis
    using update_get[OF p] p assms
    by (cases p) (auto simp: handle_update_def into_resp_def response_ok_def response_err_def)
qed

text \<open>
  An update is a read and a write over two connections.  When two clients have both read before either
  writes, both report success, and what the first has changed is gone.
\<close>

theorem overlapping_updates_lost:
  assumes "handle_request tc se env1 w (Update (merge_flags h1 mc1 cwd1 en1 dis1 c)) = (r1, w1)" and "rs_ok r1"
    and "handle_request tc se env2 w1 (Update (merge_flags h2 mc2 cwd2 en2 dis2 c)) = (r2, w2)" and "rs_ok r2"
  shows "get (dm_registry w2) = (get (dm_registry w))(agent_id c \<mapsto> merge_flags h2 mc2 cwd2 en2 dis2 c)"
  using update_answer[OF assms(1,2)] update_answer[OF assms(3,4)] by simp

text \<open>A limit of four is lost to an update that disables the agent.\<close>

theorem overlapping_updates_lost_witness:
  "\<exists>r1 w1 r2 w2.
     handle_request (demo_codec\<lparr>toml_print := (\<lambda>v. Some ''t'')\<rparr>) (tx_error mute_texts) demo_env registered_daemon
       (Update (merge_flags None (Some 4) None False False demo_config)) = (r1, w1) \<and> rs_ok r1 \<and>
     handle_request (demo_codec\<lparr>toml_print := (\<lambda>v. Some ''t'')\<rparr>) (tx_error mute_texts) demo_env w1
       (Update (merge_flags None None None False True demo_config)) = (r2, w2) \<and> rs_ok r2 \<and>
     get (dm_registry w2) demo_id = Some (demo_config\<lparr>enabled := False\<rparr>)"
proof -
  let ?h = "handle_request (demo_codec\<lparr>toml_print := (\<lambda>v. Some ''t'')\<rparr>) (tx_error mute_texts) demo_env"
  let ?u1 = "?h registered_daemon (Update (merge_flags None (Some 4) None False False demo_config))"
  let ?u2 = "?h (snd ?u1) (Update (merge_flags None None None False True demo_config))"
  have ok: "rs_ok (fst ?u1)" "rs_ok (fst ?u2)" by code_simp+
  have "merge_flags None None None False True demo_config = demo_config\<lparr>enabled := False\<rparr>"
    by (simp add: merge_flags_def)
  with overlapping_updates_lost[OF prod.collapse[symmetric] ok(1) prod.collapse[symmetric] ok(2)] ok demo_valid(3)
  show ?thesis
    by (intro exI[of _ "fst ?u1"] exI[of _ "snd ?u1"] exI[of _ "fst ?u2"] exI[of _ "snd ?u2"]) simp
qed

end
