(* ===== verification/Dispatch_Races.thy ===== *)
theory Dispatch_Races
  imports Dispatch_History
begin

text \<open>
  Schedules outside the guarantees of the other theories: what the interleaved dispatcher can do to
  an agent with more than one permit, and to an agent that is reconfigured while it works.  Each
  schedule is an explicit list of steps that is run by evaluation.
\<close>

lemmas outcome_simps =
  spawns_def is_spawn_def handlers_running_def available_def

section \<open>Two permits: a redelivered event runs again\<close>

text \<open>
  The second copy of an event asks the dedup store before the first copy records its completion,
  and looks at the in-flight set after the first copy has left it.
\<close>

definition race_schedule :: "sched_event list" where
  "race_schedule =
     [Deliver demo_delivery, Deliver demo_delivery] @ task 0 7 @ task 1 4 @ task 0 2 @ task 1 2"

lemma race_run:
  "case sched_run demo_json race_schedule (demo_system race_config) of
     None \<Rightarrow> False | Some s \<Rightarrow> spawns demo_id ''e'' s = 2"
  by (simp add: race_schedule_def race_config_def demo_config_def schedule_simps outcome_simps)

text \<open>
  C36. With two permits a redelivered copy can run the handler a second time without a crash or a
  store error: the dedup lookup and the in-flight check are separate steps.
\<close>

theorem redelivery_race:
  "\<exists>s. sys_reachable demo_json store_ok UNIV s \<and> spawns demo_id ''e'' s = 2"
proof -
  obtain s where s: "sched_run demo_json race_schedule (demo_system race_config) = Some s"
      "spawns demo_id ''e'' s = 2"
    using race_run by (auto split: option.splits)
  have "\<forall>ev \<in> set race_schedule. admissible store_ok UNIV ev"
    by (auto simp: race_schedule_def store_ok_def demo_answers_def)
  moreover have "sound_registry (demo_registry race_config)"
    by (rule demo_sound) (simp_all add: race_config_def demo_config_def)
  ultimately have "sys_reachable demo_json store_ok UNIV s" using s(1) by (intro demo_reachable)
  with s(2) show ?thesis by blast
qed

section \<open>Reconfiguration: the limit and the in-flight set are forgotten\<close>

text \<open>
  An update of an agent whose handler is running: its state is forgotten, so a redelivered copy finds
  a fresh semaphore and an empty in-flight set.
\<close>

definition forget_schedule :: "sched_event list" where
  "forget_schedule =
     [Deliver demo_delivery] @ task 0 6 @
     [Forget [Updated demo_config], Deliver demo_delivery] @ task 1 6"

lemma forget_run:
  "case sched_run demo_json forget_schedule (demo_system demo_config) of
     None \<Rightarrow> False
   | Some s \<Rightarrow> handlers_running demo_id s = 2 \<and> spawns demo_id ''e'' s = 2 \<and>
       get (dp_registry (sys_disp s)) demo_id = Some demo_config"
  by (simp add: forget_schedule_def demo_config_def schedule_simps outcome_simps)

text \<open>
  C37. After an update of a working agent its limit can be exceeded and an event can be handled
  twice at once: the agent's semaphore and in-flight set are forgotten.
\<close>

theorem reconfigured_limit_exceeded:
  "\<exists>s c. sys_reachable demo_json store_ok {} s \<and> get (dp_registry (sys_disp s)) demo_id = Some c \<and>
     unat (max_concurrency c) < handlers_running demo_id s \<and> spawns demo_id ''e'' s = 2"
proof -
  obtain s where s: "sched_run demo_json forget_schedule (demo_system demo_config) = Some s"
      "handlers_running demo_id s = 2" "spawns demo_id ''e'' s = 2"
      "get (dp_registry (sys_disp s)) demo_id = Some demo_config"
    using forget_run by (auto split: option.splits)
  have "\<forall>ev \<in> set forget_schedule. admissible store_ok {} ev"
    by (auto simp: forget_schedule_def store_ok_def demo_answers_def)
  moreover have "sound_registry (demo_registry demo_config)"
    by (rule demo_sound) (simp_all add: demo_config_def)
  ultimately have "sys_reachable demo_json store_ok {} s" using s(1) by (intro demo_reachable)
  with s(2-4) show ?thesis by (intro exI[of _ s] exI[of _ demo_config]) (simp add: demo_config_def)
qed

text \<open>
  An update of the limit while a task is between its permit and its claim: the claim puts the old
  semaphore back, and the agent keeps the old limit after all tasks have finished.
\<close>

definition wide_config :: agent_config where
  "wide_config = demo_config\<lparr>max_concurrency := 5\<rparr>"

definition lost_schedule :: "sched_event list" where
  "lost_schedule =
     [Deliver demo_delivery] @ task 0 4 @
     [Reconfigure (demo_registry wide_config), Forget [Updated wide_config]] @ task 0 6"

lemma lost_run:
  "case sched_run demo_json lost_schedule (demo_system demo_config) of
     None \<Rightarrow> False
   | Some s \<Rightarrow> list_all (\<lambda>(dl, p). case p of Finished out \<Rightarrow> True | _ \<Rightarrow> False) (sys_tasks s) \<and>
       get (dp_registry (sys_disp s)) demo_id = Some wide_config \<and>
       fst (available demo_id (sys_disp s)) = 1"
  by (simp add: lost_schedule_def wide_config_def demo_config_def schedule_simps outcome_simps)

theorem concurrency_update_lost:
  "\<exists>s c. sys_reachable demo_json store_ok {} s \<and> all_done s \<and>
     get (dp_registry (sys_disp s)) demo_id = Some c \<and> max_concurrency c = 5 \<and>
     fst (available demo_id (sys_disp s)) = 1"
proof -
  obtain s where s: "sched_run demo_json lost_schedule (demo_system demo_config) = Some s"
      "list_all (\<lambda>(dl, p). case p of Finished out \<Rightarrow> True | _ \<Rightarrow> False) (sys_tasks s)"
      "get (dp_registry (sys_disp s)) demo_id = Some wide_config"
      "fst (available demo_id (sys_disp s)) = 1"
    using lost_run by (auto split: option.splits)
  have "sound_registry (demo_registry wide_config)"
    by (rule demo_sound) (simp_all add: wide_config_def demo_config_def)
  then have "\<forall>ev \<in> set lost_schedule. admissible store_ok {} ev"
    by (auto simp: lost_schedule_def store_ok_def demo_answers_def)
  moreover have "sound_registry (demo_registry demo_config)"
    by (rule demo_sound) (simp_all add: demo_config_def)
  ultimately have "sys_reachable demo_json store_ok {} s" using s(1) by (intro demo_reachable)
  moreover have "all_done s"
    using s(2) by (fastforce simp: all_done_def list_all_iff split: pc.splits)
  ultimately show ?thesis using s(3,4) by (intro exI[of _ s] exI[of _ wide_config]) (simp add: wide_config_def)
qed

end
