(* ===== verification/Envelope_Schema.thy ===== *)
theory Envelope_Schema
  imports Envelopes
begin

text \<open>
  The published JSON schema of events (\<open>docs/envelope.schema.json\<close>) as a predicate on documents, and what
  \<open>EventEnvelope::parse\<close> (\<open>src/event.rs\<close>) makes of a document that conforms to it.
\<close>

section \<open>The schema\<close>

text \<open>
  \<open>const 1\<close> compares numbers by value, so it also takes every float that is 1; \<open>VFloat\<close> keeps the text of
  the number: digits, a fraction and an exponent.
\<close>

definition is_digit :: "char \<Rightarrow> bool" where
  "is_digit c = (c \<in> set ''0123456789'')"

definition decimal :: "string \<Rightarrow> int" where
  "decimal ds = foldl (\<lambda>n c. 10 * n + (of_char c - 48)) 0 ds"

fun unsigned_exponent :: "string \<Rightarrow> int option" where
  "unsigned_exponent ds = (if ds \<noteq> [] \<and> list_all is_digit ds then Some (decimal ds) else None)"

definition signed_exponent :: "string \<Rightarrow> int option" where
  "signed_exponent t =
     (if take 1 t = ''-'' then map_option uminus (unsigned_exponent (drop 1 t))
      else if take 1 t = ''+'' then unsigned_exponent (drop 1 t)
      else unsigned_exponent t)"

definition exponent_of :: "string \<Rightarrow> int option" where
  "exponent_of t = (if t = [] then Some 0 else if take 1 t \<in> {''e'', ''E''} then signed_exponent (drop 1 t) else None)"

definition number_is_one :: "string \<Rightarrow> bool" where
  "number_is_one t =
     (let whole = takeWhile is_digit t; rest = dropWhile is_digit t;
          point = (take 1 rest = ''.'');
          frac = (if point then takeWhile is_digit (drop 1 rest) else []);
          tail = (if point then dropWhile is_digit (drop 1 rest) else rest)
      in whole \<noteq> [] \<and> (point \<longrightarrow> frac \<noteq> []) \<and>
         (case exponent_of tail of
            None \<Rightarrow> False
          | Some e \<Rightarrow> e \<le> int (length frac) \<and> decimal (whole @ frac) = 10 ^ nat (int (length frac) - e)))"

lemma number_is_one_samples:
  "list_all number_is_one [''1.0'', ''1.00'', ''1e0'', ''1E+0'', ''10e-1'', ''0.1e1'', ''0.001E3'', ''100.00e-02'']"
  "list_all (\<lambda>t. \<not> number_is_one t)
     [''-1.0'', ''1.1'', ''0.1'', ''1e1'', ''10e-2'', ''1.'', ''1e'', ''.1e1'', ''e0'', ''0.0'', ''1.0000001'']"
  by code_simp+

fun schema_version :: "sval \<Rightarrow> bool" where
  "schema_version (VInt n) = (n = 1)"
| "schema_version (VFloat t) = number_is_one t"
| "schema_version v = False"

fun schema_event_id :: "sval \<Rightarrow> bool" where
  "schema_event_id (VStr s) = (1 \<le> length s)"
| "schema_event_id v = False"

text \<open>The pattern: tokens of \<open>[a-z0-9][a-z0-9-]{0,62}\<close> joined by underscores, however many.\<close>

definition schema_pattern :: "string \<Rightarrow> bool" where
  "schema_pattern s = list_all is_token (split_on (CHR ''_'') s)"

fun schema_agent_id :: "sval \<Rightarrow> bool" where
  "schema_agent_id (VStr s) = (schema_pattern s \<and> length s \<le> 1024)"
| "schema_agent_id v = False"

fun schema_string :: "sval \<Rightarrow> bool" where
  "schema_string (VStr s) = True"
| "schema_string v = False"

fun schema_object :: "sval \<Rightarrow> bool" where
  "schema_object (VObj kvs) = True"
| "schema_object v = False"

definition required :: "(string \<Rightarrow> sval option) \<Rightarrow> string \<Rightarrow> (sval \<Rightarrow> bool) \<Rightarrow> bool" where
  "required f name ok = (case f name of None \<Rightarrow> False | Some v \<Rightarrow> ok v)"

definition optional :: "(string \<Rightarrow> sval option) \<Rightarrow> string \<Rightarrow> (sval \<Rightarrow> bool) \<Rightarrow> bool" where
  "optional f name ok = (case f name of None \<Rightarrow> True | Some v \<Rightarrow> ok v)"

fun schema_conforms :: "sval \<Rightarrow> bool" where
  "schema_conforms (VObj kvs) =
     (required (map_of kvs) ''version'' schema_version \<and> required (map_of kvs) ''event_id'' schema_event_id \<and>
      required (map_of kvs) ''agent_id'' schema_agent_id \<and> required (map_of kvs) ''type'' schema_string \<and>
      required (map_of kvs) ''created_at'' schema_string \<and> required (map_of kvs) ''payload'' (\<lambda>v. True) \<and>
      optional (map_of kvs) ''metadata'' schema_object)"
| "schema_conforms v = False"

section \<open>An object whose fields are not repeated\<close>

text \<open>A field of the envelope that occurs twice; names the envelope does not know may repeat.\<close>

definition repeated_field :: "(string \<times> sval) list \<Rightarrow> bool" where
  "repeated_field kvs = (\<not> distinct (filter (\<lambda>k. k \<in> set envelope_fields) (map fst kvs)))"

lemma collect_fields_known:
  "collect_fields deny names kvs acc = Some fs \<Longrightarrow> fst ` set kvs \<subseteq> set names \<Longrightarrow>
     distinct (map fst kvs) \<and> (\<forall>k \<in> fst ` set kvs. map_of acc k = None)"
  by (induction deny names kvs acc rule: collect_fields.induct) (auto split: if_splits)

lemma collect_fields_distinct:
  "distinct (map fst kvs) \<Longrightarrow> \<forall>k \<in> fst ` set kvs. map_of acc k = None \<Longrightarrow>
     collect_fields False names kvs acc = Some (rev (filter (\<lambda>(k, v). k \<in> set names) kvs) @ acc)"
proof (induction kvs arbitrary: acc)
  case (Cons kv kvs)
  obtain k v where kv: "kv = (k, v)" by (cases kv)
  have "\<forall>k' \<in> fst ` set kvs. map_of ((k, v) # acc) k' = None"
    using Cons.prems kv by auto
  with Cons kv show ?case by simp
qed simp

lemma map_of_filter_names:
  "map_of (filter (\<lambda>(k, v). P k) kvs) k = (if P k then map_of kvs k else None)"
  by (induction kvs) auto

lemma struct_fields_distinct:
  assumes "distinct (map fst kvs)"
  shows "struct_fields False names (VObj kvs) = Some (\<lambda>k. if k \<in> set names then map_of kvs k else None)"
proof -
  let ?f = "filter (\<lambda>(k, v). k \<in> set names) kvs"
  have "distinct (map fst ?f)" using assms by (simp add: distinct_map_filter)
  then have "map_of (rev ?f) = map_of ?f" by (subst map_of_inject_set) (simp_all flip: rev_map)
  with collect_fields_distinct[OF assms, of "[]" names] show ?thesis
    by (simp add: fun_eq_iff map_of_filter_names)
qed

text \<open>The parser sees the known fields, and refuses an object that repeats one.\<close>

lemma struct_fields_known:
  "struct_fields False envelope_fields (VObj kvs) =
     (if repeated_field kvs then None else Some (\<lambda>k. if k \<in> set envelope_fields then map_of kvs k else None))"
proof -
  let ?kvs = "filter (\<lambda>(k, v). k \<in> set envelope_fields) kvs"
  have names: "map fst ?kvs = filter (\<lambda>k. k \<in> set envelope_fields) (map fst kvs)"
    by (induction kvs) auto
  have known: "struct_fields False envelope_fields (VObj kvs) = struct_fields False envelope_fields (VObj ?kvs)"
    using collect_fields_filter[of envelope_fields kvs "[]"] by simp
  show ?thesis
  proof (cases "distinct (map fst ?kvs)")
    case True
    then show ?thesis
      unfolding known struct_fields_distinct[OF True] names repeated_field_def
      by (simp add: map_of_filter_names fun_eq_iff)
  next
    case False
    have "fst ` set ?kvs \<subseteq> set envelope_fields" by auto
    with False collect_fields_known[of False envelope_fields ?kvs "[]"]
    have "collect_fields False envelope_fields ?kvs [] = None" by (metis not_None_eq)
    with False show ?thesis unfolding known repeated_field_def names by simp
  qed
qed

section \<open>Acceptance field by field\<close>

lemma envelope_parse_accepts:
  "(\<exists>e. envelope_parse json b = Inr e) \<longleftrightarrow>
     (\<exists>v e. json b = Some v \<and> deserialize_envelope v = Some e \<and> ev_version e = 1 \<and> trim (ev_event_id e) \<noteq> [])"
  by (auto simp: envelope_parse_def envelope_validate_def ENVELOPE_VERSION_def split: option.splits)

lemma deserialize_envelope_fields:
  "(\<exists>e. deserialize_envelope (VObj kvs) = Some e \<and> P (ev_version e) (ev_event_id e)) \<longleftrightarrow>
     \<not> repeated_field kvs \<and>
     (\<exists>ver eid. req (map_of kvs) ''version'' as_u32 = Some ver \<and> req (map_of kvs) ''event_id'' as_string = Some eid \<and>
        P ver eid) \<and>
     req (map_of kvs) ''agent_id'' deserialize_agent_id \<noteq> None \<and> req (map_of kvs) ''type'' as_string \<noteq> None \<and>
     req (map_of kvs) ''created_at'' as_string \<noteq> None \<and> map_of kvs ''payload'' \<noteq> None"
  unfolding deserialize_envelope_def struct_fields_known option.case
  by (auto simp: envelope_fields_def req_def dflt_def as_option_def as_value_def split: option.splits)

lemma as_u32_one: "as_u32 v = Some 1 \<longleftrightarrow> v = VInt 1"
proof (cases v)
  case (VInt n)
  have "n = 1" if "0 \<le> n" "n < 2 ^ 32" "(word_of_int n :: u32) = 1"
  proof -
    have "uint (word_of_int n :: u32) = n" using that(1,2) by (simp add: uint_word_of_int)
    with that(3) show ?thesis by simp
  qed
  with VInt show ?thesis by auto
qed auto

lemma token_length: "is_token t \<Longrightarrow> length t \<le> 63"
  by (simp add: is_token_def)

lemma joined_length:
  "list_all is_token ts \<Longrightarrow> length (join_with c ts) \<le> 64 * length ts"
proof (induction c ts rule: join_with.induct)
  case (3 c t t' ts)
  then show ?case using token_length[of t] by simp
qed (use token_length in fastforce)+

lemma agent_id_text:
  "deserialize_agent_id (VStr s) \<noteq> None \<longleftrightarrow> length (split_on (CHR ''_'') s) \<le> 16 \<and> schema_pattern s"
proof -
  have "(\<exists>a. parse_agent_id s = Inr a) \<longleftrightarrow> length (split_on (CHR ''_'') s) \<le> 16 \<and> schema_pattern s"
    by (simp add: parse_agent_id_ok schema_pattern_def)
  then show ?thesis by (cases "parse_agent_id s") (simp_all add: deserialize_agent_id_def)
qed

text \<open>The bound on the length is implied by the bound on the number of tokens.\<close>

lemma schema_length:
  assumes "schema_pattern s" and "length (split_on (CHR ''_'') s) \<le> 16"
  shows "length s \<le> 1024"
  using joined_length[of "split_on (CHR ''_'') s" "CHR ''_''"] assms by (simp add: schema_pattern_def join_split)

section \<open>Properties\<close>

text \<open>What the parser refuses although the schema allows it.\<close>

definition float_version :: "(string \<Rightarrow> sval option) \<Rightarrow> bool" where
  "float_version f = (case f ''version'' of Some (VFloat t) \<Rightarrow> number_is_one t | _ \<Rightarrow> False)"

definition blank_event_id :: "(string \<Rightarrow> sval option) \<Rightarrow> bool" where
  "blank_event_id f = (case f ''event_id'' of Some (VStr s) \<Rightarrow> trim s = [] | _ \<Rightarrow> False)"

definition too_many_tokens :: "(string \<Rightarrow> sval option) \<Rightarrow> bool" where
  "too_many_tokens f =
     (case f ''agent_id'' of Some (VStr s) \<Rightarrow> MAX_TOKENS < length (split_on (CHR ''_'') s) | _ \<Rightarrow> False)"

lemma trim_Nil [simp]: "trim [] = []"
  by code_simp

lemma version_field: "req f ''version'' as_u32 = Some 1 \<longleftrightarrow> required f ''version'' schema_version \<and> \<not> float_version f"
proof (cases "f ''version''")
  case (Some v)
  then show ?thesis using as_u32_one[of v] by (cases v) (auto simp: req_def required_def float_version_def)
qed (simp add: req_def required_def)

lemma event_id_field:
  "(\<exists>s. req f ''event_id'' as_string = Some s \<and> trim s \<noteq> []) \<longleftrightarrow>
     required f ''event_id'' schema_event_id \<and> \<not> blank_event_id f"
proof (cases "f ''event_id''")
  case (Some v)
  then show ?thesis
    by (cases v) (auto simp: req_def required_def blank_event_id_def Suc_le_eq)
qed (simp add: req_def required_def)

lemma agent_id_field:
  "req f ''agent_id'' deserialize_agent_id \<noteq> None \<longleftrightarrow>
     required f ''agent_id'' schema_agent_id \<and> \<not> too_many_tokens f"
proof (cases "f ''agent_id''")
  case (Some v)
  show ?thesis
  proof (cases v)
    case (VStr s)
    with Some agent_id_text[of s] schema_length[of s] show ?thesis
      by (auto simp: req_def required_def too_many_tokens_def MAX_TOKENS_def)
  qed (use Some in \<open>auto simp: req_def required_def deserialize_agent_id_def\<close>)
qed (simp add: req_def required_def)

lemma string_field: "req f k as_string \<noteq> None \<longleftrightarrow> required f k schema_string"
  by (cases "f k"; cases "the (f k)") (auto simp: req_def required_def)

text \<open>
  C30. The schema and the parser.  The JSON objects that are accepted as events and whose metadata is an object, as
  the schema wants it, are exactly the conforming ones but four kinds: those that repeat a field of the envelope,
  whose version is written as a float, whose event id is blank, or whose agent id has more than 16 tokens.
\<close>

theorem schema_acceptance:
  assumes "json b = Some (VObj kvs)"
  shows "((\<exists>e. envelope_parse json b = Inr e) \<and> optional (map_of kvs) ''metadata'' schema_object) =
     (schema_conforms (VObj kvs) \<and> \<not> repeated_field kvs \<and> \<not> float_version (map_of kvs) \<and> \<not> blank_event_id (map_of kvs) \<and>
      \<not> too_many_tokens (map_of kvs))"
proof -
  let ?f = "map_of kvs"
  have "(\<exists>e. envelope_parse json b = Inr e) \<longleftrightarrow>
     \<not> repeated_field kvs \<and> req ?f ''version'' as_u32 = Some 1 \<and> (\<exists>s. req ?f ''event_id'' as_string = Some s \<and> trim s \<noteq> []) \<and>
     req ?f ''agent_id'' deserialize_agent_id \<noteq> None \<and> req ?f ''type'' as_string \<noteq> None \<and>
     req ?f ''created_at'' as_string \<noteq> None \<and> ?f ''payload'' \<noteq> None"
    unfolding envelope_parse_accepts
    using deserialize_envelope_fields[of kvs "\<lambda>ver eid. ver = 1 \<and> trim eid \<noteq> []"] assms by auto
  then show ?thesis
    unfolding version_field event_id_field agent_id_field string_field schema_conforms.simps
    by (auto simp: required_def split: option.splits)
qed

text \<open>A conforming event for an agent id of 17 tokens: a publisher that validates against the schema sends it.\<close>

definition seventeen_tokens :: "(string \<times> sval) list" where
  "seventeen_tokens =
     [(''version'', VInt 1), (''event_id'', VStr ''e''), (''agent_id'', VStr ''a_a_a_a_a_a_a_a_a_a_a_a_a_a_a_a_a''),
      (''type'', VStr ''t''), (''created_at'', VStr ''c''), (''payload'', VNull)]"

theorem schema_acceptance_witness:
  "schema_conforms (VObj seventeen_tokens) \<and> \<not> (\<exists>e. envelope_parse (\<lambda>_. Some (VObj seventeen_tokens)) [] = Inr e)"
proof -
  have "schema_conforms (VObj seventeen_tokens)" "too_many_tokens (map_of seventeen_tokens)"
    "optional (map_of seventeen_tokens) ''metadata'' schema_object" by code_simp+
  then show ?thesis using schema_acceptance[of "\<lambda>_. Some (VObj seventeen_tokens)" "[]" seventeen_tokens] by auto
qed

text \<open>
  The other way round: outside objects the parser takes an array with the fields by position, which no
  schema-conforming publisher sends.
\<close>

lemma positional_event_accepted:
  "\<exists>v e. \<not> schema_conforms v \<and> envelope_parse (\<lambda>_. Some v) [] = Inr e"
proof -
  let ?v = "VArr [VInt 1, VStr ''e'', VStr ''a'', VStr ''t'', VStr ''c'', VNull]"
  have "envelope_parse (\<lambda>_. Some ?v) [] =
     Inr \<lparr>ev_version = 1, ev_event_id = ''e'', ev_agent_id = AgentId ''a'', ev_event_type = ''t'',
          ev_created_at = ''c'', ev_payload = VNull, ev_metadata = None\<rparr>" by code_simp
  moreover have "\<not> schema_conforms ?v" by simp
  ultimately show ?thesis by blast
qed

end
