(* ===== verification/Unit_Tests_Data.thy ===== *)
theory Unit_Tests_Data
  imports Relay DaemonConfigs
begin

text \<open>
  The unit tests of \<open>src/agent_id.rs\<close>, \<open>src/event.rs\<close>, \<open>src/config.rs\<close>, \<open>src/relay.rs\<close> and
  \<open>src/dispatcher.rs\<close>, translated like the code and run on the model: the definitions of this
  development agree with what the authors of the program expect of it.  A test whose text goes through a
  parser starts from the document the text denotes.
\<close>

section \<open>Agent ids\<close>

definition parses_and_encodes_subject :: bool where
  "parses_and_encodes_subject =
     ((case parse_agent_id ''coding_main'' of
         Inl e \<Rightarrow> False
       | Inr i \<Rightarrow> subject i = ''agent.events.coding_main'' \<and> as_str i = ''coding_main'') \<and>
      (case parse_agent_id ''a'' of Inl e \<Rightarrow> False | Inr i \<Rightarrow> subject i = ''agent.events.a''))"

lemma passes_parses_and_encodes_subject: parses_and_encodes_subject
  by code_simp

definition accepts_multi_token_and_allowed_characters :: bool where
  "accepts_multi_token_and_allowed_characters =
     list_all (\<lambda>s. is_ok (parse_agent_id s))
       [''assistant_personal'', ''research_market'', ''a-b_c-0123x'', ''z9'']"

lemma passes_accepts_multi_token_and_allowed_characters: accepts_multi_token_and_allowed_characters
  by code_simp

definition rejects_invalid_forms :: bool where
  "rejects_invalid_forms =
     list_all (\<lambda>s. \<not> is_ok (parse_agent_id s))
       ['''', ''_a'', ''a_'', ''a__b'', ''Coding_main'', ''-abc_x'', ''a.b'', ''a/b'', ''a.b_c'', ''a b'', ''a_b c'',
        ''a.b-c'', replicate 64 (CHR ''x'')]"

lemma passes_rejects_invalid_forms: rejects_invalid_forms
  by code_simp

definition rejects_too_many_tokens :: bool where
  "rejects_too_many_tokens =
     (\<not> is_ok (parse_agent_id (join_with (CHR ''_'') (replicate (MAX_TOKENS + 1) ''s''))))"

lemma passes_rejects_too_many_tokens: rejects_too_many_tokens
  by code_simp

definition serde_roundtrip :: bool where
  "serde_roundtrip =
     ((case parse_agent_id ''coding_main'' of
         Inl e \<Rightarrow> False
       | Inr i \<Rightarrow> serialize_agent_id i = VStr ''coding_main'' \<and>
           deserialize_agent_id (serialize_agent_id i) = Some i) \<and>
      deserialize_agent_id (VStr ''bad id'') = None)"

lemma passes_serde_roundtrip: serde_roundtrip
  by code_simp

text \<open>The generator of the property test, from the numbers it draws.\<close>

definition CHARSET :: string where
  "CHARSET = ''abcdefghijklmnopqrstuvwxyz0123456789-''"

definition ALNUM_COUNT :: nat where
  "ALNUM_COUNT = 36"

definition valid_token :: "nat \<times> nat list \<Rightarrow> string" where
  "valid_token = (\<lambda>(first, rest). CHARSET ! first # map (\<lambda>r. CHARSET ! r) rest)"

definition drawn_token :: "nat \<times> nat list \<Rightarrow> bool" where
  "drawn_token = (\<lambda>(first, rest).
     first < ALNUM_COUNT \<and> length rest < 20 \<and> list_all (\<lambda>r. r < length CHARSET) rest)"

definition valid_agent_id :: "(nat \<times> nat list) list \<Rightarrow> string" where
  "valid_agent_id toks = join_with (CHR ''_'') (map valid_token toks)"

definition generated_ids_roundtrip :: "(nat \<times> nat list) list \<Rightarrow> bool" where
  "generated_ids_roundtrip toks =
     (case parse_agent_id (valid_agent_id toks) of
        Inl e \<Rightarrow> False
      | Inr parsed \<Rightarrow>
          as_str parsed = valid_agent_id toks \<and> prefix ''agent.events.'' (subject parsed) \<and>
          drop 13 (subject parsed) = valid_agent_id toks)"

lemma charset_char: "r < 37 \<Longrightarrow> token_char (CHARSET ! r)"
proof -
  have "list_all token_char CHARSET" by code_simp
  moreover have "length CHARSET = 37" by (simp add: CHARSET_def)
  ultimately show "r < 37 \<Longrightarrow> token_char (CHARSET ! r)" by (simp add: list_all_length)
qed

lemma charset_first: "r < 36 \<Longrightarrow> is_ascii_lowercase (CHARSET ! r) \<or> is_ascii_digit (CHARSET ! r)"
proof -
  have "list_all (\<lambda>c. is_ascii_lowercase c \<or> is_ascii_digit c) (take 36 CHARSET)" by code_simp
  moreover have "length CHARSET = 37" by (simp add: CHARSET_def)
  ultimately show "r < 36 \<Longrightarrow> is_ascii_lowercase (CHARSET ! r) \<or> is_ascii_digit (CHARSET ! r)"
    by (simp add: list_all_length)
qed

lemma drawn_is_token: "drawn_token t \<Longrightarrow> is_token (valid_token t)"
  using charset_first charset_char
  by (cases t) (auto simp: drawn_token_def valid_token_def is_token_def ALNUM_COUNT_def list_all_iff CHARSET_def)

text \<open>Not only the ids a run of the test happens to draw: all of them.\<close>

lemma passes_generated_ids_roundtrip:
  assumes "toks \<noteq> []" and "length toks < 4" and "list_all drawn_token toks"
  shows "generated_ids_roundtrip toks"
proof -
  have "is_agent_id (valid_agent_id toks)"
    unfolding is_agent_id_def valid_agent_id_def
    using assms by (intro exI[of _ "map valid_token toks"]) (auto simp: list_all_iff drawn_is_token)
  then have "parse_agent_id (valid_agent_id toks) = Inr (AgentId (valid_agent_id toks))"
    by (simp add: parse_iff_grammar)
  then show ?thesis
    by (simp add: generated_ids_roundtrip_def as_str_def subject_def SUBJECT_PREFIX_def)
qed

section \<open>Event envelopes\<close>

text \<open>The document of the constant \<open>EXAMPLE\<close>, with the parts that the tests replace as arguments.\<close>

definition EXAMPLE_with :: "(string \<times> sval) list \<Rightarrow> (string \<times> sval) list \<Rightarrow> sval \<Rightarrow> sval" where
  "EXAMPLE_with version event_id agent =
     VObj (version @ event_id @
       [(''agent_id'', agent), (''type'', VStr ''im.message''), (''created_at'', VStr ''2026-08-19T12:00:00Z''),
        (''payload'', VObj [(''text'', VStr ''please continue'')]),
        (''metadata'', VObj [(''source'', VStr ''matrix''), (''sender'', VStr ''@alice:domain.test'')])])"

definition EXAMPLE :: sval where
  "EXAMPLE =
     EXAMPLE_with [(''version'', VInt 1)] [(''event_id'', VStr ''01J6ZP8R5EF4Y42KABCD123456'')] (VStr ''coding_main'')"

definition parse_document :: "sval option \<Rightarrow> event_envelope result" where
  "parse_document v = envelope_parse (\<lambda>_. v) []"

definition parses_whitepaper_example :: bool where
  "parses_whitepaper_example =
     (case parse_document (Some EXAMPLE) of
        Inl e \<Rightarrow> False
      | Inr env \<Rightarrow>
          ev_event_id env = ''01J6ZP8R5EF4Y42KABCD123456'' \<and> as_str (ev_agent_id env) = ''coding_main'' \<and>
          ev_event_type env = ''im.message'' \<and>
          (case ev_metadata env of Some (VObj kvs) \<Rightarrow> map_of kvs ''source'' = Some (VStr ''matrix'') | _ \<Rightarrow> False))"

lemma passes_parses_whitepaper_example: parses_whitepaper_example
  by code_simp

definition unknown_fields_are_accepted :: bool where
  "unknown_fields_are_accepted =
     is_ok (parse_document (Some (EXAMPLE_with
       [(''version'', VInt 1), (''future_field'', VObj [(''nested'', VArr [VInt 1, VInt 2])])]
       [(''event_id'', VStr ''01J6ZP8R5EF4Y42KABCD123456'')] (VStr ''coding_main''))))"

lemma passes_unknown_fields_are_accepted: unknown_fields_are_accepted
  by code_simp

definition unsupported_version_is_terminal :: bool where
  "unsupported_version_is_terminal =
     (parse_document (Some (EXAMPLE_with [(''version'', VInt 2)]
        [(''event_id'', VStr ''01J6ZP8R5EF4Y42KABCD123456'')] (VStr ''coding_main''))) =
      Inl (InvalidEnvelope (UnsupportedVersion 2)))"

lemma passes_unsupported_version_is_terminal: unsupported_version_is_terminal
  by code_simp

definition missing_event_id_is_terminal :: bool where
  "missing_event_id_is_terminal =
     (\<not> is_ok (parse_document (Some (EXAMPLE_with [(''version'', VInt 1)] [] (VStr ''coding_main'')))))"

lemma passes_missing_event_id_is_terminal: missing_event_id_is_terminal
  by code_simp

definition empty_event_id_is_terminal :: bool where
  "empty_event_id_is_terminal =
     (\<not> is_ok (parse_document
        (Some (EXAMPLE_with [(''version'', VInt 1)] [(''event_id'', VStr [])] (VStr ''coding_main'')))))"

lemma passes_empty_event_id_is_terminal: empty_event_id_is_terminal
  by code_simp

definition invalid_agent_id_is_terminal :: bool where
  "invalid_agent_id_is_terminal =
     (\<not> is_ok (parse_document (Some (EXAMPLE_with [(''version'', VInt 1)]
        [(''event_id'', VStr ''01J6ZP8R5EF4Y42KABCD123456'')] (VStr ''Bad Id'')))))"

lemma passes_invalid_agent_id_is_terminal: invalid_agent_id_is_terminal
  by code_simp

definition unparseable_json_is_terminal :: bool where
  "unparseable_json_is_terminal = (\<not> is_ok (parse_document None))"

lemma passes_unparseable_json_is_terminal: unparseable_json_is_terminal
  by code_simp

section \<open>The daemon's configuration\<close>

definition defaults_match_whitepaper_and_adr_0001 :: bool where
  "defaults_match_whitepaper_and_adr_0001 =
     (let c = default_config in
      stream_name c = ''AGENT_EVENTS'' \<and> ack_wait_secs c = 300 \<and> ack_progress_interval_secs c = 90 \<and>
      slow_handler_warn_secs c = 3600 \<and> max_event_bytes c = 256 * 1024 \<and> dedup_ttl_days c > 7)"

lemma passes_defaults_match_whitepaper_and_adr_0001: defaults_match_whitepaper_and_adr_0001
  by (simp add: defaults_match_whitepaper_and_adr_0001_def default_config_def)

definition toml_overrides_apply_and_defaults_fill_gaps :: bool where
  "toml_overrides_apply_and_defaults_fill_gaps =
     (case deserialize_config (VObj [(''nats_url'', VStr ''nats://relay.internal:4222''),
             (''nats_creds'', VStr ''/etc/agentd/relay.creds''), (''ack_wait_secs'', VInt 120)]) of
        None \<Rightarrow> False
      | Some c \<Rightarrow>
          nats_url c = ''nats://relay.internal:4222'' \<and> nats_creds c = Some ''/etc/agentd/relay.creds'' \<and>
          ack_wait_secs c = 120 \<and> stream_name c = ''AGENT_EVENTS'' \<and> ack_progress_interval_secs c = 90 \<and>
          config_validate c = Inr ())"

lemma passes_toml_overrides_apply_and_defaults_fill_gaps: toml_overrides_apply_and_defaults_fill_gaps
  by (simp add: toml_overrides_apply_and_defaults_fill_gaps_def deserialize_config_def config_fields_def dflt_def
      as_option_def default_config_def config_validate_def i32_max_def)

definition unknown_keys_are_rejected :: bool where
  "unknown_keys_are_rejected = (deserialize_config (VObj [(''nats_urk'', VStr ''typo'')]) = None)"

lemma passes_unknown_keys_are_rejected: unknown_keys_are_rejected
  by (simp add: unknown_keys_are_rejected_def deserialize_config_def config_fields_def)

text \<open>
  The tests of the resolved paths hold wherever \<open>dirs\<close> finds the XDG directories; \<open>Path::ends_with\<close>
  compares whole components.
\<close>

definition path_ends_with :: "path \<Rightarrow> path \<Rightarrow> bool" where
  "path_ends_with p q = (p = q \<or> suffix (CHR ''/'' # q) p)"

lemma joined_ends_with:
  assumes "\<not> is_absolute q" and "q \<noteq> []" and "last q \<noteq> CHR ''/''" and "\<not> is_absolute r"
  shows "path_ends_with (path_join (path_join d q) r) (q @ CHR ''/'' # r)"
proof (cases "d = [] \<or> last d = CHR ''/''")
  case True
  then have "d = [] \<or> (\<exists>d'. d = d' @ ''/'')" by (metis append_butlast_last_id)
  with assms show ?thesis by (auto simp: path_ends_with_def path_join_def suffix_def)
next
  case False
  with assms show ?thesis by (auto simp: path_ends_with_def path_join_def suffix_def)
qed

definition agents_dir_resolves_explicit_or_xdg_default :: "path option \<Rightarrow> bool" where
  "agents_dir_resolves_explicit_or_xdg_default config_dir =
     (resolved_agents_dir config_dir (default_config\<lparr>agents_dir := Some ''/opt/agents.d''\<rparr>) = ''/opt/agents.d'' \<and>
      path_ends_with (resolved_agents_dir config_dir default_config) ''agentd/agents.d'')"

lemma passes_agents_dir_resolves_explicit_or_xdg_default:
  "agents_dir_resolves_explicit_or_xdg_default config_dir"
  using joined_ends_with[of "''agentd''" "''agents.d''"]
  by (simp add: agents_dir_resolves_explicit_or_xdg_default_def resolved_agents_dir_def default_config_def is_absolute_def)

definition progress_interval_must_be_shorter_than_ack_wait :: bool where
  "progress_interval_must_be_shorter_than_ack_wait =
     (case deserialize_config (VObj [(''ack_wait_secs'', VInt 60)]) of
        None \<Rightarrow> False
      | Some c \<Rightarrow> \<not> is_ok (config_validate c))"

lemma passes_progress_interval_must_be_shorter_than_ack_wait: progress_interval_must_be_shorter_than_ack_wait
  by (simp add: progress_interval_must_be_shorter_than_ack_wait_def deserialize_config_def config_fields_def dflt_def
      default_config_def config_validate_def i32_max_def)

definition dedup_path_resolves_explicit_or_xdg_default :: "path option \<Rightarrow> bool" where
  "dedup_path_resolves_explicit_or_xdg_default data_dir =
     (resolved_dedup_path data_dir (default_config\<lparr>dedup_path := Some ''/var/lib/agentd/dedup.db''\<rparr>) =
        ''/var/lib/agentd/dedup.db'' \<and>
      path_ends_with (resolved_dedup_path data_dir default_config) ''agentd/dedup.db'')"

lemma passes_dedup_path_resolves_explicit_or_xdg_default:
  "dedup_path_resolves_explicit_or_xdg_default data_dir"
  using joined_ends_with[of "''agentd''" "''dedup.db''"]
  by (simp add: dedup_path_resolves_explicit_or_xdg_default_def resolved_dedup_path_def default_config_def is_absolute_def)

definition dedup_ttl_derives_from_days :: bool where
  "dedup_ttl_derives_from_days =
     (dedup_ttl default_config = 14 * 24 * 3600 \<and>
      dedup_ttl (default_config\<lparr>dedup_ttl_days := - 1\<rparr>) = - 1)"

lemma passes_dedup_ttl_derives_from_days: dedup_ttl_derives_from_days
  by (simp add: dedup_ttl_derives_from_days_def dedup_ttl_def saturating_mul_def default_config_def
      unsigned_minus_1_eq_mask mask_eq_exp_minus_1)

section \<open>Relay and dispatcher\<close>

definition consumer_name_is_identity_with_prefix :: bool where
  "consumer_name_is_identity_with_prefix =
     (case parse_agent_id ''coding_main'' of Inl e \<Rightarrow> False | Inr i \<Rightarrow> consumer_name i = ''agent-coding_main'')"

lemma passes_consumer_name_is_identity_with_prefix: consumer_name_is_identity_with_prefix
  by code_simp

lemma coding_main_parses: "parse_agent_id ''coding_main'' = Inr (AgentId ''coding_main'')"
  by code_simp

definition consumer_config_matches_whitepaper :: bool where
  "consumer_config_matches_whitepaper =
     (case parse_agent_id ''coding_main'' of
        Inl e \<Rightarrow> False
      | Inr i \<Rightarrow>
          (let c = consumer_config_of i 300 4 in
           cc_durable_name c = Some ''agent-coding_main'' \<and> cc_filter_subject c = ''agent.events.coding_main'' \<and>
           cc_ack_policy c = Ack_Explicit \<and> cc_deliver_policy c = Deliver_All \<and> cc_max_ack_pending c = 4 \<and>
           cc_ack_wait c = 300))"

lemma passes_consumer_config_matches_whitepaper: consumer_config_matches_whitepaper
  by (simp add: consumer_config_matches_whitepaper_def coding_main_parses consumer_config_of_def consumer_name_def
      subject_def SUBJECT_PREFIX_def as_str_def)

definition exit_status_encoding :: bool where
  "exit_status_encoding = (exit_status_of (Exit_Code 0) = 0 \<and> exit_status_of (Exit_Code 3) = 3)"

lemma passes_exit_status_encoding: exit_status_encoding
  by (simp add: exit_status_encoding_def exit_status_of_def)

end
