(* ===== verification/Dispatch_Lines.thy ===== *)
theory Dispatch_Lines
  imports Dispatch_History
begin

text \<open>
  The log lines of a dispatch (\<open>src/dispatcher.rs\<close>, \<open>src/logging.rs\<close>): which span is entered when a line is
  emitted, and so which line can be correlated with its agent and its event.  The dispatch tasks are
  spawned without a span of their own, so a line outside the two spans has only its own fields.
\<close>

section \<open>The span of a line\<close>

definition span_for :: "delivery \<Rightarrow> event_envelope \<Rightarrow> span" where
  "span_for dl e =
     dispatch_span (dl_agent dl) (ev_event_id e) (''agent-'' @ as_str (dl_agent dl)) (dl_stream_sequence dl)"

text \<open>
  The span that is entered when the section that leads from one point to the next emits a line; \<open>None\<close>
  when none is.  Both spans are of level info: under a filter that is coarser they are disabled, and the lines
  of level warn that still come out carry none of their fields.
\<close>

definition line_span :: "delivery \<Rightarrow> pc \<Rightarrow> pc \<Rightarrow> log_event \<Rightarrow> span option" where
  "line_span dl p p' l =
     (case p of
        Entered \<Rightarrow> (case p' of Gated e c \<Rightarrow> Some (span_for dl e) | _ \<Rightarrow> None)
      | Admitted cx \<Rightarrow> if l = Dedup_Hit then Some (span_for dl (cx_envelope cx)) else None
      | Missed cx \<Rightarrow> Some (span_for dl (cx_envelope cx))
      | Claimed cx \<Rightarrow>
          (case l of
             Handler_Spawned path pid \<Rightarrow>
               Some (handler_span (span_for dl (cx_envelope cx)) (handler (cx_config cx)) pid)
           | _ \<Rightarrow> Some (span_for dl (cx_envelope cx)))
      | Running cx pid \<Rightarrow>
          (case l of
             Handler_Exited status ms \<Rightarrow>
               Some (handler_span (span_for dl (cx_envelope cx)) (handler (cx_config cx)) pid)
           | _ \<Rightarrow> None)
      | _ \<Rightarrow> None)"

definition span_context :: "delivery \<Rightarrow> pc \<Rightarrow> pc \<Rightarrow> log_event \<Rightarrow> (string \<times> field_value) list" where
  "span_context dl p p' l = (case line_span dl p p' l of None \<Rightarrow> [] | Some sp \<Rightarrow> span_fields sp)"

text \<open>The names of all fields of a line.\<close>

definition line_field_names :: "delivery \<Rightarrow> pc \<Rightarrow> pc \<Rightarrow> log_event \<Rightarrow> string list" where
  "line_field_names dl p p' l = event_field_names l @ map fst (span_context dl p p' l)"

text \<open>The lines of the table of \<open>events\<close> that are emitted inside a span, and those about a handler.\<close>

fun lifecycle_line :: "log_event \<Rightarrow> bool" where
  "lifecycle_line Event_Received = True"
| "lifecycle_line Dedup_Hit = True"
| "lifecycle_line In_Flight_Duplicate_Dropped = True"
| "lifecycle_line (Handler_Spawn_Failed path) = True"
| "lifecycle_line (Handler_Spawned path pid) = True"
| "lifecycle_line (Handler_Exited status ms) = True"
| "lifecycle_line l = False"

fun handler_line :: "log_event \<Rightarrow> bool" where
  "handler_line (Handler_Spawned path pid) = True"
| "handler_line (Handler_Exited status ms) = True"
| "handler_line l = False"

section \<open>The lines of a section\<close>

lemma gate_fault:
  "gate json D dl = Inl l \<Longrightarrow>
     (\<exists>r. l = Invalid_Event r) \<or> l = Delivery_For_Unregistered (dl_agent dl) \<or> l = Delivery_For_Disabled (dl_agent dl)"
  by (auto simp: gate_def split: if_splits sum.splits option.splits)

lemma section_line:
  assumes "advance json an D dl p = Some (D', p', es)" and "Log l \<in> set es"
  obtains
    (received) e c where "p = Entered" "p' = Gated e c" "l = Event_Received"
  | (rejected) r where "p = Entered" "p' = Rejecting"
      "l = Invalid_Event r \<or> l = Delivery_For_Unregistered (dl_agent dl) \<or> l = Delivery_For_Disabled (dl_agent dl)"
  | (looked_up) cx where "p = Admitted cx" "l = Dedup_Hit \<or> l = Dedup_Lookup_Failed (dl_agent dl)"
  | (dropped) cx where "p = Missed cx" "l = In_Flight_Duplicate_Dropped"
  | (spawned) cx pid where "p = Claimed cx" "l = Handler_Spawned (handler (cx_config cx)) pid"
  | (not_spawned) cx where "p = Claimed cx" "l = Handler_Spawn_Failed (handler (cx_config cx))"
  | (exited) cx pid st ms where "p = Running cx pid" "l = Handler_Exited st ms"
  | (waited) cx pid ms where "p = Running cx pid" "l = Wait_Failed (dl_agent dl) \<or> l = Slow_Handler (dl_agent dl) ms"
  | (recorded) cx where "p = Exited cx" "l = Dedup_Mark_Failed (dl_agent dl)"
  | (acked) cx where "p = Hit_Acking cx \<or> p = Acking cx" "l = Ack_Success \<or> l = Ack_Failure"
proof (cases p)
  case Entered
  with assms show ?thesis
    using received rejected gate_fault[of json D dl] by (auto simp: enter_def split: sum.splits)
next
  case (Admitted cx)
  with assms looked_up show ?thesis
    by (auto simp: check_completed_eq lookup_log_def split: if_splits)
next
  case (Missed cx)
  with assms dropped show ?thesis by (auto simp: claim_def Let_def split: if_splits)
next
  case (Claimed cx)
  with assms spawned not_spawned show ?thesis by (auto simp: spawn_handler_def split: option.splits)
next
  case (Running cx pid)
  with assms exited waited show ?thesis by (auto simp: reap_def Let_def split: option.splits if_splits)
next
  case (Exited cx)
  with assms recorded show ?thesis by (auto simp: record_completion_eq mark_log_def split: if_splits)
next
  case (Hit_Acking cx)
  with assms acked show ?thesis by (auto simp: ack_delivery_def split: if_splits)
next
  case (Acking cx)
  with assms acked show ?thesis by (auto simp: ack_delivery_def split: if_splits)
qed (use assms in \<open>auto split: prod.splits\<close>)

lemma span_for_fields:
  "span_fields (span_for dl e) =
     [(''agent_id'', Text (as_str (dl_agent dl))), (''event_id'', Text (ev_event_id e)),
      (''consumer'', Text (''agent-'' @ as_str (dl_agent dl))), (''stream_sequence'', Number (unat (dl_stream_sequence dl)))]"
  by (simp add: span_for_def dispatch_span_def)

lemma handler_span_fields:
  "span_fields (handler_span sp path pid) =
     span_fields sp @ [(''handler_path'', Text path), (''handler_pid'', Number (unat pid))]"
  by (simp add: handler_span_def)

section \<open>The handler's input\<close>

text \<open>
  \<open>spawn_stdin_writer\<close>: what the task does with the handler's input, when there is one.  A broken pipe is
  no error: the handler need not read its input.  The dispatch aborts the task once the handler has
  exited, so any number of these operations may have been reached.
\<close>

datatype stdin_op = Write_All string | Debug_Write_Failed | Close_Stdin

datatype write_answer = Written | Broken_Pipe | Write_Error

definition spawn_stdin_writer :: "bool \<Rightarrow> write_answer \<Rightarrow> string \<Rightarrow> stdin_op list" where
  "spawn_stdin_writer has_stdin answer raw =
     (if \<not> has_stdin then []
      else Write_All raw # (if answer = Write_Error then [Debug_Write_Failed] else []) @ [Close_Stdin])"

text \<open>However early the task is aborted, what it writes are the bytes of the delivery.\<close>

lemma stdin_is_delivery:
  "[t. Write_All t \<leftarrow> take n (spawn_stdin_writer True answer (sp_stdin (handler_command dl cx)))] =
     (if n = 0 then [] else [dl_raw dl])"
  by (cases n) (auto simp: spawn_stdin_writer_def handler_command_def take_Cons')

section \<open>Properties\<close>

text \<open>
  C35. With the spans enabled, which are of level info: a line of a dispatch names its event exactly when it is one
  of the six lifecycle lines.  These carry the agent, the event and the sequence of their delivery, and the lines
  of a handler also its path.  The acknowledgement lines name neither the event nor the agent.
\<close>

theorem lines_correlated:
  assumes "advance json an D dl p = Some (D', p', es)" and "Log l \<in> set es"
  shows "(''event_id'' \<in> set (line_field_names dl p p' l) \<longleftrightarrow> lifecycle_line l) \<and>
     (lifecycle_line l \<longrightarrow>
        (\<exists>e. (envelope_of p = Some e \<or> envelope_of p' = Some e) \<and>
           {(''agent_id'', Text (as_str (dl_agent dl))), (''event_id'', Text (ev_event_id e)),
            (''stream_sequence'', Number (unat (dl_stream_sequence dl)))} \<subseteq> set (span_context dl p p' l))) \<and>
     (handler_line l \<longrightarrow>
        (\<exists>cx. ctx_of p = Some cx \<and>
           (''handler_path'', Text (handler (cx_config cx))) \<in> set (span_context dl p p' l))) \<and>
     (l \<in> {Ack_Success, Ack_Failure} \<longrightarrow> ''agent_id'' \<notin> set (line_field_names dl p p' l))"
  using assms
  by (rule section_line)
    (auto simp: line_span_def span_context_def line_field_names_def span_for_fields handler_span_fields
      envelope_of_def simp del: set_map)

theorem lines_correlated_witness:
  "\<exists>D cx D' es. advance demo_json demo_answers D demo_delivery (Acking cx) = Some (D', Finished (Acked True), es) \<and>
     Log Ack_Success \<in> set es \<and>
     ''event_id'' \<notin> set (line_field_names demo_delivery (Acking cx) (Finished (Acked True)) Ack_Success)"
proof -
  let ?D = "demo_dispatcher demo_config"
  let ?cx = "\<lparr>cx_envelope = demo_envelope, cx_config = demo_config, cx_permits = 0\<rparr>"
  have a: "advance demo_json demo_answers ?D demo_delivery (Acking ?cx) =
      Some (drop_permit 0 ?D, Finished (Acked True), [Ack_Sent True, Log Ack_Success])"
    by (simp add: ack_delivery_def)
  have m: "Log Ack_Success \<in> set [Ack_Sent True, Log Ack_Success]" by simp
  from lines_correlated[OF a m] have "''event_id'' \<notin>
      set (line_field_names demo_delivery (Acking ?cx) (Finished (Acked True)) Ack_Success)"
    by (simp only: lifecycle_line.simps simp_thms)
  with a m show ?thesis by blast
qed

end
