(* ===== verification/Unit_Tests_Stores.thy ===== *)
theory Unit_Tests_Stores
  imports Registry_Histories Unit_Tests_Data
begin

text \<open>
  The unit tests of the two stores, \<open>src/dedup.rs\<close> and \<open>src/registry.rs\<close>, run on the model.  What a test
  reads from the clock is a parameter, so it passes whenever it is run; a test with threads passes for every
  order in which the mutex lets them in.
\<close>

section \<open>The dedup store\<close>

definition dedup_env_good :: dedup_env where
  "dedup_env_good =
     \<lparr>de_parent = None, de_mkdir = True, de_rows = Some [], de_journal = True, de_sync = True, de_busy = True,
      de_schema = True, de_purge = True\<rparr>"

definition with_store :: "(dedup_store \<Rightarrow> bool) \<Rightarrow> bool" where
  "with_store body = (case open_in_memory True dedup_env_good of Inl e \<Rightarrow> False | Inr s \<Rightarrow> body s)"

lemma with_store [simp]: "with_store body = body []"
  by (simp add: with_store_def open_in_memory_def with_connection_def dedup_env_good_def)

abbreviation mark :: "u64 \<Rightarrow> agent_id \<Rightarrow> string \<Rightarrow> dedup_store \<Rightarrow> dedup_store" where
  "mark now a e s \<equiv> snd (mark_completed True now s a e)"

definition mark_then_hit_and_idempotent_remark :: "u64 \<Rightarrow> u64 \<Rightarrow> bool" where
  "mark_then_hit_and_idempotent_remark now now' =
     with_store (\<lambda>s.
       let a = AgentId ''coding_main'';
           s1 = mark now a ''e1'' s;
           s2 = mark now' a ''e1'' s1
       in is_completed True s a ''e1'' = Inr False \<and> is_completed True s1 a ''e1'' = Inr True \<and>
          dedup_len True s2 = Inr 1)"

lemma passes_mark_then_hit_and_idempotent_remark: "mark_then_hit_and_idempotent_remark now now'"
  by (simp add: mark_then_hit_and_idempotent_remark_def is_completed_def mark_completed_def dedup_len_def)

definition same_event_id_different_agents_do_not_collide :: "u64 \<Rightarrow> u64 \<Rightarrow> bool" where
  "same_event_id_different_agents_do_not_collide now now' =
     with_store (\<lambda>s.
       let a = AgentId ''coding_main'';
           b = AgentId ''assistant_personal'';
           s1 = mark now a ''reused-id'' s;
           s2 = mark now' b ''reused-id'' s1
       in is_completed True s1 a ''reused-id'' = Inr True \<and> is_completed True s1 b ''reused-id'' = Inr False \<and>
          dedup_len True s2 = Inr 2)"

lemma passes_same_event_id_different_agents_do_not_collide:
  "same_event_id_different_agents_do_not_collide now now'"
  by (simp add: same_event_id_different_agents_do_not_collide_def is_completed_def mark_completed_def dedup_len_def
      as_str_def)

definition ttl_purge_removes_only_expired_rows :: "u64 \<Rightarrow> u64 \<Rightarrow> bool" where
  "ttl_purge_removes_only_expired_rows now now' =
     with_store (\<lambda>s.
       case purge_expired True now' 0 (mark now (AgentId ''a'') ''old'' s) of
         (purged, s') \<Rightarrow> purged = Inr 1 \<and> dedup_is_empty True s' = Inr True)"

lemma passes_ttl_purge_removes_only_expired_rows:
  assumes "unat now < unat now'" and "unat now' < 2 ^ 63"
  shows "ttl_purge_removes_only_expired_rows now now'"
proof -
  have "now <s saturating_sub now' 0" using assms by (simp add: expired_iff)
  then show ?thesis
    by (simp add: ttl_purge_removes_only_expired_rows_def purge_expired_def mark_completed_def dedup_is_empty_def
        dedup_len_def Let_def)
qed

definition ttl_purge_keeps_recent_rows :: "u64 \<Rightarrow> u64 \<Rightarrow> bool" where
  "ttl_purge_keeps_recent_rows now now' =
     with_store (\<lambda>s.
       case purge_expired True now' 3600 (mark now (AgentId ''a'') ''recent'' s) of
         (purged, s') \<Rightarrow> purged = Inr 0 \<and> dedup_len True s' = Inr 1)"

lemma passes_ttl_purge_keeps_recent_rows:
  assumes "unat now' \<le> unat now + 3600" and "unat now < 2 ^ 63" and "unat now' < 2 ^ 63"
  shows "ttl_purge_keeps_recent_rows now now'"
proof -
  have "\<not> now <s saturating_sub now' 3600" using assms by (simp add: expired_iff)
  then show ?thesis
    by (simp add: ttl_purge_keeps_recent_rows_def purge_expired_def mark_completed_def dedup_len_def Let_def)
qed

text \<open>The critical sections of the four threads, in the order they get the mutex.\<close>

datatype race_step = Race_Mark nat nat u64 | Race_Check nat nat

definition race_event :: "nat \<Rightarrow> nat \<Rightarrow> string" where
  "race_event t i = ''e-'' @ show_nat t @ ''-'' @ show_nat i"

fun race_run :: "race_step list \<Rightarrow> dedup_store \<Rightarrow> bool \<times> dedup_store" where
  "race_run [] s = (True, s)"
| "race_run (Race_Mark t i now # steps) s = race_run steps (mark now (AgentId ''race_agent'') (race_event t i) s)"
| "race_run (Race_Check t i # steps) s =
     (case race_run steps s of
        (good, s') \<Rightarrow> (is_completed True s (AgentId ''race_agent'') (race_event t i) = Inr True \<and> good, s'))"

text \<open>Each thread checks an event only after it has marked it.\<close>

fun race_order :: "(nat \<times> nat) set \<Rightarrow> race_step list \<Rightarrow> bool" where
  "race_order seen [] = True"
| "race_order seen (Race_Mark t i now # steps) = race_order (insert (t, i) seen) steps"
| "race_order seen (Race_Check t i # steps) = ((t, i) \<in> seen \<and> race_order seen steps)"

fun marked :: "race_step \<Rightarrow> (nat \<times> nat) list" where
  "marked (Race_Mark t i now) = [(t, i)]"
| "marked (Race_Check t i) = []"

definition concurrent_access_is_serialized :: "race_step list \<Rightarrow> bool" where
  "concurrent_access_is_serialized steps =
     with_store (\<lambda>s. case race_run steps s of (good, s') \<Rightarrow> good \<and> dedup_len True s' = Inr 400)"

lemma digit_not_dash: "d < 10 \<Longrightarrow> digit d \<noteq> CHR ''-''"
proof -
  have "list_all (\<lambda>d. digit d \<noteq> CHR ''-'') [0..<10]" by code_simp
  then show "d < 10 \<Longrightarrow> digit d \<noteq> CHR ''-''" by (simp add: list_all_iff)
qed

lemma no_dash: "CHR ''-'' \<notin> set (show_nat n)"
  using show_nat_digits digit_not_dash by metis

lemma race_event_inject [simp]: "race_event t i = race_event t' i' \<longleftrightarrow> t = t' \<and> i = i'"
proof
  assume "race_event t i = race_event t' i'"
  then have "show_nat t @ CHR ''-'' # show_nat i = show_nat t' @ CHR ''-'' # show_nat i'"
    by (simp add: race_event_def)
  then have "split_on (CHR ''-'') (show_nat t @ CHR ''-'' # show_nat i) =
      split_on (CHR ''-'') (show_nat t' @ CHR ''-'' # show_nat i')" by simp
  then show "t = t' \<and> i = i'" by (simp add: split_on_append split_on_no_sep no_dash)
qed simp

lemma dom_mark: "dom (map_of (mark now a e s)) = insert (as_str a, e) (dom (map_of s))"
  by (auto simp: mark_completed_def simp del: dom_map_of_conv_image_fst)

lemma race_run_rows:
  assumes "wf_dedup s" and "dom (map_of s) = (\<lambda>(t, i). (''race_agent'', race_event t i)) ` seen"
    and "race_order seen steps" and "race_run steps s = (good, s')"
  shows "good \<and> wf_dedup s' \<and>
     dom (map_of s') = (\<lambda>(t, i). (''race_agent'', race_event t i)) ` (seen \<union> set (concat (map marked steps)))"
  using assms
proof (induction seen steps arbitrary: s good rule: race_order.induct)
  case (2 seen t i now steps)
  let ?s = "mark now (AgentId ''race_agent'') (race_event t i) s"
  have "dom (map_of ?s) = (\<lambda>(t, i). (''race_agent'', race_event t i)) ` insert (t, i) seen"
    using "2.prems"(2) by (simp add: dom_mark as_str_def)
  from "2.IH"[OF wf_mark[OF "2.prems"(1)] this] "2.prems"(3,4) show ?case by simp
next
  case (3 seen t i steps)
  obtain good' where run: "race_run steps s = (good', s')"
    "good = (is_completed True s (AgentId ''race_agent'') (race_event t i) = Inr True \<and> good')"
    using "3.prems"(4) by (auto split: prod.splits)
  have "(''race_agent'', race_event t i) \<in> dom (map_of s)"
    using "3.prems"(2,3) by auto
  then have "is_completed True s (AgentId ''race_agent'') (race_event t i) = Inr True"
    by (auto simp: is_completed_def as_str_def)
  with "3.IH"[OF "3.prems"(1,2) _ run(1)] "3.prems"(3) run(2) show ?case by simp
qed auto

lemma passes_concurrent_access_is_serialized:
  assumes "race_order {} steps" and "mset (concat (map marked steps)) = mset (List.product [0..<4] [0..<100])"
  shows "concurrent_access_is_serialized steps"
proof -
  obtain good s' where run: "race_run steps [] = (good, s')" by fastforce
  have "wf_dedup []" by (simp add: wf_dedup_def wf_map_def)
  from race_run_rows[OF this _ assms(1) run]
  have rows: "good" "wf_dedup s'"
      "dom (map_of s') = (\<lambda>(t, i). (''race_agent'', race_event t i)) ` set (List.product [0..<4] [0..<100])"
    using mset_eq_setD[OF assms(2)] by simp_all
  have "inj_on (\<lambda>(t, i). (''race_agent'', race_event t i)) A" for A by (auto simp: inj_on_def)
  then have "card (dom (map_of s')) = card (set (List.product [0..<4] [0..<100]))"
    unfolding rows(3) by (rule card_image)
  also have "\<dots> = 400" by simp
  finally have "card (set (map fst s')) = 400" by (simp add: dom_map_of_conv_image_fst)
  moreover have "distinct (map fst s')" using rows(2) by (simp add: wf_dedup_def wf_map_def)
  ultimately have "length s' = 400" by (metis distinct_card length_map)
  with run rows(1) show ?thesis by (simp add: concurrent_access_is_serialized_def dedup_len_def)
qed

definition file_backed_open_creates_schema_and_purges :: "u64 \<Rightarrow> u64 \<Rightarrow> u64 \<Rightarrow> bool" where
  "file_backed_open_creates_schema_and_purges now now' now'' =
     (case dedup_open (dedup_env_good\<lparr>de_parent := Some ''/t''\<rparr>) ''/t/dedup.db'' now 3600 of
        Inl e \<Rightarrow> False
      | Inr s \<Rightarrow>
          (let env = dedup_env_good\<lparr>de_parent := Some ''/t'', de_rows := Some (mark now (AgentId ''a'') ''e1'' s)\<rparr> in
           case dedup_open env ''/t/dedup.db'' now' 3600 of
             Inl e \<Rightarrow> False
           | Inr s2 \<Rightarrow>
               is_completed True s2 (AgentId ''a'') ''e1'' = Inr True \<and>
               (case dedup_open (env\<lparr>de_rows := Some s2\<rparr>) ''/t/dedup.db'' now'' 0 of
                  Inl e \<Rightarrow> False
                | Inr s3 \<Rightarrow> dedup_is_empty True s3 = Inr True)))"

lemma passes_file_backed_open_creates_schema_and_purges:
  assumes "unat now' \<le> unat now + 3600" and "unat now < unat now''" and "unat now' < 2 ^ 63" and "unat now'' < 2 ^ 63"
  shows "file_backed_open_creates_schema_and_purges now now' now''"
proof -
  have "\<not> now <s saturating_sub now' 3600" "now <s saturating_sub now'' 0"
    using assms by (simp_all add: expired_iff)
  then show ?thesis
    by (simp add: file_backed_open_creates_schema_and_purges_def dedup_open_def with_connection_def purge_expired_def
        mark_completed_def is_completed_def dedup_is_empty_def dedup_len_def dedup_env_good_def Let_def)
qed

section \<open>The registry\<close>

text \<open>A TOML codec that knows the given registrations, numbered; it has the round trip of the real one.\<close>

definition table_codec :: "agent_config list \<Rightarrow> toml_codec" where
  "table_codec cs =
     \<lparr>toml_parse = (\<lambda>t. map_option (\<lambda>i. omit_none (serialize_agent_config (cs ! i)))
                         (find (\<lambda>i. show_nat i = t) [0..<length cs])),
      toml_print = (\<lambda>v. map_option show_nat (find (\<lambda>i. serialize_agent_config (cs ! i) = v) [0..<length cs]))\<rparr>"

lemma table_codec_roundtrip: "toml_roundtrip (table_codec cs)"
proof -
  have "omit_none (serialize_agent_config (cs ! j)) = omit_none (serialize_agent_config c)"
    if "find (\<lambda>i. serialize_agent_config (cs ! i) = serialize_agent_config c) [0..<length cs] = Some i"
      "find (\<lambda>k. k = i) [0..<length cs] = Some j" for c i j
    using that by (auto simp: find_Some_iff)
  moreover have "find (\<lambda>k. k = i) [0..<length cs] \<noteq> None"
    if "find (\<lambda>i. serialize_agent_config (cs ! i) = serialize_agent_config c) [0..<length cs] = Some i" for c i
    using that by (auto simp: find_None_iff find_Some_iff)
  ultimately show ?thesis
    by (fastforce simp: toml_roundtrip_def table_codec_def)
qed

definition cfg :: "string \<Rightarrow> path \<Rightarrow> u32 \<Rightarrow> agent_config" where
  "cfg i h concurrency =
     \<lparr>agent_id = AgentId i, handler = h, max_concurrency = concurrency, working_directory = None, enabled = True\<rparr>"

definition temp_dir :: disk where
  "temp_dir = \<lparr>dir_exists = True, files = []\<rparr>"

definition toml_string :: "agent_config list \<Rightarrow> agent_config \<Rightarrow> string" where
  "toml_string cs c = unwrap_or_default (toml_print (table_codec cs) (serialize_agent_config c))"

definition write_file :: "string \<Rightarrow> string \<Rightarrow> disk \<Rightarrow> disk" where
  "write_file name text d = d\<lparr>files := AList.update name (Readable text) (files d)\<rparr>"

definition remove_file :: "string \<Rightarrow> disk \<Rightarrow> disk" where
  "remove_file name d = d\<lparr>files := AList.delete name (files d)\<rparr>"

definition file_exists :: "disk \<Rightarrow> string \<Rightarrow> bool" where
  "file_exists d name = (map_of (files d) name \<noteq> None)"

definition loaded :: "agent_config list \<Rightarrow> disk \<Rightarrow> (registry \<Rightarrow> bool) \<Rightarrow> bool" where
  "loaded cs d body =
     (case registry_load (table_codec cs) io_good ''/t'' d of (Inl e, d') \<Rightarrow> False | (Inr r, d') \<Rightarrow> body r)"

definition structural_validation_rejects_bad_configs :: bool where
  "structural_validation_rejects_bad_configs =
     (is_ok (agent_config_validate (cfg ''a_b'' ''/abs/handler'' 1)) \<and>
      \<not> is_ok (agent_config_validate (cfg ''a_b'' ''relative'' 1)) \<and>
      \<not> is_ok (agent_config_validate ((cfg ''a_b'' ''/abs'' 1)\<lparr>max_concurrency := 0\<rparr>)) \<and>
      \<not> is_ok (agent_config_validate ((cfg ''a_b'' ''/abs'' 1)\<lparr>working_directory := Some ''relative''\<rparr>)))"

lemma passes_structural_validation_rejects_bad_configs: structural_validation_rejects_bad_configs
  by code_simp

definition register_persists_and_reload_roundtrips :: bool where
  "register_persists_and_reload_roundtrips =
     (let c = cfg ''coding_main'' ''/bin/true'' 1; cs = [c] in
      loaded cs temp_dir (\<lambda>r.
        case register (table_codec cs) io_good c r of
          (Inl e, r1) \<Rightarrow> False
        | (Inr _, r1) \<Rightarrow>
            file_exists (reg_disk r1) ''coding_main.toml'' \<and>
            loaded cs (reg_disk r1) (\<lambda>r2. map (\<lambda>c. as_str (agent_id c)) (snapshot r2) = [''coding_main''])))"

lemma passes_register_persists_and_reload_roundtrips: register_persists_and_reload_roundtrips
  by code_simp

definition duplicate_register_is_an_error :: bool where
  "duplicate_register_is_an_error =
     (let c = cfg ''a_b'' ''/bin/true'' 1; c' = cfg ''a_b'' ''/bin/false'' 2; cs = [c, c'] in
      loaded cs temp_dir (\<lambda>r.
        case register (table_codec cs) io_good c r of
          (Inl e, r1) \<Rightarrow> False
        | (Inr _, r1) \<Rightarrow> \<not> is_ok (fst (register (table_codec cs) io_good c' r1))))"

lemma passes_duplicate_register_is_an_error: duplicate_register_is_an_error
  by code_simp

definition filename_must_match_agent_id :: bool where
  "filename_must_match_agent_id =
     (let c = cfg ''a_b'' ''/bin/true'' 1; d = write_file ''wrong.toml'' (toml_string [c] c) temp_dir in
      \<not> is_ok (fst (registry_load (table_codec [c]) io_good ''/t'' d)))"

lemma passes_filename_must_match_agent_id: filename_must_match_agent_id
  by code_simp

fun change_kind :: "change \<Rightarrow> string" where
  "change_kind (Added c) = ''added''"
| "change_kind (Updated c) = ''updated''"
| "change_kind (Enabled c) = ''enabled''"
| "change_kind (Disabled c) = ''disabled''"
| "change_kind (Removed a) = ''removed''"

definition reload_diffs_transitions :: bool where
  "reload_diffs_transitions =
     (let a = cfg ''a'' ''/bin/a'' 1; b = cfg ''b'' ''/bin/b'' 1; c = cfg ''c'' ''/bin/c'' 1;
          b_disabled = (cfg ''b'' ''/bin/b2'' 1)\<lparr>enabled := False\<rparr>;
          cs = [a, b, c, b_disabled]
      in loaded cs (write_file ''b.toml'' (toml_string cs b) (write_file ''a.toml'' (toml_string cs a) temp_dir)) (\<lambda>r.
           length (snapshot r) = 2 \<and>
           (let d = write_file ''b.toml'' (toml_string cs b_disabled)
                      (remove_file ''a.toml'' (write_file ''c.toml'' (toml_string cs c) (reg_disk r)))
            in case reload (table_codec cs) io_good (r\<lparr>reg_disk := d\<rparr>) of
                 (Inl e, r') \<Rightarrow> False
               | (Inr changes, r') \<Rightarrow> map change_kind changes = [''removed'', ''disabled'', ''added''])))"

lemma passes_reload_diffs_transitions: reload_diffs_transitions
  by code_simp

definition update_and_unregister_flow :: bool where
  "update_and_unregister_flow =
     (let c = cfg ''a_b'' ''/bin/a'' 1; c2 = cfg ''a_b'' ''/bin/a2'' 2; cs = [c, c2, c2\<lparr>enabled := False\<rparr>];
          tc = table_codec cs; i = AgentId ''a_b''
      in loaded cs temp_dir (\<lambda>r.
           case register tc io_good c r of (res1, r1) \<Rightarrow>
           case update tc io_good c2 r1 of (res2, r2) \<Rightarrow>
           case set_enabled tc io_good i False r2 of (res3, r3) \<Rightarrow>
           case unregister io_good i r3 of (res4, r4) \<Rightarrow>
             list_all is_ok [res1, res2, res3, res4] \<and> map handler (snapshot r2) = [''/bin/a2''] \<and>
             map enabled (snapshot r3) = [False] \<and> snapshot r4 = [] \<and> \<not> file_exists (reg_disk r4) ''a_b.toml''))"

lemma passes_update_and_unregister_flow: update_and_unregister_flow
  by code_simp

text \<open>The mutex lets the two threads in one after the other, in either order.\<close>

definition concurrent_same_id_register_keeps_disk_and_memory_consistent :: "bool \<Rightarrow> bool" where
  "concurrent_same_id_register_keeps_disk_and_memory_consistent first =
     (let c1 = cfg ''race_id'' ''/bin/h1'' 1; c2 = cfg ''race_id'' ''/bin/h2'' 1; cs = [c1, c2]; tc = table_codec cs in
      loaded cs temp_dir (\<lambda>r.
        case register tc io_good (if first then c1 else c2) r of (a, r1) \<Rightarrow>
        case register tc io_good (if first then c2 else c1) r1 of (b, r2) \<Rightarrow>
          is_ok a \<noteq> is_ok b \<and>
          (case (snapshot r2, map_of (files (reg_disk r2)) ''race_id.toml'') of
             ([mem], Some ent) \<Rightarrow>
               (case read_agent_file tc ''/t/race_id.toml'' ent of
                  Inl e \<Rightarrow> False
                | Inr disk \<Rightarrow> handler mem = handler disk)
           | _ \<Rightarrow> False)))"

lemma passes_concurrent_same_id_register_keeps_disk_and_memory_consistent:
  "concurrent_same_id_register_keeps_disk_and_memory_consistent first"
proof -
  have "concurrent_same_id_register_keeps_disk_and_memory_consistent True"
    "concurrent_same_id_register_keeps_disk_and_memory_consistent False" by code_simp+
  then show ?thesis by (cases first) simp_all
qed

definition load_sweeps_stale_tmp_files :: bool where
  "load_sweeps_stale_tmp_files =
     (let c = cfg ''a'' ''/bin/a'' 1;
          d = write_file ''.b.999.tmp'' ''partial''
                (write_file ''.a.12345.tmp'' ''partial'' (write_file ''a.toml'' (toml_string [c] c) temp_dir))
      in loaded [c] d (\<lambda>r. length (snapshot r) = 1 \<and> \<not> file_exists (reg_disk r) ''.a.12345.tmp'' \<and>
           \<not> file_exists (reg_disk r) ''.b.999.tmp''))"

lemma passes_load_sweeps_stale_tmp_files: load_sweeps_stale_tmp_files
  by code_simp

definition liveness_warnings_classify_handlers :: bool where
  "liveness_warnings_classify_handlers =
     (let script = cfg ''a_b'' ''/t/handler'' 1 in
      liveness_warnings (\<lambda>p. None) (cfg ''a_b'' ''/nonexistent/handler'' 1) =
        [Handler_Missing ''/nonexistent/handler''] \<and>
      liveness_warnings (\<lambda>p. Some 420) script = [Handler_Not_Executable ''/t/handler''] \<and>
      liveness_warnings (\<lambda>p. Some 493) script = [])"

lemma passes_liveness_warnings_classify_handlers: liveness_warnings_classify_handlers
  by (simp add: liveness_warnings_classify_handlers_def liveness_warnings_def is_executable_def cfg_def)

end
