(* ===== verification/Integration_Tests.thy ===== *)
theory Integration_Tests
  imports Dispatch_Races Unit_Tests_Logging
begin

text \<open>
  The integration tests of the dispatcher (\<open>tests/dispatcher.rs\<close>), run on the model under the names they have
  there.  The handlers are shell scripts, so what they do is not part of the model; the tests are kept to
  what the dispatcher does, with the exit status of the script as an answer, and a test of overlapping
  dispatches is run on the schedule the sleeps of its scripts enforce.
\<close>

section \<open>Fixtures\<close>

definition AGENT :: string where
  "AGENT = ''t_agent''"

definition test_agent :: agent_id where
  "test_agent = AgentId AGENT"

text \<open>
  The text of a message and the document a JSON parser reads from it; \<open>reads json e\<close> says that it does.
\<close>

definition message :: "string \<Rightarrow> string \<Rightarrow> string \<Rightarrow> string" where
  "message version event_id agent =
     ''{\"version\":'' @ version @ '',\"event_id\":\"'' @ event_id @ ''\",\"agent_id\":\"'' @ agent @
     ''\",\"type\":\"im.message\",\"created_at\":\"2026-08-20T00:00:00Z\",\"payload\":{\"n\":1}}''"

definition envelope :: "string \<Rightarrow> string" where
  "envelope event_id = message ''1'' event_id AGENT"

definition message_document :: "int \<Rightarrow> string \<Rightarrow> string \<Rightarrow> sval" where
  "message_document version event_id agent =
     VObj [(''version'', VInt version), (''event_id'', VStr event_id), (''agent_id'', VStr agent),
           (''type'', VStr ''im.message''), (''created_at'', VStr ''2026-08-20T00:00:00Z''),
           (''payload'', VObj [(''n'', VInt 1)])]"

definition reads :: "(string \<Rightarrow> sval option) \<Rightarrow> string \<Rightarrow> bool" where
  "reads json event_id = (json (envelope event_id) = Some (message_document 1 event_id AGENT))"

definition test_config :: "u32 \<Rightarrow> agent_config" where
  "test_config concurrency =
     \<lparr>agent_id = test_agent, handler = ''/tmp/d/on-event'', max_concurrency = concurrency,
      working_directory = Some ''/tmp/d/workdir'', enabled = True\<rparr>"

definition printer :: toml_codec where
  "printer = \<lparr>toml_parse = (\<lambda>_. None), toml_print = (\<lambda>_. Some ''t'')\<rparr>"

text \<open>A registry loaded from an empty directory, with the agent registered, and a dispatcher on a given store.\<close>

definition with_dedup :: "agent_config \<Rightarrow> dedup_store \<Rightarrow> u64 \<Rightarrow> dispatcher" where
  "with_dedup c store cap =
     dispatcher_new
       (snd (register printer io_good c
         \<lparr>reg_dir = ''/tmp/d/agents.d'', reg_agents = [], reg_disk = \<lparr>dir_exists = True, files = []\<rparr>\<rparr>))
       store 3600 cap"

definition fixture :: "u32 \<Rightarrow> dispatcher" where
  "fixture concurrency = with_dedup (test_config concurrency) [] (256 * 1024)"

definition test_delivery :: "string \<Rightarrow> delivery" where
  "test_delivery event_id =
     \<lparr>dl_agent = test_agent, dl_raw = envelope event_id, dl_stream_sequence = 7, dl_consumer_sequence = 3,
      dl_delivery_count = 1\<rparr>"

text \<open>The calls counted by \<open>FakeAcker\<close>, the runs of the handler, and one dispatch after the other.\<close>

definition acks :: "effect list \<Rightarrow> nat" where
  "acks es = length (filter (\<lambda>eff. case eff of Ack_Sent b \<Rightarrow> True | _ \<Rightarrow> False) es)"

definition terms :: "effect list \<Rightarrow> nat" where
  "terms es = length (filter (\<lambda>eff. case eff of Term_Sent b \<Rightarrow> True | _ \<Rightarrow> False) es)"

definition handler_inputs :: "effect list \<Rightarrow> spawn_request list" where
  "handler_inputs es = concat (map (\<lambda>eff. case eff of Spawn r \<Rightarrow> [r] | _ \<Rightarrow> []) es)"

fun dispatch_all :: "(string \<Rightarrow> sval option) \<Rightarrow> answers \<Rightarrow> delivery list \<Rightarrow> dispatcher \<Rightarrow> dispatcher \<times> effect list" where
  "dispatch_all json an [] D = (D, [])"
| "dispatch_all json an (dl # dls) D =
     (case dispatch json an D dl of
        (D', p, es) \<Rightarrow> (case dispatch_all json an dls D' of (D'', es') \<Rightarrow> (D'', es @ es')))"

section \<open>How the tests are evaluated\<close>

definition test_envelope :: "string \<Rightarrow> event_envelope" where
  "test_envelope event_id =
     \<lparr>ev_version = 1, ev_event_id = event_id, ev_agent_id = test_agent, ev_event_type = ''im.message'',
      ev_created_at = ''2026-08-20T00:00:00Z'', ev_payload = VObj [(''n'', VInt 1)], ev_metadata = None\<rparr>"

lemma agent_parses: "parse_agent_id ''t_agent'' = Inr (AgentId ''t_agent'')"
  by code_simp

lemma document_parses:
  "json raw = Some (message_document 1 e AGENT) \<Longrightarrow> trim e \<noteq> [] \<Longrightarrow> envelope_parse json raw = Inr (test_envelope e)"
  by (simp add: envelope_parse_def deserialize_envelope_def message_document_def envelope_fields_def req_def dflt_def
      as_value_def deserialize_agent_id_def AGENT_def agent_parses envelope_validate_def ENVELOPE_VERSION_def
      test_envelope_def test_agent_def)

lemma message_length: "length (message v e a) = 114 + length v + length e + length a"
  by (simp add: message_def)

lemma test_sel [simp]:
  "dl_agent (test_delivery e) = test_agent" "dl_raw (test_delivery e) = envelope e"
  "dl_stream_sequence (test_delivery e) = 7" "dl_consumer_sequence (test_delivery e) = 3"
  "dl_delivery_count (test_delivery e) = 1" "ev_event_type (test_envelope e) = ''im.message''"
  "ev_event_id (test_envelope e) = e" "ev_agent_id (test_envelope e) = test_agent"
  "enabled (test_config n)" "agent_id (test_config n) = test_agent" "max_concurrency (test_config n) = n"
  by (simp_all add: test_delivery_def test_envelope_def test_config_def)

lemma test_config_valid: "n \<noteq> 0 \<Longrightarrow> agent_config_validate (test_config n) = Inr ()"
  by (simp add: agent_config_validate_ok test_config_def is_absolute_def)

lemma test_persisted: "\<exists>d'. persist printer io_good dir c d = (Inr (), d')"
  by (simp add: persist_def printer_def io_good_def Let_def)

lemma registered:
  assumes "agent_config_validate c = Inr ()" and "agent_id c = test_agent"
  shows "get (dp_registry (with_dedup c store cap)) test_agent = Some c"
proof -
  let ?r = "\<lparr>reg_dir = ''/tmp/d/agents.d'', reg_agents = [], reg_disk = \<lparr>dir_exists = True, files = []\<rparr>\<rparr>"
  obtain d' where "persist printer io_good (reg_dir ?r) c (reg_disk ?r) = (Inr (), d')"
    using test_persisted by blast
  then have "snd (register printer io_good c ?r) =
      ?r\<lparr>reg_disk := d', reg_agents := AList.update test_agent c (reg_agents ?r)\<rparr>"
    using assms by (simp add: register_def get_def)
  then show ?thesis by (simp add: with_dedup_def dispatcher_new_def get_def)
qed

lemma test_registered:
  "n \<noteq> 0 \<Longrightarrow> get (dp_registry (with_dedup (test_config n) store cap)) test_agent = Some (test_config n)"
  by (simp add: registered test_config_valid)

lemma with_dedup_sel [simp]:
  "dp_dedup (with_dedup c store cap) = store" "dp_states (with_dedup c store cap) = []"
  "dp_sems (with_dedup c store cap) = []" "dp_max_event_bytes (with_dedup c store cap) = cap"
  "dp_slow_handler_warn (with_dedup c store cap) = 3600"
  by (simp_all add: with_dedup_def dispatcher_new_def)

lemma test_gate:
  assumes "reads json e" and "trim e \<noteq> []" and "length e \<le> 1000" and "dp_max_event_bytes D = 256 * 1024"
  shows "gate json D (test_delivery e) =
     (case get (dp_registry D) test_agent of
        None \<Rightarrow> Inl (Delivery_For_Unregistered test_agent)
      | Some c \<Rightarrow> if enabled c then Inr (test_envelope e, c) else Inl (Delivery_For_Disabled test_agent))"
  using assms document_parses[of json "envelope e" e]
  by (simp add: gate_def reads_def envelope_def message_length AGENT_def split: option.split)

lemma gate_sequences:
  "gate json D (dl\<lparr>dl_stream_sequence := x, dl_consumer_sequence := y\<rparr>) = gate json D dl"
  by (simp add: gate_def split: sum.split option.split)

lemma run_task_numeral:
  "run_task (numeral k) json an D dl p =
     (case advance json an D dl p of
        None \<Rightarrow> (D, p, [])
      | Some (D', p', es) \<Rightarrow>
          (case run_task (pred_numeral k) json an D' dl p' of (D'', p'', es') \<Rightarrow> (D'', p'', es @ es')))"
  by (simp add: numeral_eq_Suc)

lemma event_ids:
  "trim ''e-stdin'' = ''e-stdin''" "trim ''e-env'' = ''e-env''" "trim ''e-exit1'' = ''e-exit1''"
  "trim ''e-spawn'' = ''e-spawn''" "trim ''e-dup'' = ''e-dup''" "trim ''e-dup-inflight'' = ''e-dup-inflight''"
  "trim ''e-ser-0'' = ''e-ser-0''" "trim ''e-ser-1'' = ''e-ser-1''" "trim ''e-ser-2'' = ''e-ser-2''"
  "trim ''e-par-0'' = ''e-par-0''" "trim ''e-par-1'' = ''e-par-1''" "trim ''e-par-2'' = ''e-par-2''"
  "trim ''e-epipe'' = ''e-epipe''" "trim ''e-fo-r'' = ''e-fo-r''" "trim ''e-fo-m'' = ''e-fo-m''"
  "trim ''e-disabled'' = ''e-disabled''" "trim ''e-marked'' = ''e-marked''" "trim ''e-spans'' = ''e-spans''"
  by code_simp+

lemmas test_simps =
  dispatch_def run_task_numeral section_defs ensure_state_def is_completed_def mark_completed_def take_permit_def
  drop_permit_def remove_in_flight_def fixture_def test_gate test_registered event_ids acks_def terms_def
  handler_inputs_def handler_command_def

section \<open>One dispatch\<close>

definition stdin_receives_exact_original_bytes :: "(string \<Rightarrow> sval option) \<Rightarrow> bool" where
  "stdin_receives_exact_original_bytes json =
     (case dispatch json demo_answers (fixture 1) (test_delivery ''e-stdin'') of
        (D, p, es) \<Rightarrow> acks es = 1 \<and> terms es = 0 \<and> map sp_stdin (handler_inputs es) = [envelope ''e-stdin''])"

lemma passes_stdin: "reads json ''e-stdin'' \<Longrightarrow> stdin_receives_exact_original_bytes json"
  by (simp add: stdin_receives_exact_original_bytes_def test_simps)

definition env_vars_exposed_to_handler :: "(string \<Rightarrow> sval option) \<Rightarrow> bool" where
  "env_vars_exposed_to_handler json =
     (case dispatch json demo_answers (fixture 1) (test_delivery ''e-env'') of
        (D, p, es) \<Rightarrow>
          (case handler_inputs es of
             [r] \<Rightarrow>
               list_all (\<lambda>expected. expected \<in> set (map (\<lambda>(k, v). k @ ''='' @ v) (sp_env r)))
                 [''AGENTD_AGENT_ID=t_agent'', ''AGENTD_EVENT_ID=e-env'', ''AGENTD_EVENT_TYPE=im.message'',
                  ''AGENTD_STREAM_SEQUENCE=7'', ''AGENTD_CONSUMER_SEQUENCE=3'', ''AGENTD_DELIVERY_COUNT=1'']
           | _ \<Rightarrow> False))"

lemma shown: "show_nat 7 = ''7''" "show_nat 3 = ''3''" "show_nat (Suc 0) = ''1''" "as_str test_agent = ''t_agent''"
  by code_simp+

lemma passes_env: "reads json ''e-env'' \<Longrightarrow> env_vars_exposed_to_handler json"
  by (simp add: env_vars_exposed_to_handler_def test_simps shown)

definition nonzero_exit_acks_once_no_retry :: "(string \<Rightarrow> sval option) \<Rightarrow> bool" where
  "nonzero_exit_acks_once_no_retry json =
     (case dispatch json (demo_answers\<lparr>an_wait := Some (Exit_Code 1)\<rparr>) (fixture 1) (test_delivery ''e-exit1'') of
        (D, p, es) \<Rightarrow> acks es = 1 \<and> terms es = 0 \<and> length (handler_inputs es) = 1)"

lemma passes_nonzero_exit: "reads json ''e-exit1'' \<Longrightarrow> nonzero_exit_acks_once_no_retry json"
  by (simp add: nonzero_exit_acks_once_no_retry_def test_simps)

definition spawn_failure_is_terminal :: "(string \<Rightarrow> sval option) \<Rightarrow> bool" where
  "spawn_failure_is_terminal json =
     (case dispatch json (demo_answers\<lparr>an_spawn := None\<rparr>)
             (with_dedup ((test_config 1)\<lparr>handler := ''/tmp/d/does-not-exist'', working_directory := None\<rparr>) [] (256 * 1024))
             ((test_delivery ''e-spawn'')\<lparr>dl_stream_sequence := 1, dl_consumer_sequence := 1\<rparr>) of
        (D, p, es) \<Rightarrow> terms es = 1 \<and> acks es = 0)"

lemma passes_spawn_failure: "reads json ''e-spawn'' \<Longrightarrow> spawn_failure_is_terminal json"
proof -
  assume "reads json ''e-spawn''"
  moreover have "agent_config_validate ((test_config 1)\<lparr>handler := ''/tmp/d/does-not-exist'', working_directory := None\<rparr>) = Inr ()"
    by (simp add: agent_config_validate_ok test_config_def is_absolute_def)
  ultimately show ?thesis by (simp add: spawn_failure_is_terminal_def test_simps registered gate_sequences)
qed

section \<open>Deliveries that are refused\<close>

definition invalid_envelope_is_terminal :: "(string \<Rightarrow> sval option) \<Rightarrow> bool" where
  "invalid_envelope_is_terminal json =
     (let bad = (test_delivery ''x'')\<lparr>dl_raw := ''{not json''\<rparr>;
          v2 = (test_delivery ''x'')\<lparr>dl_raw := message ''2'' ''e-v2'' AGENT\<rparr>;
          wrong = (test_delivery ''x'')\<lparr>dl_raw := message ''1'' ''e-x'' ''other_agent''\<rparr>
      in case dispatch_all json demo_answers [bad, v2, wrong] (fixture 1) of
           (D, es) \<Rightarrow> terms es = 3 \<and> acks es = 0 \<and> handler_inputs es = [])"

lemma refused_terminates:
  "gate json D dl = Inl l \<Longrightarrow>
     dispatch json demo_answers D dl = (D, Finished (Termed True), [Log l, Term_Sent True])"
  by (simp add: dispatch_def run_task_numeral enter_def)

lemma passes_invalid_envelope:
  assumes "json ''{not json'' = None" and "json (message ''2'' ''e-v2'' AGENT) = Some (message_document 2 ''e-v2'' AGENT)"
    and "json (message ''1'' ''e-x'' ''other_agent'') = Some (message_document 1 ''e-x'' ''other_agent'')"
  shows "invalid_envelope_is_terminal json"
proof -
  have size: "length (message v e a) \<le> unat (dp_max_event_bytes (fixture 1))" if "length (v @ e @ a) \<le> 100" for v e a
    using that by (simp add: message_length fixture_def)
  have small: "\<not> unat (dp_max_event_bytes (fixture 1)) < length ''{not json''" by (simp add: fixture_def)
  have "envelope_parse json ''{not json'' = Inl (InvalidEnvelope UnparseableJson)"
    using assms(1) by (simp add: envelope_parse_def)
  then have "\<exists>l. gate json (fixture 1) ((test_delivery ''x'')\<lparr>dl_raw := ''{not json''\<rparr>) = Inl l"
    using small by (simp add: gate_def)
  moreover have "parse_agent_id ''other_agent'' = Inr (AgentId ''other_agent'')" "trim ''e-x'' = ''e-x''" by code_simp+
  then have "\<exists>e. envelope_parse json (message ''1'' ''e-x'' ''other_agent'') = Inr e \<and> ev_agent_id e = AgentId ''other_agent''"
    using assms(3)
    by (simp add: envelope_parse_def deserialize_envelope_def message_document_def envelope_fields_def req_def
        dflt_def as_value_def deserialize_agent_id_def envelope_validate_def ENVELOPE_VERSION_def)
  then have "\<exists>l. gate json (fixture 1) ((test_delivery ''x'')\<lparr>dl_raw := message ''1'' ''e-x'' ''other_agent''\<rparr>) = Inl l"
    using size[of "''1''" "''e-x''" "''other_agent''"] by (auto simp: gate_def test_agent_def AGENT_def)
  moreover have "\<exists>x. envelope_parse json (message ''2'' ''e-v2'' AGENT) = Inl x"
    using assms(2) agent_parses
    by (simp add: envelope_parse_def deserialize_envelope_def message_document_def envelope_fields_def req_def
        dflt_def as_value_def deserialize_agent_id_def envelope_validate_def ENVELOPE_VERSION_def AGENT_def)
  then have "\<exists>l. gate json (fixture 1) ((test_delivery ''x'')\<lparr>dl_raw := message ''2'' ''e-v2'' AGENT\<rparr>) = Inl l"
    using size[of "''2''" "''e-v2''" AGENT] by (auto simp: gate_def AGENT_def)
  ultimately show ?thesis
    by (auto simp: invalid_envelope_is_terminal_def refused_terminates terms_def acks_def handler_inputs_def)
qed

definition oversize_event_is_terminal :: "(string \<Rightarrow> sval option) \<Rightarrow> bool" where
  "oversize_event_is_terminal json =
     (case dispatch json demo_answers
             (with_dedup ((test_config 1)\<lparr>handler := ''/tmp/d/h'', working_directory := None\<rparr>) [] 64)
             ((test_delivery ''e-big'')\<lparr>dl_stream_sequence := 1, dl_consumer_sequence := 1\<rparr>) of
        (D, p, es) \<Rightarrow> terms es = 1)"

text \<open>Whatever the parser makes of the text.\<close>

lemma passes_oversize: "oversize_event_is_terminal json"
  by (simp add: oversize_event_is_terminal_def dispatch_def run_task_numeral enter_def gate_def envelope_def
      message_length terms_def)

text \<open>
  The envelope of the test's unregistered agent names the registered one, so that delivery is refused
  for its mismatch, before the registration is looked at; \<open>unregistered_refused\<close> has the branch itself.
\<close>

definition unregistered_and_disabled_agents_term :: "(string \<Rightarrow> sval option) \<Rightarrow> bool" where
  "unregistered_and_disabled_agents_term json =
     (case parse_agent_id ''ghost_agent'' of
        Inl e \<Rightarrow> False
      | Inr ghost \<Rightarrow>
          (let D = fixture 1;
               (D1, p1, es1) = dispatch json demo_answers D
                 ((test_delivery ''e-ghost'')\<lparr>dl_agent := ghost, dl_stream_sequence := 1, dl_consumer_sequence := 1\<rparr>);
               disabled = snd (set_enabled printer io_good test_agent False (dp_registry D1));
               (D2, p2, es2) = dispatch json demo_answers (D1\<lparr>dp_registry := disabled\<rparr>) (test_delivery ''e-disabled'')
           in terms es1 = 1 \<and> terms es2 = 1))"

lemma ghost_parses: "parse_agent_id ''ghost_agent'' = Inr (AgentId ''ghost_agent'')" "trim ''e-ghost'' = ''e-ghost''"
  by code_simp+

lemma ghost_mismatch:
  assumes "reads json ''e-ghost''"
  shows "gate json (fixture 1)
       ((test_delivery ''e-ghost'')\<lparr>dl_agent := AgentId ''ghost_agent'', dl_stream_sequence := 1, dl_consumer_sequence := 1\<rparr>) =
     Inl (Invalid_Event (Agent_Mismatch test_agent (AgentId ''ghost_agent'')))"
  using assms document_parses[of json "envelope ''e-ghost''" "''e-ghost''"]
  by (simp add: gate_def fixture_def envelope_def message_length reads_def AGENT_def test_agent_def ghost_parses(2))

lemma set_disabled:
  assumes "get r a = Some c" and "agent_config_validate c = Inr ()" and "agent_id c = a"
  shows "get (snd (set_enabled printer io_good a False r)) a = Some (c\<lparr>enabled := False\<rparr>)"
proof -
  obtain d' where "persist printer io_good (reg_dir r) (c\<lparr>enabled := False\<rparr>) (reg_disk r) = (Inr (), d')"
    using test_persisted by blast
  with assms show ?thesis by (simp add: set_enabled_def get_def)
qed

lemma passes_unregistered_and_disabled:
  assumes "reads json ''e-ghost''" and "reads json ''e-disabled''"
  shows "unregistered_and_disabled_agents_term json"
proof -
  let ?r = "snd (set_enabled printer io_good test_agent False (dp_registry (fixture 1)))"
  have "get ?r test_agent = Some ((test_config 1)\<lparr>enabled := False\<rparr>)"
    using set_disabled[of "dp_registry (fixture 1)" test_agent "test_config 1"]
    by (simp add: fixture_def test_registered test_config_valid)
  then have "gate json ((fixture 1)\<lparr>dp_registry := ?r\<rparr>) (test_delivery ''e-disabled'') =
      Inl (Delivery_For_Disabled test_agent)"
    using assms(2) by (simp add: test_gate event_ids fixture_def)
  then show ?thesis
    using ghost_mismatch[OF assms(1)]
    by (simp add: unregistered_and_disabled_agents_term_def ghost_parses(1) refused_terminates terms_def)
qed

lemma unregistered_refused:
  assumes "envelope_parse json (dl_raw dl) = Inr e" and "ev_agent_id e = dl_agent dl"
    and "length (dl_raw dl) \<le> unat (dp_max_event_bytes D)" and "get (dp_registry D) (dl_agent dl) = None"
  shows "dispatch json demo_answers D dl =
     (D, Finished (Termed True), [Log (Delivery_For_Unregistered (dl_agent dl)), Term_Sent True])"
  using assms by (intro refused_terminates) (simp add: gate_def)

section \<open>The dedup store\<close>

definition dedup_hit_skips_handler_and_acks :: "(string \<Rightarrow> sval option) \<Rightarrow> bool" where
  "dedup_hit_skips_handler_and_acks json =
     (case mark_completed True 5 [] test_agent ''e-dup'' of
        (Inl e, store) \<Rightarrow> False
      | (Inr _, store) \<Rightarrow>
          (case dispatch json demo_answers (with_dedup (test_config 1) store (256 * 1024)) (test_delivery ''e-dup'') of
             (D, p, es) \<Rightarrow> acks es = 1 \<and> terms es = 0 \<and> handler_inputs es = [] \<and> dp_dedup D = store))"

lemma passes_dedup_hit: "reads json ''e-dup'' \<Longrightarrow> dedup_hit_skips_handler_and_acks json"
  by (simp add: dedup_hit_skips_handler_and_acks_def test_simps)

definition fail_open_dispatches_when_dedup_read_fails :: "(string \<Rightarrow> sval option) \<Rightarrow> bool" where
  "fail_open_dispatches_when_dedup_read_fails json =
     (case dispatch json (demo_answers\<lparr>an_dedup_read := False\<rparr>) (fixture 1) (test_delivery ''e-fo-r'') of
        (D, p, es) \<Rightarrow> acks es = 1 \<and> handler_inputs es \<noteq> [])"

lemma passes_fail_open_read: "reads json ''e-fo-r'' \<Longrightarrow> fail_open_dispatches_when_dedup_read_fails json"
  by (simp add: fail_open_dispatches_when_dedup_read_fails_def test_simps)

definition fail_open_acks_when_dedup_mark_fails :: "(string \<Rightarrow> sval option) \<Rightarrow> bool" where
  "fail_open_acks_when_dedup_mark_fails json =
     (case dispatch json (demo_answers\<lparr>an_dedup_mark := False\<rparr>) (fixture 1) (test_delivery ''e-fo-m'') of
        (D, p, es) \<Rightarrow> acks es = 1 \<and> dp_dedup D = [])"

lemma passes_fail_open_mark: "reads json ''e-fo-m'' \<Longrightarrow> fail_open_acks_when_dedup_mark_fails json"
  by (simp add: fail_open_acks_when_dedup_mark_fails_def test_simps)

definition mark_completed_written_before_ack :: "(string \<Rightarrow> sval option) \<Rightarrow> bool" where
  "mark_completed_written_before_ack json =
     (case dispatch json demo_answers (fixture 1) (test_delivery ''e-marked'') of
        (D1, p1, es1) \<Rightarrow>
          (case dispatch json demo_answers D1 (test_delivery ''e-marked'') of
             (D2, p2, es2) \<Rightarrow>
               dedup_len True (dp_dedup D1) = Inr 1 \<and> dp_dedup D2 = dp_dedup D1 \<and> acks (es1 @ es2) = 2))"

lemma passes_mark_before_ack: "reads json ''e-marked'' \<Longrightarrow> mark_completed_written_before_ack json"
  by (simp add: mark_completed_written_before_ack_def test_simps dedup_len_def)

section \<open>Slots\<close>

definition available_reports_free_slots :: bool where
  "available_reports_free_slots =
     (let D = fixture 2;
          disabled = D\<lparr>dp_registry := snd (set_enabled printer io_good test_agent False (dp_registry D))\<rparr>
      in fst (available test_agent D) = 2 \<and> fst (available (AgentId ''ghost_agent'') D) = 0 \<and>
         fst (available test_agent (dispatcher_apply_changes [] disabled)) = 0)"

lemma passes_available: available_reports_free_slots
  by code_simp

section \<open>A large event\<close>

text \<open>
  A handler that does not read its input ends the writer, and the dispatch takes no notice; the padding of the
  test is two pipe buffers, and any other up to the size limit would do.
\<close>

definition padded :: "string \<Rightarrow> string" where
  "padded padding =
     ''{\"version\":1,\"event_id\":\"e-epipe\",\"agent_id\":\"'' @ AGENT @
     ''\",\"type\":\"im.message\",\"created_at\":\"t\",\"payload\":{\"blob\":\"'' @ padding @ ''\"}}''"

definition padded_document :: "string \<Rightarrow> sval" where
  "padded_document padding =
     VObj [(''version'', VInt 1), (''event_id'', VStr ''e-epipe''), (''agent_id'', VStr AGENT),
           (''type'', VStr ''im.message''), (''created_at'', VStr ''t''),
           (''payload'', VObj [(''blob'', VStr padding)])]"

definition epipe_from_early_exit_is_normal :: "(string \<Rightarrow> sval option) \<Rightarrow> bool" where
  "epipe_from_early_exit_is_normal json =
     (let raw = padded (replicate (128 * 1024) (CHR ''x''))
      in case dispatch json demo_answers (fixture 1) ((test_delivery ''e-epipe'')\<lparr>dl_raw := raw\<rparr>) of
           (D, p, es) \<Rightarrow> acks es = 1)"

lemma passes_epipe:
  assumes "json (padded (replicate (128 * 1024) (CHR ''x''))) = Some (padded_document (replicate (128 * 1024) (CHR ''x'')))"
  shows "epipe_from_early_exit_is_normal json"
proof -
  let ?dl = "(test_delivery ''e-epipe'')\<lparr>dl_raw := padded (replicate (128 * 1024) (CHR ''x''))\<rparr>"
  let ?e = "(test_envelope ''e-epipe'')\<lparr>ev_created_at := ''t'',
      ev_payload := VObj [(''blob'', VStr (replicate (128 * 1024) (CHR ''x'')))]\<rparr>"
  have "envelope_parse json (dl_raw ?dl) = Inr ?e"
    using assms
    by (simp add: envelope_parse_def deserialize_envelope_def padded_document_def envelope_fields_def req_def dflt_def
        as_value_def deserialize_agent_id_def AGENT_def agent_parses envelope_validate_def ENVELOPE_VERSION_def
        test_envelope_def test_agent_def event_ids)
  moreover have "length (dl_raw ?dl) \<le> 256 * 1024" by (simp add: padded_def AGENT_def)
  ultimately have "gate json D ?dl = Inr (?e, test_config 1)"
    if "dp_max_event_bytes D = 256 * 1024" "get (dp_registry D) test_agent = Some (test_config 1)" for D
    using that by (simp add: gate_ok_iff)
  from this[of "fixture 1"] show ?thesis
    by (simp add: epipe_from_early_exit_is_normal_def Let_def test_simps)
qed

section \<open>Overlapping dispatches\<close>

text \<open>
  The dispatches of a test as tasks of the interleaved dispatcher.  \<open>run_on\<close> gives the log of a schedule,
  \<open>marks\<close> the starts and the ends of handlers in it.
\<close>

definition test_system :: "dispatcher \<Rightarrow> dsys" where
  "test_system D = \<lparr>sys_disp = D, sys_tasks = [], sys_log = []\<rparr>"

definition run_on :: "(string \<Rightarrow> sval option) \<Rightarrow> dispatcher \<Rightarrow> sched_event list \<Rightarrow> effect list option" where
  "run_on json D evs = map_option (\<lambda>s. map snd (sys_log s)) (sched_run json evs (test_system D))"

definition marks :: "effect list \<Rightarrow> bool list" where
  "marks es = concat (map (\<lambda>eff. case eff of
     Spawn r \<Rightarrow> [True] | Log (Handler_Exited status ms) \<Rightarrow> [False] | _ \<Rightarrow> []) es)"

lemmas overlap_simps = test_simps test_system_def run_on_def replicate_numeral

text \<open>The second copy arrives while the handler of the first sleeps.\<close>

definition in_flight_duplicate_dropped_without_ack :: "(string \<Rightarrow> sval option) \<Rightarrow> bool" where
  "in_flight_duplicate_dropped_without_ack json =
     (let d = test_delivery ''e-dup-inflight''
      in case run_on json (fixture 4) ([Deliver d, Deliver d] @ task 0 6 @ task 1 5 @ task 0 4) of
           None \<Rightarrow> False
         | Some es \<Rightarrow> acks es = 1 \<and> terms es = 0 \<and> length (handler_inputs es) = 1)"

lemma passes_in_flight_duplicate: "reads json ''e-dup-inflight'' \<Longrightarrow> in_flight_duplicate_dropped_without_ack json"
  by (simp add: in_flight_duplicate_dropped_without_ack_def overlap_simps)

text \<open>
  While the handler of one delivery sleeps, the other two wait for the permit: a schedule that lets one of
  them go on does not exist, and the handlers run one after the other.
\<close>

definition serial_start :: "sched_event list" where
  "serial_start =
     map (\<lambda>i. Deliver (test_delivery i)) [''e-ser-0'', ''e-ser-1'', ''e-ser-2''] @ task 1 2 @ task 2 2 @ task 0 6"

definition serial_gate_never_overlaps :: "(string \<Rightarrow> sval option) \<Rightarrow> bool" where
  "serial_gate_never_overlaps json =
     (run_on json (fixture 1) (serial_start @ task 1 1) = None \<and>
      run_on json (fixture 1) (serial_start @ task 2 1) = None \<and>
      (case run_on json (fixture 1) (serial_start @ task 0 4 @ task 1 8 @ task 2 8) of
         None \<Rightarrow> False
       | Some es \<Rightarrow> marks es = [True, False, True, False, True, False] \<and> acks es = 3))"

lemma passes_serial_gate:
  assumes "reads json ''e-ser-0''" and "reads json ''e-ser-1''" and "reads json ''e-ser-2''"
  shows "serial_gate_never_overlaps json"
  using assms by (simp add: serial_gate_never_overlaps_def serial_start_def overlap_simps marks_def)

text \<open>With three permits all three handlers run at once.\<close>

definition parallel_gate_runs_concurrently :: "(string \<Rightarrow> sval option) \<Rightarrow> bool" where
  "parallel_gate_runs_concurrently json =
     (case run_on json (fixture 3)
             (map (\<lambda>i. Deliver (test_delivery i)) [''e-par-0'', ''e-par-1'', ''e-par-2''] @
              task 0 6 @ task 1 6 @ task 2 6 @ task 0 4 @ task 1 4 @ task 2 4) of
        None \<Rightarrow> False
      | Some es \<Rightarrow> marks es = [True, True, True, False, False, False] \<and> acks es = 3)"

lemma passes_parallel_gate:
  assumes "reads json ''e-par-0''" and "reads json ''e-par-1''" and "reads json ''e-par-2''"
  shows "parallel_gate_runs_concurrently json"
  using assms by (simp add: parallel_gate_runs_concurrently_def overlap_simps marks_def)

section \<open>Lines\<close>

text \<open>The lines of a dispatch, each with the names of the spans it is in, from the innermost.\<close>

fun span_name :: "span \<Rightarrow> string" where
  "span_name (Span parent n fs) = n"

definition line_scope :: "delivery \<Rightarrow> pc \<Rightarrow> pc \<Rightarrow> log_event \<Rightarrow> string" where
  "line_scope dl p p' l =
     join_with (CHR ''>'') (case line_span dl p p' l of None \<Rightarrow> [] | Some sp \<Rightarrow> map span_name (event_scope sp))"

fun captured :: "nat \<Rightarrow> (string \<Rightarrow> sval option) \<Rightarrow> answers \<Rightarrow> dispatcher \<Rightarrow> delivery \<Rightarrow> pc \<Rightarrow> (string \<times> log_event) list" where
  "captured 0 json an D dl p = []"
| "captured (Suc n) json an D dl p =
     (case advance json an D dl p of
        None \<Rightarrow> []
      | Some (D', p', es) \<Rightarrow>
          concat (map (\<lambda>eff. case eff of Log l \<Rightarrow> [(line_scope dl p p' l, l)] | _ \<Rightarrow> []) es) @
          captured n json an D' dl p')"

lemma captured_numeral:
  "captured (numeral k) json an D dl p =
     (case advance json an D dl p of
        None \<Rightarrow> []
      | Some (D', p', es) \<Rightarrow>
          concat (map (\<lambda>eff. case eff of Log l \<Rightarrow> [(line_scope dl p p' l, l)] | _ \<Rightarrow> []) es) @
          captured (pred_numeral k) json an D' dl p')"
  by (simp add: numeral_eq_Suc)

definition handler_lines_carry_dispatch_context :: "(string \<Rightarrow> sval option) \<Rightarrow> bool" where
  "handler_lines_carry_dispatch_context json =
     (let lines = captured 10 json demo_answers (fixture 1) (test_delivery ''e-spans'') Entered
      in list_all (\<lambda>(scope, l). handler_line l \<longrightarrow> scope = ''handler>dispatch'') lines \<and>
         list_ex (\<lambda>(scope, l). case l of Handler_Exited status ms \<Rightarrow> True | _ \<Rightarrow> False) lines)"

lemma passes_handler_lines: "reads json ''e-spans'' \<Longrightarrow> handler_lines_carry_dispatch_context json"
  by (simp add: handler_lines_carry_dispatch_context_def captured_numeral test_simps line_scope_def line_span_def
      span_for_def dispatch_span_def handler_span_def)

end
