(* ===== verification/Integration_Tests_Control.thy ===== *)
theory Integration_Tests_Control
  imports Ctl_Daemon
begin

text \<open>
  The integration tests of the control plane (\<open>tests/control.rs\<close>), run on the model under the names they have
  there.  The tests put a recording backend in the place of the relay; here the relay is the model's own,
  with a server that answers, and what reached it is read from its lifecycle lines and its pull loops.
  The client of \<open>tests/agentdctl.rs\<close> that finds no daemon is here too.
\<close>

section \<open>Fixtures\<close>

definition agent :: "string \<Rightarrow> path \<Rightarrow> bool \<Rightarrow> agent_config" where
  "agent aid h en =
     \<lparr>agent_id = AgentId aid, handler = h, max_concurrency = 1, working_directory = None, enabled = en\<rparr>"

text \<open>A TOML codec that knows the registrations of the tests.\<close>

definition test_files :: "(agent_config \<times> string) list" where
  "test_files =
     [(agent ''a_test'' ''/bin/true'' True, ''1''), (agent ''a_test'' ''/bin/other'' True, ''2''),
      (agent ''a_test'' ''/bin/other'' False, ''3''), (agent ''disk_agent'' ''/bin/true'' True, ''4'')]"

definition test_toml :: toml_codec where
  "test_toml =
     \<lparr>toml_parse = (\<lambda>t. map_option (\<lambda>c. omit_none (serialize_agent_config c)) (map_of (map prod.swap test_files) t)),
      toml_print = map_of (map (\<lambda>(c, t). (serialize_agent_config c, t)) test_files)\<rparr>"

definition control_env :: ctl_env where
  "control_env = demo_env\<lparr>ce_info := [''agent-a_test'' \<mapsto> (3, 1)]\<rparr>"

definition control_fixture :: daemon where
  "control_fixture =
     \<lparr>dm_disp = dispatcher_new \<lparr>reg_dir = ''/tmp/d/agents.d'', reg_agents = [],
        reg_disk = \<lparr>dir_exists = True, files = []\<rparr>\<rparr> [] 3600 (256 * 1024),
      dm_relay = relay_new ''AGENT_EVENTS'' 300 90, dm_connected = True\<rparr>"

definition control_rpc :: "request \<Rightarrow> daemon \<Rightarrow> response \<times> daemon" where
  "control_rpc rq w = handle_request test_toml (\<lambda>_. ''error'') control_env w rq"

fun control_rpcs :: "request list \<Rightarrow> daemon \<Rightarrow> daemon" where
  "control_rpcs [] w = w"
| "control_rpcs (rq # rqs) w = control_rpcs rqs (snd (control_rpc rq w))"

definition file_exists :: "string \<Rightarrow> daemon \<Rightarrow> bool" where
  "file_exists name w = (map_of (files (reg_disk (dm_registry w))) name \<noteq> None)"

definition a_test :: agent_id where
  "a_test = AgentId ''a_test''"

section \<open>Requests\<close>

definition register_persists_and_applies_added_change :: bool where
  "register_persists_and_applies_added_change =
     (case control_rpc (Register (agent ''a_test'' ''/bin/true'' True)) control_fixture of
        (r, w) \<Rightarrow>
          rs_ok r \<and> file_exists ''a_test.toml'' w \<and>
          rl_log (dm_relay w) = [Consumer_Bound a_test ''agent-a_test'', Agent_Registered a_test] \<and>
          map fst (rl_pulls (dm_relay w)) = [a_test])"

lemma passes_register: register_persists_and_applies_added_change
  by code_simp

text \<open>The message of the test is the text of \<open>AlreadyRegistered\<close>.\<close>

definition duplicate_register_is_refused :: bool where
  "duplicate_register_is_refused =
     (let w = control_rpcs [Register (agent ''a_test'' ''/bin/true'' True)] control_fixture
      in \<not> rs_ok (fst (control_rpc (Register (agent ''a_test'' ''/bin/other'' True)) w)) \<and>
         fst (handle_register test_toml control_env (agent ''a_test'' ''/bin/other'' True) w) =
           Inl (Config (AlreadyRegistered ''a_test'')))"

lemma passes_duplicate_register: duplicate_register_is_refused
  by code_simp

definition update_disable_unregister_flow :: bool where
  "update_disable_unregister_flow =
     (let w0 = control_rpcs [Register (agent ''a_test'' ''/bin/true'' True)] control_fixture;
          (r1, w1) = control_rpc (Update (agent ''a_test'' ''/bin/other'' True)) w0;
          (r2, w2) = control_rpc (Update (agent ''a_test'' ''/bin/other'' False)) w1;
          (r3, w3) = control_rpc List w2;
          (r4, w4) = control_rpc (Unregister a_test) w3
      in rs_ok r1 \<and> map_option handler (get (dm_registry w1) a_test) = Some ''/bin/other'' \<and>
         map fst (rl_pulls (dm_relay w1)) = [a_test] \<and>
         rs_ok r2 \<and> map_option enabled (get (dm_registry w2) a_test) = Some False \<and> rl_pulls (dm_relay w2) = [] \<and>
         rs_agents r3 = Some [agent ''a_test'' ''/bin/other'' False] \<and>
         rs_ok r4 \<and> \<not> file_exists ''a_test.toml'' w4 \<and>
         rl_log (dm_relay w4) =
           [Consumer_Bound a_test ''agent-a_test'', Agent_Registered a_test, Agent_Updated a_test,
            Agent_Updated a_test, Agent_Unregistered a_test])"

lemma passes_update_flow: update_disable_unregister_flow
  by code_simp

definition reload_applies_disk_diff :: bool where
  "reload_applies_disk_diff =
     (let w = set_registry ((dm_registry control_fixture)\<lparr>reg_disk :=
                \<lparr>dir_exists = True, files = [(''disk_agent.toml'', Readable ''4'')]\<rparr>\<rparr>) control_fixture
      in case control_rpc Reload w of
           (r, w') \<Rightarrow>
             rs_ok r \<and>
             rl_log (dm_relay w') =
               [Consumer_Bound (AgentId ''disk_agent'') ''agent-disk_agent'', Agent_Registered (AgentId ''disk_agent'')])"

lemma passes_reload: reload_applies_disk_diff
  by code_simp

definition status_reports_agents_and_backlog :: bool where
  "status_reports_agents_and_backlog =
     (let w = control_rpcs [Register (agent ''a_test'' ''/bin/true'' True)] control_fixture;
          r = fst (control_rpc Status w)
      in rs_ok r \<and>
         (case rs_status r of
            None \<Rightarrow> False
          | Some st \<Rightarrow>
              sr_daemon_version st = DAEMON_VERSION \<and> sr_nats_connected st \<and>
              (case sr_agents st of
                 [a] \<Rightarrow> as_agent_id a = a_test \<and> as_in_flight a = 0 \<and> as_num_pending a = Some 3 \<and>
                        as_num_ack_pending a = Some 1
               | _ \<Rightarrow> False)))"

lemma passes_status: status_reports_agents_and_backlog
  by code_simp

section \<open>The connection and the socket\<close>

text \<open>A line that is not JSON is answered, and the connection goes on to the next line.\<close>

definition malformed_request_returns_error_not_disconnect :: "json_codec \<Rightarrow> texts \<Rightarrow> bool" where
  "malformed_request_returns_error_not_disconnect js tx =
     (answer_line test_toml js tx control_env control_fixture ''this is not json'' =
        (response_err (tx_malformed tx ''this is not json''), control_fixture) \<and>
      serve_connection test_toml js tx [(control_env, Some ''this is not json'', True)] control_fixture =
        (True, [render_response js (response_err (tx_malformed tx ''this is not json''))], control_fixture))"

lemma passes_malformed:
  assumes "json_parse js ''this is not json'' = None"
  shows "malformed_request_returns_error_not_disconnect js tx"
proof -
  have "trim ''this is not json'' \<noteq> []" by code_simp
  with assms show ?thesis
    by (simp add: malformed_request_returns_error_not_disconnect_def answer_line_def parse_request_def)
qed

definition test_socket :: "bool \<Rightarrow> socket_env" where
  "test_socket there =
     \<lparr>so_exists = there, so_remove = True, so_parent = Some ''/tmp/d'', so_mkdir = True, so_bind = True, so_chmod = True\<rparr>"

text \<open>\<open>384\<close> is octal 600.\<close>

definition socket_is_created_with_mode_0600 :: bool where
  "socket_is_created_with_mode_0600 =
     (case bind_socket (test_socket False) ''/tmp/d/control.sock'' of
        (r, ops) \<Rightarrow> r = Inr () \<and> last ops = Chmod_Socket 384)"

lemma passes_socket_mode: socket_is_created_with_mode_0600
  by code_simp

definition stale_socket_file_is_replaced_at_bind :: bool where
  "stale_socket_file_is_replaced_at_bind =
     (bind_socket (test_socket True) ''/tmp/d/control.sock'' =
        (Inr (), [Remove_File, Make_Dir ''/tmp/d'', Bind_Socket, Chmod_Socket 384]) \<and>
      rs_ok (fst (control_rpc List control_fixture)))"

lemma passes_stale_socket: stale_socket_file_is_replaced_at_bind
  by code_simp

section \<open>No daemon\<close>

definition ctl_without_daemon_reports_connection_error :: "json_codec \<Rightarrow> unit wire \<Rightarrow> bool" where
  "ctl_without_daemon_reports_connection_error js wire =
     (let out = fst (ctl_list js (wire\<lparr>wi_connect := False\<rparr>) ''/nonexistent-agentd-ctl-test/control.sock'' ())
      in oc_exit out \<noteq> 0 \<and>
         oc_err out = [Rpc_Error (Cannot_Connect ''/nonexistent-agentd-ctl-test/control.sock'')])"

lemma passes_without_daemon: "ctl_without_daemon_reports_connection_error js wire"
  by (simp add: ctl_without_daemon_reports_connection_error_def ctl_list_def rpc_def fail_def)

end
