(* ===== verification/Spec2Isabelle.thy ===== *)
theory Spec2Isabelle
  imports Daemon_Lives Daemon_Races Daemon_Complete Daemon_Order Ctl_Daemon Dispatch_Races Envelope_Schema
    Unit_Tests_Logging Unit_Tests_Stores Integration_Tests Integration_Tests_Control
begin

text \<open>
  Verification development of agent-daemon: \<open>agentd\<close>, a daemon that pulls events from a NATS JetStream
  stream and runs a local handler process per event, and \<open>agentdctl\<close>, its command-line client.

  The program.  \<open>src/main.rs\<close> loads the configuration (\<open>src/config.rs\<close>), opens the store of completed
  events (\<open>src/dedup.rs\<close>, SQLite) and the registry of agents (\<open>src/registry.rs\<close>, one TOML file per agent in
  \<open>agents.d\<close>), and creates the dispatcher (\<open>src/dispatcher.rs\<close>) and the relay (\<open>src/relay.rs\<close>).  The relay
  runs one pull loop per enabled agent: it asks the dispatcher for free slots, fetches at most that many
  messages, and spawns one dispatch task per message.  A dispatch task gates the event
  (\<open>src/event.rs\<close>, \<open>src/agent_id.rs\<close>), waits for a permit of the agent, consults the store, claims the event
  in the in-flight set, runs the handler, records the completion, and acknowledges.  The control socket
  (\<open>src/control.rs\<close>) and SIGHUP change the registry and pass the changes to dispatcher and relay;
  SIGTERM stops the pull loops and waits for the tasks.  \<open>src/bin/agentdctl.rs\<close> talks to the socket.

  The theories and the code they model.
    \<^item> \<open>Prelude\<close>: word types, saturating arithmetic, strings (\<open>split\<close>, \<open>trim\<close>, \<open>find\<close>), paths, decimal
      numbers, association lists as hash maps, counting.
    \<^item> \<open>Errors\<close>: \<open>src/error.rs\<close>; the five variants with one constructor per message.
    \<^item> \<open>AgentIds\<close>: \<open>src/agent_id.rs\<close>; parser, grammar, subject, order.
    \<^item> \<open>Serde\<close>: what the derived serde implementations do with a document tree.
    \<^item> \<open>Envelopes\<close>: \<open>src/event.rs\<close>.  \<open>Envelope_Schema\<close>: \<open>docs/envelope.schema.json\<close>, what publishers validate
      against, as a predicate on documents.
    \<^item> \<open>DaemonConfigs\<close>: \<open>src/config.rs\<close>.  \<open>Logging\<close>: \<open>src/logging.rs\<close>.
    \<^item> \<open>Dedup\<close>: \<open>src/dedup.rs\<close>; the table as its rows, and the locales \<open>completion_log\<close> and \<open>expiring_log\<close>,
      the contract the dispatcher relies on.
    \<^item> \<open>AgentConfigs\<close>, \<open>Disk\<close>, \<open>Registry\<close>: \<open>src/registry.rs\<close>; registrations and changes, the directory and
      \<open>persist\<close>, load, mutations and reload, and the locale \<open>registration_store\<close>.  \<open>Registry_Histories\<close>: the
      map the mutations refine, histories with restarts, reloads of edited directories.
    \<^item> \<open>Dispatcher\<close>: \<open>src/dispatcher.rs\<close>; the shared state, and \<open>dispatch\<close> cut at the points where other
      tasks run, as the program counter \<open>pc\<close> and the function \<open>advance\<close>.  \<open>Dispatch_Runs\<close>: one dispatch
      alone, branch by branch.  \<open>Systems\<close>: reachable states, invariants, simulations and progress as
      locales.  \<open>Dispatch_System\<close>: all tasks interleaved.  \<open>Dispatch_Schedules\<close>: executable schedules and
      termination.  \<open>Dispatch_Agents\<close>: limits and in-flight sets.  \<open>Dispatch_History\<close>: what each delivery
      has done.  \<open>Dispatch_Complete\<close>: what becomes of every valid event.  \<open>Dispatch_Order\<close>: the order in which
      handlers start.  \<open>Dispatch_Lines\<close>: which span each log line is in,
      the handler's input.  \<open>Dispatch_Races\<close>: schedules that leave
      the guarantees.
    \<^item> \<open>Relay\<close>: \<open>src/relay.rs\<close>; configurations, connection events, changes, the table of pull loops, the
      pull loop, the shutdown, the keepalive.
    \<^item> \<open>Control\<close>, \<open>Control_Plane\<close>: \<open>src/control.rs\<close>; the wire format, the handle, requests, connections and
      the loop that accepts them, the socket; the locale \<open>relay_backend\<close> and what the control plane keeps of registry and relay.
    \<^item> \<open>Daemon\<close>: \<open>src/main.rs\<close>; start-up, the signal loop, the exit code of the process.  \<open>Daemon_System\<close>: the running daemon with its
      tasks, pull loops, control operations and shutdown interleaved.  \<open>Daemon_Restarts\<close>: what a completion
      promises for the rest of the run and for the daemons after it.  \<open>Daemon_Lives\<close>: any number of daemons one
      after the other, each on the rows of its predecessor.  \<open>Daemon_Complete\<close>: the valid events a daemon has taken
      by the time it exits.  \<open>Daemon_Order\<close>: delivery order, what it needs of the server, and the daemon without
      it.  \<open>Daemon_Races\<close>: control operations that overlap while the relay awaits the server.
    \<^item> \<open>Ctl\<close>, \<open>Ctl_Daemon\<close>: \<open>src/bin/agentdctl.rs\<close>; the commands, and the client against the daemon.
    \<^item> \<open>Unit_Tests_Data\<close>, \<open>Unit_Tests_Logging\<close>, \<open>Unit_Tests_Stores\<close>: the unit tests of the modules, translated like the code and run on
      the model, under the names they have in the code.
    \<^item> \<open>Integration_Tests\<close>, \<open>Integration_Tests_Control\<close>: the integration tests that need no server
      (\<open>tests/dispatcher.rs\<close>, \<open>tests/control.rs\<close>), run on the model with the fakes as answers.

  How state and code correspond.  A struct is a record and an enum a datatype with the source's
  constructors; integers keep their width.  A mutex-protected section is one function on the state.  An
  \<open>Arc<Semaphore>\<close> is the index of a cell of \<open>dp_sems\<close>, because a task keeps the semaphore it queued on
  after the agent's state was replaced; a \<open>JoinHandle\<close> of a pull loop is an index into \<open>rl_loops\<close>, with the
  flag that it was aborted.  What the operating system, SQLite, NATS and the clock answer are records of
  answers (\<open>io_env\<close>, \<open>dedup_env\<close>, \<open>answers\<close>, \<open>relay_env\<close>, \<open>loop_answers\<close>, \<open>start_env\<close>, \<open>socket_env\<close>), so
  that every failing call is a branch.  The JSON and TOML parsers and printers are parameters; the one
  documented property assumed of them is that printing a registration and parsing the text gives it back
  (\<open>toml_roundtrip\<close>), and for one client exchange that the four values involved survive (\<open>carries\<close>); a
  test says of each text it sends which document the parser reads (\<open>reads\<close>).

  What the lemmas show.
    \<^item> Delivery.  In every interleaving a delivery is resolved at most once and in protocol order, an
      acknowledged event is recorded; for an agent that is left alone handlers never exceed the limit, an event is
      never handled twice at once, and with the default limit its handler runs at most once;
      every schedule of the tasks ends with all permits returned.
    \<^item> Composition.  The dispatcher inside the running daemon only makes steps of that interleaved
      dispatcher; the daemon exits only with every delivery resolved, and can always come to that; an
      acknowledged event is not handled again by a daemon started on the rows of an earlier one, however
      that one was stopped, until the completion expires and while the lookups of the store are answered; over any number of restarts the handler of an event
      of a serial agent runs at most once more often than a daemon ended between spawn and record, and at
      most once when every shutdown finished.  While the store works and handlers can be spawned, a daemon
      that exits has recorded every valid event it was given and, for a serial agent, run each new one exactly
      once (for agents that are not reconfigured meanwhile); and when the server keeps the window of the consumer
      that the relay asks for, with any redeliveries of the pending message, the handlers of a serial agent start
      in the order of the stream.
    \<^item> Registry.  The mutations refine a map, memory and directory stay in step through every failing
      call, a restart finds what the process had, a reload reports exactly the difference.
    \<^item> Control.  Requests and reloads keep the invariant; while the server answers no agent loses its pull loop to a
      request, and every agent a request has registered, updated, enabled or changed is pulled if it is enabled
      (an agent that a failed bind left unpulled stays so until then); refused requests change nothing; the wire
      format and \<open>agentdctl update\<close> are exact.
    \<^item> Data.  The grammar of ids, acceptance of envelopes and how it relates to the published schema, bounds of configurations and casts, retention
      of completions, redaction of URLs.
    \<^item> Limits.  \<open>Dispatch_Races\<close> and the last theorems of \<open>Control_Plane\<close>, \<open>Relay\<close> and \<open>Ctl_Daemon\<close> exhibit
      behaviour the guarantees above exclude by hypothesis: a redelivery that runs again with two permits,
      a limit exceeded or lost by a reconfiguration, a removal that stops a new pull loop, an update
      that starts one for an agent removed meanwhile (\<open>Daemon_Races\<close>), a serial agent whose daemon fetches
      ahead and starts the second event first (\<open>Daemon_Order\<close>), two client updates one of which is lost, a reload that
      does not rebind, an unredacted URL in an error, unaligned tables, and (\<open>Dispatch_Lines\<close>) the
      acknowledgement lines that name no event.

  Bounds and fuel.  \<open>run_task\<close> has the fuel ten: a dispatch has at most ten sections, since \<open>pc_rank\<close>
  decreases with each (\<open>run_task_enough\<close>).  All other recursions are structural or have a measure.
  Progress and shutdown assume that a running handler exits, as the code sets no timeout.

  Not modelled: the text of error messages; the tests of the two programs with a server and of their command lines
  (\<open>tests/e2e.rs\<close>, \<open>tests/cli.rs\<close>, most of \<open>tests/agentdctl.rs\<close>);
  command-line parsing (clap); the JSON output of tracing; \<open>lib.rs\<close>, which only lists the modules;
  how far the task that writes a handler's stdin comes before it is aborted (the bytes are part of the
  spawn request, and the task's operations are \<open>spawn_stdin_writer\<close>); poisoned locks, which need a panic elsewhere; the order in which a semaphore serves its
  waiters; permissions and concurrent writers of the registry directory, other than edits between
  operations; the internals of tokio, async-nats, rusqlite, serde_json, toml and dirs.  The relay's
  changes are split where the bind awaits the server (\<open>begin_change\<close>, \<open>end_change\<close>).

  Grain of the steps.  A step is the code between two points where it awaits or takes a lock that others contend
  for, with four simplifications.  \<open>available\<close> does the lookup in the registry and \<open>ensure_state\<close> in one step,
  although each takes its own lock; for an agent that is left alone nothing happens in between.  An aborted pull
  loop takes no further step, whereas tokio stops it at its next await: what lies before that is the rest of a
  step.  The permit of a dispatch is given back in the step of the final acknowledgement, after which the task
  only returns.  \<open>handle_request\<close> is a request run to its end; how the halves of requests interleave with each
  other and with the tasks is the business of \<open>full_step\<close>.  The server enters the order of deliveries through
  \<open>served_step\<close>, which states what JetStream documents of a durable consumer with a window.
\<close>

end
